(* ===== verification/Prelude.thy ===== *)
theory Prelude
  imports Main "HOL-Library.Word" "HOL-Library.Signed_Division"
begin

text \<open>
  Shared vocabulary of the development.

  \<^item> Go's \<open>int64\<close> and \<open>uint64\<close> are 64-bit words (\<open>i64\<close> and \<open>u64\<close> are names of
    the same type): \<open>+\<close>, \<open>-\<close>, \<open>*\<close> wrap as in Go, \<open>sint\<close> reads the signed value,
    \<open>uint\<close> the unsigned one, \<open><s\<close> and \<open><=s\<close> compare as \<open>int64\<close>, \<open><\<close> and \<open>\<le>\<close>
    as \<open>uint64\<close>. Go's \<open>/\<close> and \<open>%\<close> truncate towards zero (\<open>go_div\<close>, \<open>go_rem\<close>).
  \<^item> A panic is a value of \<open>panic\<close>, one constructor per panic of the program (and per
    run-time panic the program can reach). A pure computation that may panic has type
    \<open>panic + 'a\<close>; a computation over a state has type \<open>('s, 'a) outcome\<close>, which keeps
    the state also when it panics, because Go keeps every write made before the panic.
  \<^item> Strings are byte strings (\<open>string\<close> is a list of 8-bit characters, as Go's).
\<close>

section \<open>Collections of facts\<close>

named_theorems i64_simps \<open>signed readings of 64-bit words\<close>
named_theorems outcome_simps \<open>unfolding of the sequencing combinators\<close>

section \<open>Go's 64-bit integers\<close>

type_synonym i64 = "64 word"
type_synonym u64 = "64 word"

definition MaxInt64 :: i64 where
  "MaxInt64 = 9223372036854775807"

definition MinInt64 :: i64 where
  "MinInt64 = - 9223372036854775808"

definition in_i64 :: "int \<Rightarrow> bool" where
  "in_i64 x \<longleftrightarrow> - 9223372036854775808 \<le> x \<and> x \<le> 9223372036854775807"

definition go_div :: "i64 \<Rightarrow> i64 \<Rightarrow> i64" where
  "go_div a b = word_of_int (sint a sdiv sint b)"

definition go_rem :: "i64 \<Rightarrow> i64 \<Rightarrow> i64" where
  "go_rem a b = word_of_int (sint a smod sint b)"

lemma sint_MaxInt64 [simp, i64_simps]: "sint MaxInt64 = 9223372036854775807"
  by (simp add: MaxInt64_def)

lemma sint_MinInt64 [simp, i64_simps]: "sint MinInt64 = - 9223372036854775808"
  by (simp add: MinInt64_def)

lemma in_i64_sint [simp, intro!]: "in_i64 (sint (a :: i64))"
  using sint_ge [of a] sint_lt [of a] by (simp add: in_i64_def)

lemma signed_take_bit_in_i64: "in_i64 x \<Longrightarrow> signed_take_bit 63 x = x"
  by (rule signed_take_bit_int_eq_self) (simp_all add: in_i64_def)

lemma sint_of_int_i64 [i64_simps]: "in_i64 x \<Longrightarrow> sint (word_of_int x :: i64) = x"
  by (simp add: sint_sbintrunc' signed_take_bit_in_i64)

lemma sint_add_i64 [i64_simps]:
  "in_i64 (sint a + sint b) \<Longrightarrow> sint (a + b :: i64) = sint a + sint b"
  by (simp add: sint_word_add signed_take_bit_in_i64)

lemma sint_diff_i64 [i64_simps]:
  "in_i64 (sint a - sint b) \<Longrightarrow> sint (a - b :: i64) = sint a - sint b"
  by (simp add: sint_word_diff signed_take_bit_in_i64)

lemma sint_mult_i64 [i64_simps]:
  "in_i64 (sint a * sint b) \<Longrightarrow> sint (a * b :: i64) = sint a * sint b"
  by (simp add: sint_word_mult signed_take_bit_in_i64)

lemma sint_minus_i64 [i64_simps]:
  "in_i64 (- sint a) \<Longrightarrow> sint (- a :: i64) = - sint a"
  by (simp add: sint_word_minus signed_take_bit_in_i64)

lemma i64_eq_iff: "(a :: i64) = b \<longleftrightarrow> sint a = sint b"
proof
  assume "sint a = sint b"
  then have "(word_of_int (sint a) :: i64) = word_of_int (sint b)" by (rule arg_cong)
  then show "a = b" by simp
qed simp

lemma word_of_int_eq_iff_sint:
  "in_i64 x \<Longrightarrow> (word_of_int x = (c :: i64)) \<longleftrightarrow> x = sint c"
  by (simp add: i64_eq_iff sint_of_int_i64)

lemma ex_sint_eq:
  "(\<exists>x :: i64. sint x = k \<and> P x) \<longleftrightarrow> in_i64 k \<and> P (word_of_int k)"
  by (auto simp: sint_of_int_i64 intro!: exI [of _ "word_of_int k"])

lemma ex_sint: "(\<exists>x :: i64. sint x = k) \<longleftrightarrow> in_i64 k"
  using ex_sint_eq [of k "\<lambda>_. True"] by simp

lemma sint_eq_in_i64: "sint (x :: i64) = k \<Longrightarrow> in_i64 k"
  by auto

lemma in_i64_between: "in_i64 x \<Longrightarrow> in_i64 y \<Longrightarrow> x \<le> z \<Longrightarrow> z \<le> y \<Longrightarrow> in_i64 z"
  by (simp add: in_i64_def)

lemma in_i64_abs_le: "\<bar>y\<bar> \<le> \<bar>x\<bar> \<Longrightarrow> x \<noteq> - 9223372036854775808 \<Longrightarrow> in_i64 x \<Longrightarrow> in_i64 y"
  by (auto simp: in_i64_def abs_le_iff)

lemma sint_eq_uint_i64: "uint (a :: i64) < 9223372036854775808 \<Longrightarrow> sint a = uint a"
  by (simp add: sint_uint signed_take_bit_in_i64 in_i64_def order.trans [OF _ uint_ge_0])

lemma uint_eq_sint_i64: "0 \<le> sint (a :: i64) \<Longrightarrow> uint a = sint a \<and> uint a < 9223372036854775808"
  using sint_lt [of a] by (simp add: uint_sint take_bit_int_eq_self)

section \<open>Panics and outcomes\<close>

datatype db_error =
    UniqueConstraint
  | UintHighBit
  | EngineFault

datatype store_error =
    FailedToInsert db_error
  | FailedToGetLastSeq db_error
  | FailedToQuery db_error
  | FailedToScan db_error
  | FailedToUnmarshal i64
  | RowsIterationError db_error

datatype panic =
    CORE_SAFE_ADD_OVERFLOW
  | CORE_SAFE_SUB_OVERFLOW
  | CORE_SAFE_MUL_OVERFLOW
  | CORE_SAFE_DIV_BY_ZERO
  | CORE_SAFE_DIV_OVERFLOW
  | BALANCE_INSUFFICIENT string i64 i64
  | BALANCE_RESERVE_INSUFFICIENT string i64 i64
  | BALANCE_RELEASE_EXCEEDS_RESERVED string i64 i64
  | BALANCE_INVARIANT_NEGATIVE_AMOUNT string i64
  | BALANCE_INVARIANT_NEGATIVE_RESERVED string i64
  | BALANCE_INVARIANT_RESERVED_EXCEEDS_AMOUNT string i64 i64
  | SEQUENCE_GAP_FATAL u64 u64
  | REPLAY_GAP_DETECTED u64 u64
  | PERSISTENCE_FAILURE store_error
  | HALTED panic
  | SMA_PERIODS_INVALID
  | SAFETY_GUARD
  | INDEX_OUT_OF_RANGE
  | MAKESLICE_LEN_OUT_OF_RANGE
  | INTEGER_DIVIDE_BY_ZERO
  | NIL_DEREFERENCE

primrec bind_panic :: "panic + 'a \<Rightarrow> ('a \<Rightarrow> panic + 'b) \<Rightarrow> panic + 'b" where
  "bind_panic (Inl p) k = Inl p"
| "bind_panic (Inr x) k = k x"

datatype ('s, 'a) outcome = Done 'a (final: 's) | Panicked panic (final: 's)

primrec and_then :: "('s, 'a) outcome \<Rightarrow> ('a \<Rightarrow> 's \<Rightarrow> ('s, 'b) outcome) \<Rightarrow> ('s, 'b) outcome" where
  "and_then (Done x s) k = k x s"
| "and_then (Panicked p s) k = Panicked p s"

primrec lift_panic :: "panic + 'a \<Rightarrow> 's \<Rightarrow> ('s, 'a) outcome" where
  "lift_panic (Inl p) s = Panicked p s"
| "lift_panic (Inr x) s = Done x s"

lemma bind_panic_Inr_iff [simp]:
  "bind_panic m k = Inr y \<longleftrightarrow> (\<exists>x. m = Inr x \<and> k x = Inr y)"
  by (cases m) auto

lemma bind_panic_Inl_iff:
  "bind_panic m k = Inl p \<longleftrightarrow> m = Inl p \<or> (\<exists>x. m = Inr x \<and> k x = Inl p)"
  by (cases m) auto

lemma and_then_Done_iff [outcome_simps]:
  "and_then m k = Done y t \<longleftrightarrow> (\<exists>x s. m = Done x s \<and> k x s = Done y t)"
  by (cases m) auto

lemma lift_panic_Done_iff [outcome_simps]: "lift_panic r s = Done x t \<longleftrightarrow> r = Inr x \<and> t = s"
  by (cases r) auto

section \<open>Slices\<close>

text \<open>Reading and writing a slice element; an index outside the slice panics.\<close>

definition index_get :: "'a list \<Rightarrow> int \<Rightarrow> panic + 'a" where
  "index_get xs i = (if 0 \<le> i \<and> i < int (length xs) then Inr (xs ! nat i) else Inl INDEX_OUT_OF_RANGE)"

definition index_set :: "'a list \<Rightarrow> int \<Rightarrow> 'a \<Rightarrow> panic + 'a list" where
  "index_set xs i v =
     (if 0 \<le> i \<and> i < int (length xs) then Inr (xs[nat i := v]) else Inl INDEX_OUT_OF_RANGE)"

end
