(* ===== verification/Strconv.thy ===== *)
theory Strconv
  imports Prelude
begin

text \<open>
  The parts of Go's \<open>strconv\<close>, \<open>strings\<close> and \<open>fmt\<close> that the program's decimal code uses:
  \<open>strconv.ParseUint\<close> and \<open>strconv.ParseInt\<close> in base 10 for 64 bits, with the value they
  return beside an error, \<open>%d\<close> and \<open>%0*d\<close>, \<open>strings.Split\<close> and \<open>strings.SplitN(_, _, 2)\<close>
  for a one-byte separator. \<open>dec\<close> and \<open>decval\<close> print and read a natural number; the
  lemmas relate parsing and printing to them.
\<close>

section \<open>Parsing integers\<close>

datatype num_error = ErrSyntax | ErrRange

definition digit_val :: "char \<Rightarrow> nat option" where
  "digit_val c = (let k = of_char c :: nat in if 48 \<le> k \<and> k \<le> 57 then Some (k - 48) else None)"

definition MaxUint64 :: nat where
  "MaxUint64 = 18446744073709551615"

fun parse_uint_loop :: "string \<Rightarrow> nat \<Rightarrow> nat \<times> num_error option" where
  "parse_uint_loop [] n = (n, None)"
| "parse_uint_loop (c # cs) n =
     (case digit_val c of
        None \<Rightarrow> (0, Some ErrSyntax)
      | Some d \<Rightarrow>
          if MaxUint64 < n * 10 + d then (MaxUint64, Some ErrRange)
          else parse_uint_loop cs (n * 10 + d))"

definition ParseUint :: "string \<Rightarrow> nat \<times> num_error option" where
  "ParseUint s = (if s = [] then (0, Some ErrSyntax) else parse_uint_loop s 0)"

definition ParseInt :: "string \<Rightarrow> i64 \<times> num_error option" where
  "ParseInt s =
     (if s = [] then (0, Some ErrSyntax)
      else
        let neg = (hd s = CHR ''-'');
            body = (if hd s = CHR ''-'' \<or> hd s = CHR ''+'' then tl s else s)
        in case ParseUint body of
             (un, Some ErrSyntax) \<Rightarrow> (0, Some ErrSyntax)
           | (un, _) \<Rightarrow>
               if \<not> neg \<and> 9223372036854775808 \<le> un then (MaxInt64, Some ErrRange)
               else if neg \<and> 9223372036854775808 < un then (MinInt64, Some ErrRange)
               else (if neg then - of_nat un else of_nat un, None))"

section \<open>Printing integers\<close>

definition digit_char :: "nat \<Rightarrow> char" where
  "digit_char d = char_of (48 + d)"

fun dec :: "nat \<Rightarrow> string" where
  "dec n = (if n < 10 then [digit_char n] else dec (n div 10) @ [digit_char (n mod 10)])"

declare dec.simps [simp del]

definition fmt_d :: "int \<Rightarrow> string" where
  "fmt_d x = (if x < 0 then CHR ''-'' # dec (nat (- x)) else dec (nat x))"

definition pad0 :: "nat \<Rightarrow> string \<Rightarrow> string" where
  "pad0 w s = replicate (w - length s) CHR ''0'' @ s"

definition fmt_0d :: "nat \<Rightarrow> int \<Rightarrow> string" where
  "fmt_0d w x = (if x < 0 then CHR ''-'' # pad0 (w - 1) (dec (nat (- x))) else pad0 w (dec (nat x)))"

section \<open>Splitting\<close>

definition SplitN2 :: "char \<Rightarrow> string \<Rightarrow> string list" where
  "SplitN2 sep s =
     (if sep \<in> set s then [takeWhile (\<lambda>c. c \<noteq> sep) s, tl (dropWhile (\<lambda>c. c \<noteq> sep) s)] else [s])"

fun Split :: "char \<Rightarrow> string \<Rightarrow> string list" where
  "Split sep [] = [[]]"
| "Split sep (c # cs) =
     (if c = sep then [] # Split sep cs
      else (case Split sep cs of [] \<Rightarrow> [[c]] | p # ps \<Rightarrow> (c # p) # ps))"

section \<open>Decimal strings\<close>

abbreviation digits :: "string \<Rightarrow> bool" where
  "digits s \<equiv> \<forall>c \<in> set s. \<exists>d. digit_val c = Some d"

definition decval :: "string \<Rightarrow> nat" where
  "decval s = foldl (\<lambda>n c. n * 10 + the (digit_val c)) 0 s"

lemma digit_val_digit_char [simp]: "d < 10 \<Longrightarrow> digit_val (digit_char d) = Some d"
  by (simp add: digit_val_def digit_char_def Let_def of_char_of)

lemma digit_val_less: "digit_val c = Some d \<Longrightarrow> d < 10"
  by (auto simp: digit_val_def Let_def split: if_splits)

lemma digit_val_zero [simp]: "digit_val CHR ''0'' = Some 0"
  by (simp add: digit_val_def Let_def)

lemma digit_val_signs [simp]:
  "digit_val CHR ''-'' = None" "digit_val CHR ''+'' = None" "digit_val CHR ''.'' = None"
  by (simp_all add: digit_val_def Let_def)

lemma foldl_decval:
  "foldl (\<lambda>n c. n * 10 + the (digit_val c)) k s = k * 10 ^ length s + decval s"
proof (induction s arbitrary: k)
  case (Cons c s)
  have "decval (c # s) = the (digit_val c) * 10 ^ length s + decval s"
    using Cons [of "the (digit_val c)"] by (simp add: decval_def)
  then show ?case using Cons [of "k * 10 + the (digit_val c)"] by (simp add: algebra_simps)
qed (simp add: decval_def)

lemma decval_Nil [simp]: "decval [] = 0"
  by (simp add: decval_def)

lemma decval_append: "decval (s @ t) = decval s * 10 ^ length t + decval t"
  using foldl_decval [of "decval s" t] by (simp add: decval_def)

lemma decval_Cons: "decval (c # s) = the (digit_val c) * 10 ^ length s + decval s"
  using decval_append [of "[c]" s] by (simp add: decval_def)

lemma decval_zeros [simp]: "decval (replicate k CHR ''0'') = 0"
  by (induction k) (simp_all add: decval_Cons)

lemma decval_less: "digits s \<Longrightarrow> decval s < 10 ^ length s"
proof (induction s)
  case (Cons c s)
  then obtain d where d: "digit_val c = Some d" "d < 10" by (auto dest: digit_val_less)
  have "d * 10 ^ length s \<le> 9 * 10 ^ length s" using d(2) by (intro mult_right_mono) auto
  moreover have "decval s < 10 ^ length s" using Cons by simp
  ultimately have "d * 10 ^ length s + decval s < 10 * 10 ^ length s" by linarith
  then show ?case using d(1) by (simp add: decval_Cons)
qed simp

lemma digits_dec: "digits (dec n)"
proof (induction n rule: dec.induct)
  case (1 n)
  then show ?case by (subst dec.simps) auto
qed

lemma decval_dec [simp]: "decval (dec n) = n"
proof (induction n rule: dec.induct)
  case (1 n)
  then show ?case by (subst dec.simps) (simp add: decval_append decval_Cons)
qed

lemma dec_not_Nil [simp]: "dec n \<noteq> []"
  by (subst dec.simps) simp

lemma length_dec_le: "n < 10 ^ w \<Longrightarrow> 0 < w \<Longrightarrow> length (dec n) \<le> w"
proof (induction n arbitrary: w rule: dec.induct)
  case (1 n)
  show ?case
  proof (cases "n < 10")
    case True
    then show ?thesis using 1(3) by (subst dec.simps) simp
  next
    case False
    then obtain v where w: "w = Suc v" "0 < v" using 1(2,3) by (cases w; cases "w - 1") auto
    have "n div 10 < 10 ^ v" using 1(2) w(1) by (simp add: less_mult_imp_div_less mult.commute)
    then show ?thesis using 1(1) [OF False, of v] w False by (subst dec.simps) simp
  qed
qed

lemma pad0_dec:
  assumes "n < 10 ^ w" "0 < w"
  shows "length (pad0 w (dec n)) = w" "digits (pad0 w (dec n))" "decval (pad0 w (dec n)) = n"
proof -
  show "length (pad0 w (dec n)) = w" "decval (pad0 w (dec n)) = n"
    using length_dec_le [OF assms] by (simp_all add: pad0_def decval_append)
  show "digits (pad0 w (dec n))" using digits_dec [of n] by (auto simp: pad0_def)
qed

section \<open>Parsing decimal strings\<close>

lemma parse_uint_loop_digits:
  "digits s \<Longrightarrow> n * 10 ^ length s + decval s \<le> MaxUint64 \<Longrightarrow>
    parse_uint_loop s n = (n * 10 ^ length s + decval s, None)"
proof (induction s arbitrary: n)
  case (Cons c s)
  then obtain d where d: "digit_val c = Some d" by auto
  have e: "n * 10 ^ length (c # s) + decval (c # s) = (n * 10 + d) * 10 ^ length s + decval s"
    by (simp add: decval_Cons d algebra_simps)
  have "n * 10 + d \<le> (n * 10 + d) * 10 ^ length s" by simp
  then have "n * 10 + d \<le> MaxUint64" using Cons.prems(2) e by linarith
  then show ?case using Cons d e by simp
qed simp

lemma ParseUint_digits:
  "digits s \<Longrightarrow> s \<noteq> [] \<Longrightarrow> decval s \<le> MaxUint64 \<Longrightarrow> ParseUint s = (decval s, None)"
  by (simp add: ParseUint_def parse_uint_loop_digits)

lemma digits_hd: "digits s \<Longrightarrow> s \<noteq> [] \<Longrightarrow> hd s \<noteq> CHR ''-'' \<and> hd s \<noteq> CHR ''+''"
  by (cases s) auto

lemma ParseInt_digits:
  assumes "digits s" "s \<noteq> []" "decval s \<le> 9223372036854775807"
  shows "ParseInt s = (of_nat (decval s), None)"
  using assms digits_hd [OF assms(1,2)] ParseUint_digits [OF assms(1,2)]
  by (simp add: ParseInt_def Let_def MaxUint64_def)

lemma ParseInt_neg_digits:
  assumes "digits s" "s \<noteq> []" "decval s \<le> 9223372036854775808"
  shows "ParseInt (CHR ''-'' # s) = (- of_nat (decval s), None)"
  using assms ParseUint_digits [OF assms(1,2)]
  by (simp add: ParseInt_def Let_def MaxUint64_def)

lemma ParseInt_fmt_d: "ParseInt (fmt_d (sint x)) = (x, None)"
proof (cases "sint x < 0")
  case True
  have "nat (- sint x) \<le> 9223372036854775808"
    using in_i64_sint [of x] by (auto simp: in_i64_def simp del: in_i64_sint)
  moreover have "- of_nat (nat (- sint x)) = x" using True by (simp add: of_nat_nat)
  ultimately show ?thesis using True by (simp add: fmt_d_def ParseInt_neg_digits digits_dec)
next
  case False
  have "nat (sint x) \<le> 9223372036854775807"
    using in_i64_sint [of x] by (auto simp: in_i64_def simp del: in_i64_sint)
  moreover have "of_nat (nat (sint x)) = x" using False by (simp add: of_nat_nat)
  ultimately show ?thesis using False by (simp add: fmt_d_def ParseInt_digits digits_dec)
qed

lemma ParseUint_dec: "ParseUint (dec (unat (x :: u64))) = (unat x, None)"
proof -
  have "unat x \<le> MaxUint64" using unsigned_less [of x, where 'a = nat] by (simp add: MaxUint64_def)
  then show ?thesis by (simp add: ParseUint_digits digits_dec)
qed

section \<open>Splitting decimal strings\<close>

lemma SplitN2_at: "sep \<notin> set a \<Longrightarrow> SplitN2 sep (a @ sep # b) = [a, b]"
  by (auto simp: SplitN2_def takeWhile_append2 dropWhile_append2 cong: takeWhile_cong)
    (induction a; auto)+

lemma SplitN2_none: "sep \<notin> set a \<Longrightarrow> SplitN2 sep a = [a]"
  by (simp add: SplitN2_def)

lemma Split_none [simp]: "sep \<notin> set a \<Longrightarrow> Split sep a = [a]"
  by (induction a) auto

lemma Split_at: "sep \<notin> set a \<Longrightarrow> Split sep (a @ sep # b) = a # Split sep b"
  by (induction a) auto

lemma digits_no_dot: "digits s \<Longrightarrow> CHR ''.'' \<notin> set s"
  by auto

lemma digits_take: "digits s \<Longrightarrow> digits (take n s)"
  by (auto dest: in_set_takeD)

end
