(* ===== verification/Json.thy ===== *)
theory Json
  imports Strconv
begin

text \<open>
  What the program uses of \<open>encoding/json\<close>, on the level of JSON values. A value keeps its
  number literals as text, as \<open>Unmarshal\<close> sees them, and its members in order with
  repetitions. \<open>Marshal\<close> writes a string byte by byte and replaces what is not valid UTF-8 by
  U+FFFD (\<open>coerce_utf8\<close>); escaping is undone by the reader and not part of the value.
  \<open>Unmarshal\<close> into a struct walks the members in order, looks a key up exactly and then up to
  case folding, ignores unknown keys and \<open>null\<close>, keeps going after a type mismatch and
  reports it at the end.
\<close>

datatype json =
    JNull
  | JBool bool
  | JNum string
  | JStr string
  | JArr "json list"
  | JObj "(string \<times> json) list"

section \<open>UTF-8\<close>

definition byte_in :: "nat \<Rightarrow> nat \<Rightarrow> char \<Rightarrow> bool" where
  "byte_in lo hi c \<longleftrightarrow> lo \<le> (of_char c :: nat) \<and> of_char c \<le> hi"

text \<open>The size of the valid UTF-8 sequence at the front of a string, 0 if there is none.\<close>

fun rune_size :: "string \<Rightarrow> nat" where
  "rune_size [] = 0"
| "rune_size (a # s) =
     (if byte_in 0 127 a then 1
      else case s of
        [] \<Rightarrow> 0
      | b # t \<Rightarrow>
          if byte_in 194 223 a then (if byte_in 128 191 b then 2 else 0)
          else case t of
            [] \<Rightarrow> 0
          | c # u \<Rightarrow>
              if byte_in 224 239 a
              then (if byte_in (if of_char a = (224 :: nat) then 160 else 128)
                               (if of_char a = (237 :: nat) then 159 else 191) b
                        \<and> byte_in 128 191 c then 3 else 0)
              else case u of
                [] \<Rightarrow> 0
              | d # _ \<Rightarrow>
                  if byte_in 240 244 a
                     \<and> byte_in (if of_char a = (240 :: nat) then 144 else 128)
                               (if of_char a = (244 :: nat) then 143 else 191) b
                     \<and> byte_in 128 191 c \<and> byte_in 128 191 d
                  then 4 else 0)"

definition replacement :: string where
  "replacement = map char_of [239 :: nat, 191, 189]"

function coerce_utf8 :: "string \<Rightarrow> string" where
  "coerce_utf8 [] = []"
| "coerce_utf8 (c # s) =
     (if rune_size (c # s) = 0 then replacement @ coerce_utf8 s
      else take (rune_size (c # s)) (c # s) @ coerce_utf8 (drop (rune_size (c # s)) (c # s)))"
  by pat_completeness auto
termination
  by (relation "measure length") (auto simp del: rune_size.simps)

abbreviation well_encoded :: "string \<Rightarrow> bool" where
  "well_encoded s \<equiv> coerce_utf8 s = s"

lemma ascii_well_encoded: "\<forall>c \<in> set s. byte_in 0 127 c \<Longrightarrow> well_encoded s"
  by (induction s) auto

section \<open>Struct fields\<close>

text \<open>Case folding of a key: ASCII letters, and the two letters outside ASCII that fold to one
  (U+017F to s, U+212A to k).\<close>

definition fold_byte :: "char \<Rightarrow> char" where
  "fold_byte c = (if byte_in 65 90 c then char_of (of_char c + 32 :: nat) else c)"

fun fold_name :: "string \<Rightarrow> string" where
  "fold_name [] = []"
| "fold_name (a # s) =
     (if take 2 (a # s) = map char_of [197 :: nat, 191] then CHR ''s'' # fold_name (drop 1 s)
      else if take 3 (a # s) = map char_of [226 :: nat, 132, 170] then CHR ''k'' # fold_name (drop 2 s)
      else fold_byte a # fold_name s)"

text \<open>A struct is described by its fields: a JSON name and the setter that decodes a value into
  the struct, \<open>None\<close> for a type mismatch.\<close>

type_synonym 'r field = "string \<times> (json \<Rightarrow> 'r \<Rightarrow> 'r option)"

definition find_field :: "'r field list \<Rightarrow> string \<Rightarrow> 'r field option" where
  "find_field fs key =
     (case find (\<lambda>f. fst f = key) fs of
        Some f \<Rightarrow> Some f
      | None \<Rightarrow> find (\<lambda>f. fold_name (fst f) = fold_name key) fs)"

text \<open>The members are decoded in order; the flag says whether every value so far fitted.\<close>

fun decode_members :: "'r field list \<Rightarrow> (string \<times> json) list \<Rightarrow> 'r \<Rightarrow> bool \<Rightarrow> 'r \<times> bool" where
  "decode_members fs [] r ok = (r, ok)"
| "decode_members fs ((key, v) # ms) r ok =
     (case find_field fs key of
        None \<Rightarrow> decode_members fs ms r ok
      | Some (_, decode) \<Rightarrow>
          (case decode v r of
             Some r' \<Rightarrow> decode_members fs ms r' ok
           | None \<Rightarrow> decode_members fs ms r False))"

definition Unmarshal :: "'r field list \<Rightarrow> json \<Rightarrow> 'r \<Rightarrow> 'r option" where
  "Unmarshal fs v r =
     (case v of
        JNull \<Rightarrow> Some r
      | JObj ms \<Rightarrow> (case decode_members fs ms r True of (r', ok) \<Rightarrow> if ok then Some r' else None)
      | _ \<Rightarrow> None)"

definition set_int64 :: "(i64 \<Rightarrow> 'r \<Rightarrow> 'r) \<Rightarrow> json \<Rightarrow> 'r \<Rightarrow> 'r option" where
  "set_int64 upd v r =
     (case v of
        JNull \<Rightarrow> Some r
      | JNum lit \<Rightarrow> (case ParseInt lit of (x, None) \<Rightarrow> Some (upd x r) | (_, Some _) \<Rightarrow> None)
      | _ \<Rightarrow> None)"

definition set_uint64 :: "(u64 \<Rightarrow> 'r \<Rightarrow> 'r) \<Rightarrow> json \<Rightarrow> 'r \<Rightarrow> 'r option" where
  "set_uint64 upd v r =
     (case v of
        JNull \<Rightarrow> Some r
      | JNum lit \<Rightarrow> (case ParseUint lit of (x, None) \<Rightarrow> Some (upd (of_nat x) r) | (_, Some _) \<Rightarrow> None)
      | _ \<Rightarrow> None)"

definition set_string :: "(string \<Rightarrow> 'r \<Rightarrow> 'r) \<Rightarrow> json \<Rightarrow> 'r \<Rightarrow> 'r option" where
  "set_string upd v r =
     (case v of
        JNull \<Rightarrow> Some r
      | JStr s \<Rightarrow> Some (upd s r)
      | _ \<Rightarrow> None)"

definition json_int64 :: "i64 \<Rightarrow> json" where
  "json_int64 x = JNum (fmt_d (sint x))"

definition json_uint64 :: "u64 \<Rightarrow> json" where
  "json_uint64 x = JNum (dec (unat x))"

definition json_string :: "string \<Rightarrow> json" where
  "json_string s = JStr (coerce_utf8 s)"

lemma set_int64_json [simp]: "set_int64 upd (json_int64 x) r = Some (upd x r)"
  by (simp add: set_int64_def json_int64_def ParseInt_fmt_d)

lemma set_uint64_json [simp]: "set_uint64 upd (json_uint64 x) r = Some (upd x r)"
  by (simp add: set_uint64_def json_uint64_def ParseUint_dec)

lemma set_string_json [simp]: "set_string upd (json_string s) r = Some (upd (coerce_utf8 s) r)"
  by (simp add: set_string_def json_string_def)

end
