(* ===== verification/Safe_Math.thy ===== *)
theory Safe_Math
  imports Prelude
begin

text \<open>
  The checked arithmetic of \<open>pkg/safe/safe_math.go\<close>. Each operation is translated with
  its own guard, computed on 64-bit words exactly as the Go code computes it; the locale
  \<open>checked_op\<close> is the contract the rest of the program relies on (the exact result when
  it fits in an \<open>int64\<close>, a panic otherwise) and is interpreted on the four operations.
\<close>

section \<open>The operations\<close>

definition SafeAdd :: "i64 \<Rightarrow> i64 \<Rightarrow> panic + i64" where
  "SafeAdd a b =
     (if (0 <s b \<and> MaxInt64 - b <s a) \<or> (b <s 0 \<and> a <s MinInt64 - b)
      then Inl CORE_SAFE_ADD_OVERFLOW
      else Inr (a + b))"

definition SafeSub :: "i64 \<Rightarrow> i64 \<Rightarrow> panic + i64" where
  "SafeSub a b =
     (if (0 <s b \<and> a <s MinInt64 + b) \<or> (b <s 0 \<and> MaxInt64 + b <s a)
      then Inl CORE_SAFE_SUB_OVERFLOW
      else Inr (a - b))"

definition SafeMul :: "i64 \<Rightarrow> i64 \<Rightarrow> panic + i64" where
  "SafeMul a b =
     (if a = 0 \<or> b = 0 then Inr 0
      else if 0 <s a then
        (if 0 <s b then
           (if go_div MaxInt64 b <s a then Inl CORE_SAFE_MUL_OVERFLOW else Inr (a * b))
         else
           (if b <s go_div MinInt64 a then Inl CORE_SAFE_MUL_OVERFLOW else Inr (a * b)))
      else
        (if 0 <s b then
           (if a <s go_div MinInt64 b then Inl CORE_SAFE_MUL_OVERFLOW else Inr (a * b))
         else
           (if a <s go_div MaxInt64 b then Inl CORE_SAFE_MUL_OVERFLOW else Inr (a * b))))"

definition SafeDiv :: "i64 \<Rightarrow> i64 \<Rightarrow> panic + i64" where
  "SafeDiv a b =
     (if b = 0 then Inl CORE_SAFE_DIV_BY_ZERO
      else if a = MinInt64 \<and> b = - 1 then Inl CORE_SAFE_DIV_OVERFLOW
      else Inr (go_div a b))"

section \<open>Each operation is exact or panics\<close>

lemma le_div_iff_mult_le_int:
  assumes k: "0 < (k::int)"
  shows "x \<le> y div k \<longleftrightarrow> x * k \<le> y"
proof
  assume "x \<le> y div k"
  then have "x * k \<le> y div k * k" using k by (simp add: mult_right_mono)
  also have "\<dots> \<le> y" using k pos_mod_sign [of k y] div_mult_mod_eq [of y k] by linarith
  finally show "x * k \<le> y" .
next
  assume "x * k \<le> y"
  then have "x * k div k \<le> y div k" using k by (rule zdiv_mono1)
  with k show "x \<le> y div k" by simp
qed

lemma sint_go_div:
  assumes "\<not> (a = MinInt64 \<and> b = - 1)"
  shows "sint (go_div a b) = sint a sdiv sint b"
proof -
  have "in_i64 (sint a sdiv sint b)"
  proof (cases "a = MinInt64")
    case True
    then have "sint b \<noteq> - 1" using assms by (simp add: i64_eq_iff [of b])
    then have "sint b = 0 \<or> sint b = 1 \<or> 2 \<le> \<bar>sint b\<bar>" by linarith
    moreover have "9223372036854775808 div \<bar>sint b\<bar> \<le> 9223372036854775808 div 2" if "2 \<le> \<bar>sint b\<bar>"
      using that by (intro zdiv_mono2) auto
    moreover have "0 \<le> 9223372036854775808 div \<bar>sint b\<bar>"
      by (simp add: div_int_pos_iff)
    ultimately show ?thesis
      using True by (auto simp: in_i64_def signed_divide_int_def sgn_if)
  next
    case False
    then have "sint a \<noteq> - 9223372036854775808" by (simp add: i64_eq_iff)
    moreover have "\<bar>sint a sdiv sint b\<bar> \<le> \<bar>sint a\<bar>"
      using sdiv_int_range [of "sint a" "sint b"] by (simp add: abs_le_iff)
    ultimately show ?thesis using in_i64_abs_le by blast
  qed
  then show ?thesis by (simp add: go_div_def sint_of_int_i64)
qed

lemma SafeAdd_exact:
  "SafeAdd a b =
     (if in_i64 (sint a + sint b) then Inr (word_of_int (sint a + sint b))
      else Inl CORE_SAFE_ADD_OVERFLOW)"
proof -
  have ra: "in_i64 (sint a)" "in_i64 (sint b)" by auto
  have up: "0 < sint b \<Longrightarrow> sint (MaxInt64 - b) = 9223372036854775807 - sint b"
    using ra by (subst sint_diff_i64) (auto simp: in_i64_def)
  have lo: "sint b < 0 \<Longrightarrow> sint (MinInt64 - b) = - 9223372036854775808 - sint b"
    using ra by (subst sint_diff_i64) (auto simp: in_i64_def)
  have "(0 <s b \<and> MaxInt64 - b <s a) \<or> (b <s 0 \<and> a <s MinInt64 - b)
    \<longleftrightarrow> \<not> in_i64 (sint a + sint b)"
    using ra up lo by (auto simp: word_sless_alt in_i64_def)
  then show ?thesis by (simp add: SafeAdd_def)
qed

lemma SafeSub_exact:
  "SafeSub a b =
     (if in_i64 (sint a - sint b) then Inr (word_of_int (sint a - sint b))
      else Inl CORE_SAFE_SUB_OVERFLOW)"
proof -
  have ra: "in_i64 (sint a)" "in_i64 (sint b)" by auto
  have lo: "0 < sint b \<Longrightarrow> sint (MinInt64 + b) = - 9223372036854775808 + sint b"
    using ra by (subst sint_add_i64) (auto simp: in_i64_def)
  have up: "sint b < 0 \<Longrightarrow> sint (MaxInt64 + b) = 9223372036854775807 + sint b"
    using ra by (subst sint_add_i64) (auto simp: in_i64_def)
  have "(0 <s b \<and> a <s MinInt64 + b) \<or> (b <s 0 \<and> MaxInt64 + b <s a)
    \<longleftrightarrow> \<not> in_i64 (sint a - sint b)"
    using ra up lo by (auto simp: word_sless_alt in_i64_def)
  then show ?thesis by (simp add: SafeSub_def)
qed

lemma mul_guards:
  fixes x y :: int
  shows "0 < y \<Longrightarrow> 9223372036854775807 sdiv y < x \<longleftrightarrow> 9223372036854775807 < x * y"
    and "0 < y \<Longrightarrow> x < - (9223372036854775808 sdiv y) \<longleftrightarrow> x * y < - 9223372036854775808"
    and "y < 0 \<Longrightarrow> x < 9223372036854775807 sdiv y \<longleftrightarrow> 9223372036854775807 < x * y"
  using le_div_iff_mult_le_int [of y x 9223372036854775807]
    le_div_iff_mult_le_int [of y "- x" 9223372036854775808]
    le_div_iff_mult_le_int [of "- y" "- x" 9223372036854775807]
  by (auto simp: signed_divide_int_def)

lemma SafeMul_exact:
  "SafeMul a b =
     (if in_i64 (sint a * sint b) then Inr (word_of_int (sint a * sint b))
      else Inl CORE_SAFE_MUL_OVERFLOW)"
proof -
  have z: "sint c = 0 \<longleftrightarrow> c = 0" for c :: i64
    by (simp add: i64_eq_iff)
  have dmax: "sint (go_div MaxInt64 c) = 9223372036854775807 sdiv sint c" for c
    by (subst sint_go_div) (auto simp: i64_eq_iff)
  have dmin: "0 < sint c \<Longrightarrow> sint (go_div MinInt64 c) = - 9223372036854775808 sdiv sint c" for c
    by (subst sint_go_div) (auto simp: i64_eq_iff)
  consider "a = 0 \<or> b = 0" | "0 < sint a" "0 < sint b" | "0 < sint a" "sint b < 0"
    | "sint a < 0" "0 < sint b" | "sint a < 0" "sint b < 0"
    using z [of a] z [of b] by linarith
  then show ?thesis
  proof cases
    case 1
    then show ?thesis by (auto simp: SafeMul_def in_i64_def)
  next
    case 2
    moreover from 2 have "- 9223372036854775808 \<le> sint a * sint b"
      by (intro order_trans [OF _ mult_nonneg_nonneg]) simp_all
    ultimately show ?thesis
      by (simp add: SafeMul_def word_sless_alt dmax mul_guards in_i64_def z [symmetric])
  next
    case 3
    moreover from 3 have "sint a * sint b < 0" by (simp add: mult_pos_neg)
    ultimately show ?thesis
      by (simp add: SafeMul_def word_sless_alt dmin mul_guards in_i64_def z [symmetric] mult.commute [of "sint a"])
  next
    case 4
    moreover from 4 have "sint a * sint b < 0" by (simp add: mult_neg_pos)
    ultimately show ?thesis
      by (simp add: SafeMul_def word_sless_alt dmin mul_guards in_i64_def z [symmetric])
  next
    case 5
    moreover from 5 have "0 < sint a * sint b" by (simp add: mult_neg_neg)
    ultimately show ?thesis
      by (simp add: SafeMul_def word_sless_alt dmax mul_guards in_i64_def z [symmetric])
  qed
qed

lemma SafeDiv_exact:
  "SafeDiv a b =
     (if b = 0 then Inl CORE_SAFE_DIV_BY_ZERO
      else if in_i64 (sint a sdiv sint b) then Inr (word_of_int (sint a sdiv sint b))
      else Inl CORE_SAFE_DIV_OVERFLOW)"
proof (cases "a = MinInt64 \<and> b = - 1")
  case True
  then show ?thesis by (auto simp: SafeDiv_def in_i64_def)
next
  case False
  then have "in_i64 (sint a sdiv sint b)"
    using sint_go_div [of a b] by (metis in_i64_sint)
  with False show ?thesis by (auto simp: SafeDiv_def go_div_def)
qed

section \<open>The contract of checked arithmetic\<close>

text \<open>
  What a caller relies on: an exact integer operation, a domain on which it is defined,
  and that the checked operation returns its result exactly when it is defined and fits.
\<close>

locale checked_op =
  fixes op :: "i64 \<Rightarrow> i64 \<Rightarrow> panic + i64"
    and exact :: "int \<Rightarrow> int \<Rightarrow> int"
    and defined :: "int \<Rightarrow> int \<Rightarrow> bool"
  assumes op_fits: "defined (sint a) (sint b) \<Longrightarrow> in_i64 (exact (sint a) (sint b)) \<Longrightarrow>
      op a b = Inr (word_of_int (exact (sint a) (sint b)))"
    and op_fails: "\<not> (defined (sint a) (sint b) \<and> in_i64 (exact (sint a) (sint b))) \<Longrightarrow>
      \<exists>p. op a b = Inl p"
begin

lemma returns_iff:
  "op a b = Inr c \<longleftrightarrow> defined (sint a) (sint b) \<and> sint c = exact (sint a) (sint b)"
proof (cases "defined (sint a) (sint b) \<and> in_i64 (exact (sint a) (sint b))")
  case True
  then show ?thesis
    using op_fits [of a b] word_of_int_eq_iff_sint [of "exact (sint a) (sint b)" c] by auto
next
  case False
  then show ?thesis
    using op_fails [of a b] in_i64_sint [of c] by (auto simp del: in_i64_sint)
qed

lemma returns_ex:
  "(\<exists>c. op a b = Inr c) \<longleftrightarrow> defined (sint a) (sint b) \<and> in_i64 (exact (sint a) (sint b))"
  using op_fits [of a b] op_fails [of a b] by fastforce

lemma panics_iff:
  "(\<exists>p. op a b = Inl p) \<longleftrightarrow> \<not> (defined (sint a) (sint b) \<and> in_i64 (exact (sint a) (sint b)))"
  using op_fits [of a b] op_fails [of a b] by fastforce

end

interpretation add: checked_op SafeAdd "(+)" "\<lambda>_ _. True"
  by unfold_locales (auto simp: SafeAdd_exact)

interpretation sub: checked_op SafeSub "(-)" "\<lambda>_ _. True"
  by unfold_locales (auto simp: SafeSub_exact)

interpretation mul: checked_op SafeMul "(*)" "\<lambda>_ _. True"
  by unfold_locales (auto simp: SafeMul_exact)

interpretation quot: checked_op SafeDiv "(sdiv)" "\<lambda>_ b. b \<noteq> 0"
  by unfold_locales (auto simp: SafeDiv_exact i64_eq_iff)

lemmas safe_returns = add.returns_iff sub.returns_iff mul.returns_iff quot.returns_iff

lemmas safe_eval = SafeAdd_exact SafeSub_exact SafeMul_exact SafeDiv_exact in_i64_def
  signed_divide_int_def signed_modulo_int_def

lemma SafeDiv_pos: "0 < sint b \<Longrightarrow> SafeDiv a b = Inr (go_div a b)"
  by (auto simp: SafeDiv_def i64_eq_iff)

section \<open>Properties\<close>

text \<open>C16. The checked operations are exact: each returns \<open>c\<close> exactly when \<open>c\<close>, read as a
  signed integer, is the mathematical sum, difference, product or (for a non-zero divisor)
  truncated quotient of its arguments. No wrapped result is ever returned.\<close>

theorem safe_arith_exact:
  "(SafeAdd a b = Inr c \<longleftrightarrow> sint c = sint a + sint b) \<and>
   (SafeSub a b = Inr c \<longleftrightarrow> sint c = sint a - sint b) \<and>
   (SafeMul a b = Inr c \<longleftrightarrow> sint c = sint a * sint b) \<and>
   (SafeDiv a b = Inr c \<longleftrightarrow> b \<noteq> 0 \<and> sint c = sint a sdiv sint b)"
  by (simp add: safe_returns i64_eq_iff [of b])

text \<open>The checked operations panic with their own code and only when they must: on a
  result outside \<open>int64\<close>, and for the quotient on a zero divisor; the quotient overflows only
  for the smallest \<open>int64\<close> over minus one.\<close>

lemma safe_arith_panics:
  "(SafeAdd a b = Inl e \<longleftrightarrow> e = CORE_SAFE_ADD_OVERFLOW \<and> \<not> in_i64 (sint a + sint b)) \<and>
   (SafeSub a b = Inl e \<longleftrightarrow> e = CORE_SAFE_SUB_OVERFLOW \<and> \<not> in_i64 (sint a - sint b)) \<and>
   (SafeMul a b = Inl e \<longleftrightarrow> e = CORE_SAFE_MUL_OVERFLOW \<and> \<not> in_i64 (sint a * sint b)) \<and>
   (SafeDiv a b = Inl e \<longleftrightarrow>
      e = (if b = 0 then CORE_SAFE_DIV_BY_ZERO else CORE_SAFE_DIV_OVERFLOW) \<and>
      (b = 0 \<or> a = MinInt64 \<and> b = - 1))"
  by (auto simp: SafeAdd_exact SafeSub_exact SafeMul_exact SafeDiv_def)

end
