(* ===== verification/Domain.thy ===== *)
theory Domain
  imports Safe_Math
begin

text \<open>
  The entities of \<open>internal/domain\<close> other than the balances: orders (\<open>order.go\<close>),
  market states (\<open>market.go\<close>), positions (\<open>position.go\<close>), price alerts
  (\<open>alert.go\<close>), tickers and aggregated market data (\<open>ticker.go\<close>), and the error
  classification (\<open>errors.go\<close>). A nil pointer is \<open>None\<close>.
\<close>

section \<open>Orders, market states, positions\<close>

record order =
  ord_ID :: string
  ord_Symbol :: string
  ord_Side :: string
  ord_Type :: string
  ord_PriceMicros :: i64
  ord_QtySats :: i64
  ord_Status :: string
  ord_CreatedUnixM :: i64

definition SideBuy :: string where "SideBuy = ''BUY''"
definition SideSell :: string where "SideSell = ''SELL''"
definition OrderTypeLimit :: string where "OrderTypeLimit = ''LIMIT''"
definition OrderTypeMarket :: string where "OrderTypeMarket = ''MARKET''"
definition OrderStatusNew :: string where "OrderStatusNew = ''NEW''"
definition OrderStatusPartiallyFilled :: string where
  "OrderStatusPartiallyFilled = ''PARTIALLY_FILLED''"
definition OrderStatusFilled :: string where "OrderStatusFilled = ''FILLED''"
definition OrderStatusCanceled :: string where "OrderStatusCanceled = ''CANCELED''"

definition zero_order :: order where
  "zero_order =
     \<lparr>ord_ID = [], ord_Symbol = [], ord_Side = [], ord_Type = [], ord_PriceMicros = 0,
      ord_QtySats = 0, ord_Status = [], ord_CreatedUnixM = 0\<rparr>"

definition IsOpen :: "order \<Rightarrow> bool" where
  "IsOpen ord \<longleftrightarrow> ord_Status ord = ''NEW'' \<or> ord_Status ord = ''PARTIALLY_FILLED''"

record market_state =
  ms_PriceMicros :: i64
  ms_TotalQtySats :: i64
  ms_LastUpdateUnixM :: i64
  ms_Symbol :: string

record position =
  pos_Symbol :: string
  pos_QtySats :: i64
  pos_AvgEntryPriceMicros :: i64
  pos_RealizedPnLMicros :: i64

definition IsLong :: "position \<Rightarrow> bool" where
  "IsLong p \<longleftrightarrow> 0 <s pos_QtySats p"

definition IsShort :: "position \<Rightarrow> bool" where
  "IsShort p \<longleftrightarrow> pos_QtySats p <s 0"

section \<open>Alerts\<close>

record alert_config =
  al_Symbol :: string
  al_TargetPriceMicros :: i64
  al_Direction :: string
  al_Exchange :: string
  al_IsPersistent :: bool
  al_Active :: bool

definition NewAlertConfig :: "string \<Rightarrow> i64 \<Rightarrow> i64 \<Rightarrow> string \<Rightarrow> bool \<Rightarrow> alert_config" where
  "NewAlertConfig symbol targetPriceMicros currentPriceMicros exchange isPersistent =
     \<lparr>al_Symbol = symbol,
      al_TargetPriceMicros = targetPriceMicros,
      al_Direction = (if targetPriceMicros <s currentPriceMicros then ''DOWN'' else ''UP''),
      al_Exchange = exchange,
      al_IsPersistent = isPersistent,
      al_Active = True\<rparr>"

definition IsActive :: "alert_config \<Rightarrow> bool" where
  "IsActive a = al_Active a"

definition SetActive :: "bool \<Rightarrow> alert_config \<Rightarrow> alert_config" where
  "SetActive active a = a\<lparr>al_Active := active\<rparr>"

definition CheckCondition :: "i64 \<Rightarrow> alert_config \<Rightarrow> bool" where
  "CheckCondition currentPriceMicros a =
     (if \<not> al_Active a then False
      else if al_Direction a = ''UP'' then al_TargetPriceMicros a <=s currentPriceMicros
      else if al_Direction a = ''DOWN'' then currentPriceMicros <=s al_TargetPriceMicros a
      else False)"

section \<open>Tickers and market data\<close>

record ticker =
  tk_Symbol :: string
  tk_PriceMicros :: i64
  tk_VolumeSats :: i64
  tk_ChangeRateMicros :: i64
  tk_Exchange :: string
  tk_Precision :: int
  tk_FundingRateMicros :: i64
  tk_NextFundingUnix :: "i64 option"
  tk_HighPriceMicros :: i64
  tk_LowPriceMicros :: i64

record market_data =
  md_Symbol :: string
  md_Upbit :: "ticker option"
  md_BitgetS :: "ticker option"
  md_BitgetF :: "ticker option"
  md_PremiumMicros :: i64
  md_StatusMsg :: string
  md_IsFavorite :: bool

definition GapPct :: "market_data \<Rightarrow> panic + i64" where
  "GapPct m =
     (case (md_BitgetS m, md_BitgetF m) of
        (Some s, Some f) \<Rightarrow>
          if tk_PriceMicros s = 0 then Inr 0
          else bind_panic (SafeSub (tk_PriceMicros f) (tk_PriceMicros s)) (\<lambda>diff.
               bind_panic (SafeMul diff 1000000) (\<lambda>num.
               SafeDiv num (tk_PriceMicros s)))
      | _ \<Rightarrow> Inr 0)"

definition ChangeDirection :: "market_data \<Rightarrow> string" where
  "ChangeDirection m =
     (case md_Upbit m of
        None \<Rightarrow> ''neutral''
      | Some u \<Rightarrow>
          if 0 <s tk_ChangeRateMicros u then ''positive''
          else if tk_ChangeRateMicros u <s 0 then ''negative''
          else ''neutral'')"

section \<open>Errors\<close>

text \<open>
  The error values of the program: a plain error (\<open>errors.New\<close>), an error wrapped by
  \<open>fmt.Errorf\<close> with \<open>%w\<close>, and the two error types of \<open>errors.go\<close>, whose underlying
  error may be nil. \<open>errors.As\<close> walks the chain from the outside in and stops at the
  first error that has an \<open>IsRetriable\<close> method.
\<close>

datatype go_error =
    ErrorString string
  | WrapError string go_error
  | NetworkError string "go_error option" bool
  | ConfigError string "go_error option"

fun Unwrap :: "go_error \<Rightarrow> go_error option" where
  "Unwrap (ErrorString s) = None"
| "Unwrap (WrapError s e) = Some e"
| "Unwrap (NetworkError opn err r) = err"
| "Unwrap (ConfigError field err) = err"

fun IsRetriable_method :: "go_error \<Rightarrow> bool option" where
  "IsRetriable_method (NetworkError opn err r) = Some r"
| "IsRetriable_method (ConfigError field err) = Some False"
| "IsRetriable_method _ = None"

fun errors_As :: "go_error \<Rightarrow> bool option" where
  "errors_As (WrapError s e) = errors_As e"
| "errors_As e = IsRetriable_method e"

definition IsRetriable :: "go_error option \<Rightarrow> bool" where
  "IsRetriable err =
     (case err of
        None \<Rightarrow> False
      | Some e \<Rightarrow> (case errors_As e of Some r \<Rightarrow> r | None \<Rightarrow> False))"

definition NewNetworkError :: "string \<Rightarrow> go_error option \<Rightarrow> go_error" where
  "NewNetworkError opn err = NetworkError opn err True"

definition NewFatalNetworkError :: "string \<Rightarrow> go_error option \<Rightarrow> go_error" where
  "NewFatalNetworkError opn err = NetworkError opn err False"

fun Error_text :: "go_error \<Rightarrow> panic + string" where
  "Error_text (ErrorString s) = Inr s"
| "Error_text (WrapError s e) = bind_panic (Error_text e) (\<lambda>t. Inr (s @ t))"
| "Error_text (NetworkError opn None r) = Inl NIL_DEREFERENCE"
| "Error_text (NetworkError opn (Some e) r) =
     bind_panic (Error_text e) (\<lambda>t. Inr (opn @ '': '' @ t))"
| "Error_text (ConfigError field None) = Inl NIL_DEREFERENCE"
| "Error_text (ConfigError field (Some e)) =
     bind_panic (Error_text e) (\<lambda>t. Inr (''config error ['' @ field @ '']: '' @ t))"

definition ErrConnectionFailed :: go_error where
  "ErrConnectionFailed = ErrorString ''connection failed''"
definition ErrInvalidSymbol :: go_error where
  "ErrInvalidSymbol = ErrorString ''invalid symbol''"
definition ErrUpdateFailed :: go_error where
  "ErrUpdateFailed = ErrorString ''update failed''"
definition ErrConfigNotFound :: go_error where
  "ErrConfigNotFound = ErrorString ''configuration not found''"

section \<open>Properties\<close>

primrec wrap_all :: "string list \<Rightarrow> go_error \<Rightarrow> go_error" where
  "wrap_all [] e = e"
| "wrap_all (s # ss) e = WrapError s (wrap_all ss e)"

lemma errors_As_wrap_all [simp]: "errors_As (wrap_all ss e) = errors_As e"
  by (induction ss) auto

lemma errors_As_True:
  "errors_As e = Some True \<Longrightarrow> \<exists>ss opn err. e = wrap_all ss (NetworkError opn err True)"
proof (induction e)
  case (WrapError s e)
  then obtain ss opn err where "e = wrap_all ss (NetworkError opn err True)" by auto
  then have "WrapError s e = wrap_all (s # ss) (NetworkError opn err True)" by simp
  then show ?case by blast
next
  case (NetworkError opn err r)
  then have "NetworkError opn err r = wrap_all [] (NetworkError opn err True)" by simp
  then show ?case by blast
qed simp_all

text \<open>An error is retriable exactly when it is, under any number of \<open>fmt.Errorf\<close>
  wrappers, a network error marked retriable. In particular a configuration error around a
  retriable network error is not, and none of the sentinel errors is.\<close>

lemma retriable_iff:
  "IsRetriable (Some e) \<longleftrightarrow> (\<exists>ss opn err. e = wrap_all ss (NetworkError opn err True))"
  by (auto simp: IsRetriable_def dest: errors_As_True split: option.splits)

text \<open>When both Bitget tickers are present with a non-zero spot price, \<open>GapPct\<close>
  returns exactly when the price difference and its scaled value fit in an \<open>int64\<close>, and
  then returns the relative gap in millionths, truncated towards zero; otherwise it panics.\<close>

lemma gap_pct_exact:
  assumes "md_BitgetS m = Some s" "md_BitgetF m = Some f" "tk_PriceMicros s \<noteq> 0"
  shows "GapPct m = Inr g \<longleftrightarrow>
    in_i64 (sint (tk_PriceMicros f) - sint (tk_PriceMicros s)) \<and>
    in_i64 ((sint (tk_PriceMicros f) - sint (tk_PriceMicros s)) * 1000000) \<and>
    sint g = ((sint (tk_PriceMicros f) - sint (tk_PriceMicros s)) * 1000000)
      sdiv sint (tk_PriceMicros s)"
proof -
  have nz: "sint (tk_PriceMicros s) \<noteq> 0" using assms(3) by (simp add: i64_eq_iff)
  then show ?thesis
    using assms
    by (auto simp: GapPct_def safe_returns ex_sint_eq ex_sint sint_of_int_i64
        dest: sint_eq_in_i64 cong: conj_cong)
qed

definition example_ticker :: "i64 \<Rightarrow> ticker" where
  "example_ticker p =
     \<lparr>tk_Symbol = ''BTC'', tk_PriceMicros = p, tk_VolumeSats = 0, tk_ChangeRateMicros = 0,
      tk_Exchange = '''', tk_Precision = 0, tk_FundingRateMicros = 0, tk_NextFundingUnix = None,
      tk_HighPriceMicros = 0, tk_LowPriceMicros = 0\<rparr>"

lemma gap_pct_exact_witness:
  "GapPct \<lparr>md_Symbol = ''BTC'', md_Upbit = None, md_BitgetS = Some (example_ticker 50000000000),
     md_BitgetF = Some (example_ticker 49500000000), md_PremiumMicros = 0, md_StatusMsg = '''',
     md_IsFavorite = False\<rparr> = Inr (- 10000)"
  by (subst gap_pct_exact [of _ "example_ticker 50000000000" "example_ticker 49500000000"])
    (simp_all add: example_ticker_def safe_eval)

text \<open>An alert created for a target fires on a price exactly when the price has reached
  the target from the side the price was on at creation, and never while it is inactive.\<close>

lemma alert_fires_on_crossing:
  "(CheckCondition price (NewAlertConfig symbol target current exchange persistent) \<longleftrightarrow>
     (if sint target < sint current then sint price \<le> sint target
      else sint target \<le> sint price)) \<and>
   \<not> CheckCondition price (SetActive False a)"
  by (simp add: CheckCondition_def NewAlertConfig_def SetActive_def word_sless_alt word_sle_eq)

end
