(* ===== verification/Event.thy ===== *)
theory Event
  imports Json Domain
begin

text \<open>
  \<open>internal/event\<close>: the events (\<open>events.go\<close>), their JSON form, and the event pools
  (\<open>event_pool.go\<close>). The program only ever puts pointers to the two event structs behind the
  \<open>Event\<close> interface, so an event is one of two cases. Objects of a pool live at addresses of
  a heap, so that handing the same object out twice would be visible.
\<close>

section \<open>Events\<close>

type_synonym event_type = "16 word"

definition EvMarketUpdate :: event_type where "EvMarketUpdate = 1"
definition EvOrderUpdate :: event_type where "EvOrderUpdate = 2"
definition EvBalanceUpdate :: event_type where "EvBalanceUpdate = 3"
definition EvSystemHalt :: event_type where "EvSystemHalt = 4"

record market_update =
  mu_Seq :: u64
  mu_Ts :: i64
  mu_Symbol :: string
  mu_PriceMicros :: i64
  mu_QtySats :: i64
  mu_Exchange :: string

record order_update =
  ou_Seq :: u64
  ou_Ts :: i64
  ou_OrderID :: string
  ou_Status :: string
  ou_PriceMicros :: i64
  ou_AccumulatedQtySats :: i64

definition zero_market_update :: market_update where
  "zero_market_update =
     \<lparr>mu_Seq = 0, mu_Ts = 0, mu_Symbol = [], mu_PriceMicros = 0, mu_QtySats = 0, mu_Exchange = []\<rparr>"

definition zero_order_update :: order_update where
  "zero_order_update =
     \<lparr>ou_Seq = 0, ou_Ts = 0, ou_OrderID = [], ou_Status = [], ou_PriceMicros = 0,
      ou_AccumulatedQtySats = 0\<rparr>"

datatype event = MarketUpdate market_update | OrderUpdate order_update

primrec GetSeq :: "event \<Rightarrow> u64" where
  "GetSeq (MarketUpdate e) = mu_Seq e"
| "GetSeq (OrderUpdate e) = ou_Seq e"

primrec GetTs :: "event \<Rightarrow> i64" where
  "GetTs (MarketUpdate e) = mu_Ts e"
| "GetTs (OrderUpdate e) = ou_Ts e"

primrec GetType :: "event \<Rightarrow> event_type" where
  "GetType (MarketUpdate e) = EvMarketUpdate"
| "GetType (OrderUpdate e) = EvOrderUpdate"

section \<open>JSON form\<close>

primrec Marshal_event :: "event \<Rightarrow> json" where
  "Marshal_event (MarketUpdate e) =
     JObj [(''seq'', json_uint64 (mu_Seq e)), (''ts'', json_int64 (mu_Ts e)),
           (''symbol'', json_string (mu_Symbol e)), (''price'', json_int64 (mu_PriceMicros e)),
           (''qty'', json_int64 (mu_QtySats e)), (''exchange'', json_string (mu_Exchange e))]"
| "Marshal_event (OrderUpdate e) =
     JObj [(''seq'', json_uint64 (ou_Seq e)), (''ts'', json_int64 (ou_Ts e)),
           (''order_id'', json_string (ou_OrderID e)), (''status'', json_string (ou_Status e)),
           (''price'', json_int64 (ou_PriceMicros e)),
           (''qty'', json_int64 (ou_AccumulatedQtySats e))]"

definition market_update_fields :: "market_update field list" where
  "market_update_fields =
     [(''seq'', set_uint64 (\<lambda>x. mu_Seq_update (\<lambda>_. x))), (''ts'', set_int64 (\<lambda>x. mu_Ts_update (\<lambda>_. x))),
      (''symbol'', set_string (\<lambda>x. mu_Symbol_update (\<lambda>_. x))),
      (''price'', set_int64 (\<lambda>x. mu_PriceMicros_update (\<lambda>_. x))),
      (''qty'', set_int64 (\<lambda>x. mu_QtySats_update (\<lambda>_. x))),
      (''exchange'', set_string (\<lambda>x. mu_Exchange_update (\<lambda>_. x)))]"

definition order_update_fields :: "order_update field list" where
  "order_update_fields =
     [(''seq'', set_uint64 (\<lambda>x. ou_Seq_update (\<lambda>_. x))), (''ts'', set_int64 (\<lambda>x. ou_Ts_update (\<lambda>_. x))),
      (''order_id'', set_string (\<lambda>x. ou_OrderID_update (\<lambda>_. x))),
      (''status'', set_string (\<lambda>x. ou_Status_update (\<lambda>_. x))),
      (''price'', set_int64 (\<lambda>x. ou_PriceMicros_update (\<lambda>_. x))),
      (''qty'', set_int64 (\<lambda>x. ou_AccumulatedQtySats_update (\<lambda>_. x)))]"

primrec event_well_encoded :: "event \<Rightarrow> bool" where
  "event_well_encoded (MarketUpdate e) \<longleftrightarrow> well_encoded (mu_Symbol e) \<and> well_encoded (mu_Exchange e)"
| "event_well_encoded (OrderUpdate e) \<longleftrightarrow> well_encoded (ou_OrderID e) \<and> well_encoded (ou_Status e)"

lemma Unmarshal_market_update:
  "Unmarshal market_update_fields (Marshal_event (MarketUpdate e)) zero_market_update
     = Some (e\<lparr>mu_Symbol := coerce_utf8 (mu_Symbol e), mu_Exchange := coerce_utf8 (mu_Exchange e)\<rparr>)"
  by (simp add: Unmarshal_def market_update_fields_def zero_market_update_def find_field_def)

lemma Unmarshal_order_update:
  "Unmarshal order_update_fields (Marshal_event (OrderUpdate e)) zero_order_update
     = Some (e\<lparr>ou_OrderID := coerce_utf8 (ou_OrderID e), ou_Status := coerce_utf8 (ou_Status e)\<rparr>)"
  by (simp add: Unmarshal_def order_update_fields_def zero_order_update_def find_field_def)

section \<open>Event pools\<close>

text \<open>
  A \<open>sync.Pool\<close>: the heap objects it has created, the addresses it may hand out, and the next
  fresh address. Which pooled object \<open>Get\<close> returns, or whether it calls \<open>New\<close>, is the run
  time's choice (\<open>pick\<close>).
\<close>

record 'e pool =
  pool_heap :: "nat \<Rightarrow> 'e"
  pool_free :: "nat list"
  pool_next :: nat

definition pool_Get :: "'e \<Rightarrow> nat option \<Rightarrow> 'e pool \<Rightarrow> nat \<times> 'e pool" where
  "pool_Get zero pick p =
     (case pick of
        Some i \<Rightarrow>
          if i < length (pool_free p)
          then (pool_free p ! i, p\<lparr>pool_free := take i (pool_free p) @ drop (Suc i) (pool_free p)\<rparr>)
          else (pool_next p, p\<lparr>pool_heap := (pool_heap p)(pool_next p := zero), pool_next := pool_next p + 1\<rparr>)
      | None \<Rightarrow>
          (pool_next p, p\<lparr>pool_heap := (pool_heap p)(pool_next p := zero), pool_next := pool_next p + 1\<rparr>))"

definition pool_Put :: "nat \<Rightarrow> 'e pool \<Rightarrow> 'e pool" where
  "pool_Put a p = p\<lparr>pool_free := a # pool_free p\<rparr>"

definition reset_market_update :: "market_update \<Rightarrow> market_update" where
  "reset_market_update ev =
     ev\<lparr>mu_Seq := 0, mu_Ts := 0, mu_Symbol := [], mu_PriceMicros := 0, mu_QtySats := 0,
        mu_Exchange := []\<rparr>"

definition reset_order_update :: "order_update \<Rightarrow> order_update" where
  "reset_order_update ev =
     ev\<lparr>ou_Seq := 0, ou_Ts := 0, ou_OrderID := [], ou_Status := [], ou_PriceMicros := 0,
        ou_AccumulatedQtySats := 0\<rparr>"

definition pool_release :: "('e \<Rightarrow> 'e) \<Rightarrow> nat option \<Rightarrow> 'e pool \<Rightarrow> 'e pool" where
  "pool_release reset ev p =
     (case ev of
        None \<Rightarrow> p
      | Some a \<Rightarrow> pool_Put a (p\<lparr>pool_heap := (pool_heap p)(a := reset (pool_heap p a))\<rparr>))"

definition AcquireMarketUpdateEvent :: "nat option \<Rightarrow> market_update pool \<Rightarrow> nat \<times> market_update pool" where
  "AcquireMarketUpdateEvent pick p = pool_Get zero_market_update pick p"

definition ReleaseMarketUpdateEvent :: "nat option \<Rightarrow> market_update pool \<Rightarrow> market_update pool" where
  "ReleaseMarketUpdateEvent ev p = pool_release reset_market_update ev p"

definition AcquireOrderUpdateEvent :: "nat option \<Rightarrow> order_update pool \<Rightarrow> nat \<times> order_update pool" where
  "AcquireOrderUpdateEvent pick p = pool_Get zero_order_update pick p"

definition ReleaseOrderUpdateEvent :: "nat option \<Rightarrow> order_update pool \<Rightarrow> order_update pool" where
  "ReleaseOrderUpdateEvent ev p = pool_release reset_order_update ev p"

fun acquire_batch :: "(nat option \<Rightarrow> 'p \<Rightarrow> nat \<times> 'p) \<Rightarrow> nat option list \<Rightarrow> 'p \<Rightarrow> nat list \<times> 'p" where
  "acquire_batch acquire [] p = ([], p)"
| "acquire_batch acquire (pick # picks) p =
     (case acquire pick p of (a, p') \<Rightarrow>
        case acquire_batch acquire picks p' of (as, p'') \<Rightarrow> (a # as, p''))"

text \<open>\<open>Warmup\<close>: the lists of run-time choices have the length of the batch, 1000.\<close>

definition Warmup ::
  "nat option list \<Rightarrow> nat option list \<Rightarrow> market_update pool \<times> order_update pool \<Rightarrow>
     market_update pool \<times> order_update pool" where
  "Warmup mpicks opicks ps =
     (case ps of (mp, op) \<Rightarrow>
        (case acquire_batch AcquireMarketUpdateEvent mpicks mp of
           (mas, mp) \<Rightarrow> fold (\<lambda>a. ReleaseMarketUpdateEvent (Some a)) mas mp,
         case acquire_batch AcquireOrderUpdateEvent opicks op of
           (oas, op) \<Rightarrow> fold (\<lambda>a. ReleaseOrderUpdateEvent (Some a)) oas op))"

section \<open>Ownership of pooled objects\<close>

text \<open>
  A program that only writes to and only releases objects it has acquired and not yet released
  (the discipline of \<open>processEvent\<close> and of the workers), in any interleaving, while the
  garbage collector may empty the pool at any time.
\<close>

inductive pool_reachable :: "'e \<Rightarrow> ('e \<Rightarrow> 'e) \<Rightarrow> 'e pool \<Rightarrow> nat set \<Rightarrow> bool" for zero reset where
  start: "pool_reachable zero reset \<lparr>pool_heap = h, pool_free = [], pool_next = 0\<rparr> {}"
| acquire: "pool_reachable zero reset p owned \<Longrightarrow> pool_Get zero pick p = (a, p') \<Longrightarrow>
    pool_reachable zero reset p' (insert a owned)"
| written: "pool_reachable zero reset p owned \<Longrightarrow> a \<in> owned \<Longrightarrow>
    pool_reachable zero reset (p\<lparr>pool_heap := (pool_heap p)(a := e)\<rparr>) owned"
| release: "pool_reachable zero reset p owned \<Longrightarrow> a \<in> owned \<Longrightarrow>
    pool_reachable zero reset (pool_release reset (Some a) p) (owned - {a})"
| collect: "pool_reachable zero reset p owned \<Longrightarrow>
    pool_reachable zero reset (p\<lparr>pool_free := filter keep (pool_free p)\<rparr>) owned"

definition pool_inv :: "'e \<Rightarrow> 'e pool \<Rightarrow> nat set \<Rightarrow> bool" where
  "pool_inv zero p owned \<longleftrightarrow>
     distinct (pool_free p) \<and> set (pool_free p) \<inter> owned = {} \<and>
     (\<forall>a \<in> set (pool_free p). pool_heap p a = zero) \<and>
     set (pool_free p) \<union> owned \<subseteq> {..<pool_next p}"

lemma remove_nth:
  assumes "distinct xs" "i < length xs"
  shows "distinct (take i xs @ drop (Suc i) xs)" "set (take i xs @ drop (Suc i) xs) = set xs - {xs ! i}"
proof -
  have xs: "take i xs @ xs ! i # drop (Suc i) xs = xs" using assms(2) by (rule id_take_nth_drop [symmetric])
  then have "distinct (take i xs @ xs ! i # drop (Suc i) xs)" using assms(1) by simp
  then show "distinct (take i xs @ drop (Suc i) xs)"
    "set (take i xs @ drop (Suc i) xs) = set xs - {xs ! i}"
    using arg_cong [OF xs, of set] by auto
qed

lemma pool_Get_fresh:
  assumes "pool_inv zero p owned" "pool_Get zero pick p = (a, p')"
  shows "a \<notin> owned \<and> pool_heap p' a = zero \<and> (\<forall>b \<in> owned. pool_heap p' b = pool_heap p b) \<and>
    pool_inv zero p' (insert a owned)"
proof (cases "\<exists>i. pick = Some i \<and> i < length (pool_free p)")
  case True
  then obtain i where i: "pick = Some i" "i < length (pool_free p)" by blast
  then have a: "a = pool_free p ! i" "a \<in> set (pool_free p)"
    and p': "p' = p\<lparr>pool_free := take i (pool_free p) @ drop (Suc i) (pool_free p)\<rparr>"
    using assms(2) by (auto simp: pool_Get_def)
  have "distinct (pool_free p)" using assms(1) by (simp add: pool_inv_def)
  note rem = remove_nth [OF this i(2)]
  show ?thesis
    using assms(1) a(2) rem unfolding p' pool_inv_def a(1) by auto
next
  case False
  then have "a = pool_next p"
    "p' = p\<lparr>pool_heap := (pool_heap p)(pool_next p := zero), pool_next := pool_next p + 1\<rparr>"
    using assms(2) by (auto simp: pool_Get_def split: option.splits if_splits)
  then show ?thesis using assms(1) by (fastforce simp: pool_inv_def)
qed

text \<open>An object pool is correct as soon as its reset makes an object equal to a new one.\<close>

locale object_pool =
  fixes zero :: 'e and reset :: "'e \<Rightarrow> 'e"
  assumes reset_is_zero: "reset e = zero"
begin

lemma reachable_inv: "pool_reachable zero reset p owned \<Longrightarrow> pool_inv zero p owned"
proof (induction rule: pool_reachable.induct)
  case (start h)
  then show ?case by (simp add: pool_inv_def)
next
  case (acquire p owned pick a p')
  then show ?case using pool_Get_fresh [of zero p owned pick a p'] by simp
next
  case (written p owned a e)
  then show ?case by (auto simp: pool_inv_def)
next
  case (release p owned a)
  then show ?case by (auto simp: pool_inv_def pool_release_def pool_Put_def reset_is_zero)
next
  case (collect p owned keep)
  then show ?case by (auto simp: pool_inv_def)
qed

lemma acquire_fresh:
  "pool_reachable zero reset p owned \<Longrightarrow> pool_Get zero pick p = (a, p') \<Longrightarrow>
    a \<notin> owned \<and> pool_heap p' a = zero \<and> (\<forall>b \<in> owned. pool_heap p' b = pool_heap p b)"
  using pool_Get_fresh [OF reachable_inv, of p owned pick a p'] by simp

end

interpretation market_pool: object_pool zero_market_update reset_market_update
  by unfold_locales (simp add: reset_market_update_def zero_market_update_def)

interpretation order_pool: object_pool zero_order_update reset_order_update
  by unfold_locales (simp add: reset_order_update_def zero_order_update_def)

section \<open>Properties\<close>

text \<open>An event written to the log comes back unchanged: unmarshalling the JSON form of a
  market or order update into a zero struct gives every field back, provided its strings are
  valid UTF-8 (as all ASCII symbols are).\<close>

lemma event_json_round_trip:
  assumes "event_well_encoded ev"
  shows "(case ev of
      MarketUpdate e \<Rightarrow> Unmarshal market_update_fields (Marshal_event ev) zero_market_update = Some e
    | OrderUpdate e \<Rightarrow> Unmarshal order_update_fields (Marshal_event ev) zero_order_update = Some e)"
  using assms
  by (cases ev) (simp_all del: Marshal_event.simps add: Unmarshal_market_update Unmarshal_order_update)

lemma event_json_round_trip_witness:
  "Unmarshal market_update_fields
     (Marshal_event (MarketUpdate (zero_market_update\<lparr>mu_Symbol := ''BTC'', mu_PriceMicros := - 7\<rparr>)))
     zero_market_update = Some (zero_market_update\<lparr>mu_Symbol := ''BTC'', mu_PriceMicros := - 7\<rparr>)"
  using event_json_round_trip [of "MarketUpdate (zero_market_update\<lparr>mu_Symbol := ''BTC'', mu_PriceMicros := - 7\<rparr>)"]
  by (simp del: Marshal_event.simps rune_size.simps coerce_utf8.simps
      add: zero_market_update_def ascii_well_encoded byte_in_def)

text \<open>Whatever the interleaving of acquisitions, writes and releases by a program that only
  touches the events it holds, \<open>AcquireMarketUpdateEvent\<close> hands out an event with all fields
  zero that nobody else holds, and leaves the events held by others alone.\<close>

lemma pool_acquire_zeroed_and_unshared:
  assumes "pool_reachable zero_market_update reset_market_update p owned"
    and "AcquireMarketUpdateEvent pick p = (a, p')"
  shows "a \<notin> owned \<and> pool_heap p' a = zero_market_update \<and>
    (\<forall>b \<in> owned. pool_heap p' b = pool_heap p b)"
  by (rule market_pool.acquire_fresh [OF assms(1) assms(2) [unfolded AcquireMarketUpdateEvent_def]])

definition example_pool :: "market_update pool" where
  "example_pool = \<lparr>pool_heap = \<lambda>_. zero_market_update, pool_free = [], pool_next = 0\<rparr>"

lemma pool_acquire_zeroed_and_unshared_witness:
  "case AcquireMarketUpdateEvent (Some 0) (ReleaseMarketUpdateEvent (Some 0)
      ((snd (AcquireMarketUpdateEvent None example_pool))\<lparr>pool_heap := (\<lambda>_. zero_market_update)(0 := zero_market_update\<lparr>mu_Seq := 9\<rparr>)\<rparr>))
   of (a, p) \<Rightarrow> a = 0 \<and> pool_heap p a = zero_market_update"
proof -
  let ?p1 = "snd (AcquireMarketUpdateEvent None example_pool)"
  let ?w = "zero_market_update\<lparr>mu_Seq := 9\<rparr>"
  let ?p2 = "?p1\<lparr>pool_heap := (pool_heap ?p1)(0 := ?w)\<rparr>"
  let ?p3 = "ReleaseMarketUpdateEvent (Some 0) ?p2"
  have "pool_reachable zero_market_update reset_market_update ?p1 (insert 0 {})"
    by (rule pool_reachable.acquire [where pick = None,
          OF pool_reachable.start [where h = "\<lambda>_. zero_market_update"]])
      (simp add: AcquireMarketUpdateEvent_def example_pool_def pool_Get_def)
  from pool_reachable.release [OF pool_reachable.written [OF this, of 0 ?w], of 0]
  have r: "pool_reachable zero_market_update reset_market_update ?p3 {}"
    by (simp add: ReleaseMarketUpdateEvent_def)
  obtain a p where a: "AcquireMarketUpdateEvent (Some 0) ?p3 = (a, p)"
    by (cases "AcquireMarketUpdateEvent (Some 0) ?p3")
  have h: "pool_heap ?p1 = (\<lambda>_. zero_market_update)"
    by (auto simp: AcquireMarketUpdateEvent_def example_pool_def pool_Get_def)
  have "a = 0"
    using a by (simp add: AcquireMarketUpdateEvent_def example_pool_def pool_Get_def
        ReleaseMarketUpdateEvent_def pool_release_def pool_Put_def)
  then show ?thesis
    using pool_acquire_zeroed_and_unshared [OF r a] a h by simp
qed

end
