(* ===== verification/Event_Store.thy ===== *)
theory Event_Store
  imports Event
begin

text \<open>
  \<open>internal/storage/store.go\<close>: the event store. SQLite is the two tables the code creates and
  the statements it runs, translated one by one; a table of events is the list of its rows in
  insertion order, the primary key is checked on insertion. Whether the engine fails is an
  argument: a statement may fail as a whole, and a query may stop delivering rows. A JSON
  payload is its value; bytes that are not JSON are \<open>Malformed\<close>.
\<close>

section \<open>Tables\<close>

datatype payload = Malformed | Json json

record event_row =
  row_id :: i64
  row_type :: i64
  row_ts :: i64
  row_payload :: payload

record event_store =
  es_events :: "event_row list"
  es_metadata :: "string \<rightharpoonup> string \<times> i64"

datatype db_fault = NoFault | StmtFault | RowsFault nat

text \<open>The database file: a table that was not created yet is \<open>None\<close>.\<close>

record database =
  db_events :: "event_row list option"
  db_metadata :: "(string \<rightharpoonup> string \<times> i64) option"

datatype open_step = OpenDb | Pragma nat | CreateMetadata | CreateEvents

section \<open>Operations\<close>

definition create_if_missing :: "'t \<Rightarrow> 't option \<Rightarrow> 't" where
  "create_if_missing fresh t = (case t of None \<Rightarrow> fresh | Some t \<Rightarrow> t)"

text \<open>\<open>fault\<close> is the first step of opening the database that fails, if any.\<close>

definition NewEventStore :: "open_step option \<Rightarrow> database \<Rightarrow> open_step + event_store" where
  "NewEventStore fault db =
     (case fault of
        Some step \<Rightarrow> Inl step
      | None \<Rightarrow>
          Inr \<lparr>es_events = create_if_missing [] (db_events db),
               es_metadata = create_if_missing Map.empty (db_metadata db)\<rparr>)"

text \<open>A \<open>uint64\<close> statement argument: \<open>database/sql\<close> rejects one with the high bit set.\<close>

definition bind_uint64 :: "u64 \<Rightarrow> db_error + i64" where
  "bind_uint64 x = (if 9223372036854775808 \<le> x then Inl UintHighBit else Inr x)"

definition event_row_of :: "event \<Rightarrow> event_row" where
  "event_row_of ev =
     \<lparr>row_id = GetSeq ev, row_type = ucast (GetType ev), row_ts = GetTs ev,
      row_payload = Json (Marshal_event ev)\<rparr>"

definition SaveEvent :: "bool \<Rightarrow> event \<Rightarrow> event_store \<Rightarrow> store_error option \<times> event_store" where
  "SaveEvent fault ev st =
     (case bind_uint64 (GetSeq ev) of
        Inl e \<Rightarrow> (Some (FailedToInsert e), st)
      | Inr i \<Rightarrow>
          if fault then (Some (FailedToInsert EngineFault), st)
          else if i \<in> set (map row_id (es_events st)) then (Some (FailedToInsert UniqueConstraint), st)
          else (None, st\<lparr>es_events := es_events st @ [event_row_of ev]\<rparr>))"

definition UpsertMetadata ::
  "bool \<Rightarrow> string \<Rightarrow> string \<Rightarrow> i64 \<Rightarrow> event_store \<Rightarrow> db_error option \<times> event_store" where
  "UpsertMetadata fault key v ts st =
     (if fault then (Some EngineFault, st)
      else (None, st\<lparr>es_metadata := (es_metadata st)(key \<mapsto> (v, ts))\<rparr>))"

definition GetMetadata :: "bool \<Rightarrow> string \<Rightarrow> event_store \<Rightarrow> db_error + string" where
  "GetMetadata fault key st =
     (if fault then Inl EngineFault
      else case es_metadata st key of None \<Rightarrow> Inr [] | Some (v, ts) \<Rightarrow> Inr v)"

definition GetLastSeq :: "bool \<Rightarrow> event_store \<Rightarrow> store_error + u64" where
  "GetLastSeq fault st =
     (if fault then Inl (FailedToGetLastSeq EngineFault)
      else case map (sint \<circ> row_id) (es_events st) of
        [] \<Rightarrow> Inr 0
      | i # is \<Rightarrow> Inr (word_of_int (fold max is i)))"

text \<open>One iteration of the loop of \<open>LoadEvents\<close>; \<open>Inr None\<close> is \<open>continue\<close>.\<close>

definition decode_payload :: "'r field list \<Rightarrow> 'r \<Rightarrow> payload \<Rightarrow> 'r option" where
  "decode_payload fs zero p = (case p of Malformed \<Rightarrow> None | Json v \<Rightarrow> Unmarshal fs v zero)"

definition decode_row :: "event_row \<Rightarrow> store_error + event option" where
  "decode_row r =
     (let evType = (word_of_int (sint (row_type r)) :: event_type) in
      if evType = EvMarketUpdate then
        (case decode_payload market_update_fields zero_market_update (row_payload r) of
           None \<Rightarrow> Inl (FailedToUnmarshal (row_id r))
         | Some e \<Rightarrow> Inr (Some (MarketUpdate e)))
      else if evType = EvOrderUpdate then
        (case decode_payload order_update_fields zero_order_update (row_payload r) of
           None \<Rightarrow> Inl (FailedToUnmarshal (row_id r))
         | Some e \<Rightarrow> Inr (Some (OrderUpdate e)))
      else Inr None)"

fun load_rows :: "event_row list \<Rightarrow> event list \<Rightarrow> store_error + event list" where
  "load_rows [] acc = Inr acc"
| "load_rows (r # rs) acc =
     (case decode_row r of
        Inl e \<Rightarrow> Inl e
      | Inr None \<Rightarrow> load_rows rs acc
      | Inr (Some ev) \<Rightarrow> load_rows rs (acc @ [ev]))"

definition select_from :: "i64 \<Rightarrow> event_store \<Rightarrow> event_row list" where
  "select_from from st = sort_key (\<lambda>r. sint (row_id r)) (filter (\<lambda>r. from \<le>s row_id r) (es_events st))"

definition LoadEvents :: "db_fault \<Rightarrow> u64 \<Rightarrow> event_store \<Rightarrow> store_error + event list" where
  "LoadEvents fault fromSeq st =
     (case bind_uint64 fromSeq of
        Inl e \<Rightarrow> Inl (FailedToQuery e)
      | Inr from \<Rightarrow>
          (case fault of
             StmtFault \<Rightarrow> Inl (FailedToQuery EngineFault)
           | NoFault \<Rightarrow> load_rows (select_from from st) []
           | RowsFault k \<Rightarrow>
               (case load_rows (take k (select_from from st)) [] of
                  Inl e \<Rightarrow> Inl e
                | Inr _ \<Rightarrow> Inl (RowsIterationError EngineFault))))"

section \<open>Rows of saved events\<close>

primrec event_coerced :: "event \<Rightarrow> event" where
  "event_coerced (MarketUpdate e) =
     MarketUpdate (e\<lparr>mu_Symbol := coerce_utf8 (mu_Symbol e), mu_Exchange := coerce_utf8 (mu_Exchange e)\<rparr>)"
| "event_coerced (OrderUpdate e) =
     OrderUpdate (e\<lparr>ou_OrderID := coerce_utf8 (ou_OrderID e), ou_Status := coerce_utf8 (ou_Status e)\<rparr>)"

lemma event_coerced_id [simp]: "event_well_encoded ev \<Longrightarrow> event_coerced ev = ev"
  by (cases ev) auto

lemma GetSeq_event_coerced [simp]: "GetSeq (event_coerced ev) = GetSeq ev"
  by (cases ev) auto

lemma decode_event_row [simp]: "decode_row (event_row_of ev) = Inr (Some (event_coerced ev))"
  by (cases ev)
    (simp_all del: Marshal_event.simps add: decode_row_def event_row_of_def decode_payload_def Let_def
      EvMarketUpdate_def EvOrderUpdate_def Unmarshal_market_update Unmarshal_order_update)

lemma load_rows_acc:
  "load_rows rs acc = (case load_rows rs [] of Inl e \<Rightarrow> Inl e | Inr evs \<Rightarrow> Inr (acc @ evs))"
proof (induction rs arbitrary: acc)
  case (Cons r rs)
  show ?case
    using Cons [of acc] Cons [of "acc @ [e]" for e] Cons [of "[e]" for e]
    by (auto split: sum.splits option.splits)
qed simp

lemma load_rows_append:
  "load_rows (rs @ qs) [] =
     (case load_rows rs [] of
        Inl e \<Rightarrow> Inl e
      | Inr evs \<Rightarrow> (case load_rows qs [] of Inl e \<Rightarrow> Inl e | Inr fvs \<Rightarrow> Inr (evs @ fvs)))"
proof (induction rs)
  case (Cons r rs)
  then show ?case
    using load_rows_acc [of "rs @ qs" "[e]" for e] load_rows_acc [of rs "[e]" for e]
    by (auto split: sum.splits option.splits)
qed (simp split: sum.splits)

section \<open>The log as the sequencer sees it\<close>

text \<open>
  What the sequencer relies on: appending the event whose sequence number is the next one keeps
  the log well formed and puts the event at the end of what is loaded back; the highest
  sequence number stored is one below the next.
\<close>

locale event_log =
  fixes append :: "event \<Rightarrow> 'l \<Rightarrow> store_error option \<times> 'l"
    and entries :: "'l \<Rightarrow> store_error + event list"
    and last_seq :: "'l \<Rightarrow> store_error + u64"
    and log_ok :: "u64 \<Rightarrow> 'l \<Rightarrow> bool"
  assumes append_ok: "log_ok n l \<Longrightarrow> GetSeq ev = n \<Longrightarrow> append ev l = (None, l') \<Longrightarrow> log_ok (n + 1) l'"
    and append_entries: "log_ok n l \<Longrightarrow> GetSeq ev = n \<Longrightarrow> append ev l = (None, l') \<Longrightarrow>
      entries l = Inr evs \<Longrightarrow> entries l' = Inr (evs @ [event_coerced ev])"
    and append_fails: "append ev l = (Some e, l') \<Longrightarrow> l' = l"
    and last_seq_ok: "log_ok n l \<Longrightarrow> last_seq l = Inr (n - 1)"
begin

lemma append_entries_encoded:
  "log_ok n l \<Longrightarrow> GetSeq ev = n \<Longrightarrow> event_well_encoded ev \<Longrightarrow> append ev l = (None, l') \<Longrightarrow>
    entries l = Inr evs \<Longrightarrow> entries l' = Inr (evs @ [ev])"
  using append_entries [of n l ev l' evs] by simp

lemma append_last:
  "log_ok n l \<Longrightarrow> GetSeq ev = n \<Longrightarrow> append ev l = (None, l') \<Longrightarrow> last_seq l' = Inr n"
  using append_ok [of n l ev l'] last_seq_ok [of "n + 1" l'] by simp

end

lemma insort_key_snoc: "f x \<le> f y \<Longrightarrow> insort_key f x (ys @ [y]) = insort_key f x ys @ [y]"
  by (induction ys) auto

lemma sort_key_snoc_greatest:
  "\<forall>x \<in> set xs. f x \<le> f y \<Longrightarrow> sort_key f (xs @ [y]) = sort_key f xs @ [y]"
  by (induction xs) (simp_all add: insort_key_snoc)

definition wal_ok :: "u64 \<Rightarrow> event_store \<Rightarrow> bool" where
  "wal_ok n st \<longleftrightarrow> 0 < uint n \<and> uint n \<le> 9223372036854775808 \<and>
     map (\<lambda>r. sint (row_id r)) (es_events st) = [1..uint n - 1]"

lemma bind_uint64_Inr_iff: "bind_uint64 x = Inr i \<longleftrightarrow> i = x \<and> uint x < 9223372036854775808"
  by (auto simp: bind_uint64_def word_le_def not_le)

lemma SaveEvent_ok_iff:
  "SaveEvent fault ev st = (None, st') \<longleftrightarrow>
     \<not> fault \<and> uint (GetSeq ev) < 9223372036854775808 \<and> GetSeq ev \<notin> row_id ` set (es_events st) \<and>
     st' = st\<lparr>es_events := es_events st @ [event_row_of ev]\<rparr>"
  by (auto simp: SaveEvent_def bind_uint64_def word_le_def not_le)

lemma upto_snoc_int: "1 \<le> n \<Longrightarrow> [1..n - 1] @ [n] = [1..n :: int]"
  by (simp add: upto_rec2)

lemma wal_ok_save:
  assumes "wal_ok n st" "GetSeq ev = n" "SaveEvent fault ev st = (None, st')"
  shows "wal_ok (n + 1) st'"
proof -
  have n: "uint n < 9223372036854775808" using assms(2,3) by (simp add: SaveEvent_ok_iff)
  then have u: "uint (n + 1) = uint n + 1"
    by (simp add: uint_word_ariths)
  have "sint n = uint n" using n by (rule sint_eq_uint_i64)
  then show ?thesis
    using assms n u by (auto simp: wal_ok_def SaveEvent_ok_iff event_row_of_def upto_snoc_int)
qed

lemma wal_ok_id_pos:
  assumes "wal_ok n st" "r \<in> set (es_events st)" shows "1 \<le> sint (row_id r)"
proof -
  have "sint (row_id r) \<in> set (map (\<lambda>r. sint (row_id r)) (es_events st))"
    using assms(2) by (simp only: set_map image_eqI)
  then show ?thesis using assms(1) by (simp add: wal_ok_def del: set_map)
qed

lemma wal_ok_select:
  assumes "wal_ok n st" shows "select_from 1 st = es_events st"
proof -
  let ?k = "\<lambda>r. sint (row_id r)"
  have ids: "map ?k (es_events st) = [1..uint n - 1]" using assms by (simp add: wal_ok_def)
  have "filter (\<lambda>r. 1 \<le>s row_id r) (es_events st) = es_events st"
    using wal_ok_id_pos [OF assms] by (simp add: filter_id_conv word_sle_eq)
  moreover have "sort_key ?k (es_events st) = es_events st"
    by (rule sort_key_id_if_sorted) (simp add: ids)
  ultimately show ?thesis by (simp add: select_from_def)
qed

lemma LoadEvents_wal: "wal_ok n st \<Longrightarrow> LoadEvents NoFault 1 st = load_rows (es_events st) []"
  by (simp add: LoadEvents_def bind_uint64_def word_le_def wal_ok_select)

lemma fold_max_upto: "1 \<le> n \<Longrightarrow> fold max [2..n] 1 = (n :: int)"
proof (induction "nat (n - 1)" arbitrary: n)
  case (Suc k)
  then have "[2..n] = [2..n - 1] @ [n]" by (simp add: upto_rec2)
  then show ?case using Suc(1) [of "n - 1"] Suc(2) by simp
qed simp

lemma GetLastSeq_wal: "wal_ok n st \<Longrightarrow> GetLastSeq False st = Inr (n - 1)"
proof -
  assume ok: "wal_ok n st"
  then have ids: "map (sint \<circ> row_id) (es_events st) = [1..uint n - 1]"
    by (simp add: wal_ok_def comp_def)
  show ?thesis
  proof (cases "uint n = 1")
    case True
    then have "n = 1" by (metis uint_1_eq word_eq_iff_unsigned)
    then show ?thesis using True ids by (simp add: GetLastSeq_def)
  next
    case False
    then have two: "2 \<le> uint n" using ok by (simp add: wal_ok_def)
    then have "[1..uint n - 1] = 1 # [2..uint n - 1]" by (simp add: upto_rec1)
    then have "GetLastSeq False st = Inr (word_of_int (uint n - 1))"
      using ids two fold_max_upto [of "uint n - 1"] by (simp add: GetLastSeq_def)
    then show ?thesis by simp
  qed
qed

interpretation wal: event_log "SaveEvent fault" "LoadEvents NoFault 1" "GetLastSeq False" wal_ok
proof (unfold_locales, goal_cases)
  case (1 n l ev l')
  then show ?case by (rule wal_ok_save)
next
  case (2 n l ev l' evs)
  then show ?case
    using LoadEvents_wal [OF wal_ok_save [OF 2(1-3)]] LoadEvents_wal [OF 2(1)]
    by (simp add: SaveEvent_ok_iff load_rows_append)
next
  case (3 ev l e l')
  then show ?case by (auto simp: SaveEvent_def split: sum.splits if_splits)
next
  case (4 n l)
  then show ?case by (rule GetLastSeq_wal)
qed

section \<open>Properties\<close>

text \<open>An event saved under a sequence number above all stored ones is the last one loaded
  back, unchanged if its strings are valid UTF-8, and the events before it are loaded as
  before; this holds from any starting sequence number up to its own.\<close>

lemma store_save_then_load:
  assumes "SaveEvent fault ev st = (None, st')" "event_well_encoded ev"
    and "\<forall>r \<in> set (es_events st). sint (row_id r) < sint (GetSeq ev)"
    and "uint from \<le> uint (GetSeq ev)" "LoadEvents NoFault from st = Inr evs"
  shows "LoadEvents NoFault from st' = Inr (evs @ [ev])"
proof -
  let ?k = "\<lambda>r. sint (row_id r)"
  have save: "uint (GetSeq ev) < 9223372036854775808"
    "st' = st\<lparr>es_events := es_events st @ [event_row_of ev]\<rparr>"
    using assms(1) by (simp_all add: SaveEvent_ok_iff)
  have f: "uint from < 9223372036854775808" using save(1) assms(4) by linarith
  have b: "bind_uint64 from = Inr from" using f by (simp add: bind_uint64_Inr_iff)
  have in_range: "from \<le>s GetSeq ev"
    using save(1) f assms(4) by (simp add: word_sle_eq sint_eq_uint_i64)
  have "select_from from st' = select_from from st @ [event_row_of ev]"
  proof -
    let ?old = "filter (\<lambda>r. from \<le>s row_id r) (es_events st)"
    have "sort_key ?k (?old @ [event_row_of ev]) = sort_key ?k ?old @ [event_row_of ev]"
      using assms(3) by (intro sort_key_snoc_greatest) (auto simp: event_row_of_def less_imp_le)
    then show ?thesis using in_range by (simp add: select_from_def save(2) event_row_of_def)
  qed
  then show ?thesis
    using assms(2,5) by (simp add: LoadEvents_def b load_rows_append)
qed

definition example_event :: "u64 \<Rightarrow> i64 \<Rightarrow> event" where
  "example_event seq price = MarketUpdate (zero_market_update\<lparr>mu_Seq := seq, mu_Symbol := ''BTC'', mu_PriceMicros := price\<rparr>)"

lemma example_event_encoded [simp]: "event_well_encoded (example_event seq price)"
  by (simp add: example_event_def zero_market_update_def ascii_well_encoded byte_in_def)

definition empty_store :: event_store where
  "empty_store = \<lparr>es_events = [], es_metadata = Map.empty\<rparr>"

lemma store_save_then_load_witness:
  "\<exists>st'. SaveEvent False (example_event 1 5) empty_store = (None, st') \<and>
     LoadEvents NoFault 1 st' = Inr [example_event 1 5]"
proof -
  have seq: "GetSeq (example_event 1 5) = 1" by (simp add: example_event_def)
  obtain st' where s: "SaveEvent False (example_event 1 5) empty_store = (None, st')"
    by (simp add: SaveEvent_ok_iff seq empty_store_def)
  moreover have "LoadEvents NoFault 1 empty_store = Inr []"
    by (simp add: LoadEvents_def bind_uint64_def word_le_def select_from_def empty_store_def)
  ultimately show ?thesis
    using store_save_then_load [OF s, of 1 "[]"] by (simp add: seq empty_store_def)
qed

lemma select_from_metadata [simp]: "select_from from (st\<lparr>es_metadata := m\<rparr>) = select_from from st"
  by (simp add: select_from_def)

text \<open>The metadata table answers with the last value written for a key, and a write leaves
  the other keys and what is loaded from the event table alone.\<close>

lemma metadata_upsert_get:
  "\<exists>st'. UpsertMetadata False key v ts st = (None, st') \<and>
    GetMetadata False k st' = (if k = key then Inr v else GetMetadata False k st) \<and>
    LoadEvents fault from st' = LoadEvents fault from st"
  by (simp add: UpsertMetadata_def GetMetadata_def LoadEvents_def split: sum.splits db_fault.splits)

end
