(* ===== verification/Balance.thy ===== *)
theory Balance
  imports Safe_Math
begin

text \<open>
  \<open>internal/domain/balance.go\<close>: one account balance with its three invariants, and the
  book of balances. A \<open>*Balance\<close> handed out by \<open>Get\<close> is the entry of its symbol in
  the book (pointers are created in \<open>Get\<close> only, one per symbol), so writing through it
  is updating the book at that symbol. Go iterates over a map in an unspecified order:
  the operations that do so take the order as an argument, any enumeration of the keys.
\<close>

section \<open>Balance\<close>

record balance =
  bal_Symbol :: string
  bal_AmountSats :: i64
  bal_ReservedSats :: i64
  bal_LastSeq :: u64

definition AvailableSats :: "balance \<Rightarrow> panic + i64" where
  "AvailableSats b = SafeSub (bal_AmountSats b) (bal_ReservedSats b)"

definition Credit :: "i64 \<Rightarrow> u64 \<Rightarrow> balance \<Rightarrow> panic + balance" where
  "Credit amountSats seq b =
     bind_panic (SafeAdd (bal_AmountSats b) amountSats) (\<lambda>amount.
       Inr (b\<lparr>bal_AmountSats := amount, bal_LastSeq := seq\<rparr>))"

definition Debit :: "i64 \<Rightarrow> u64 \<Rightarrow> balance \<Rightarrow> panic + balance" where
  "Debit amountSats seq b =
     bind_panic (AvailableSats b) (\<lambda>available.
       if available <s amountSats
       then Inl (BALANCE_INSUFFICIENT (bal_Symbol b) amountSats available)
       else bind_panic (SafeSub (bal_AmountSats b) amountSats) (\<lambda>amount.
         Inr (b\<lparr>bal_AmountSats := amount, bal_LastSeq := seq\<rparr>)))"

definition Reserve :: "i64 \<Rightarrow> u64 \<Rightarrow> balance \<Rightarrow> panic + balance" where
  "Reserve amountSats seq b =
     bind_panic (AvailableSats b) (\<lambda>available.
       if available <s amountSats
       then Inl (BALANCE_RESERVE_INSUFFICIENT (bal_Symbol b) amountSats available)
       else bind_panic (SafeAdd (bal_ReservedSats b) amountSats) (\<lambda>reserved.
         Inr (b\<lparr>bal_ReservedSats := reserved, bal_LastSeq := seq\<rparr>)))"

definition Release :: "i64 \<Rightarrow> u64 \<Rightarrow> balance \<Rightarrow> panic + balance" where
  "Release amountSats seq b =
     (if bal_ReservedSats b <s amountSats
      then Inl (BALANCE_RELEASE_EXCEEDS_RESERVED (bal_Symbol b) amountSats (bal_ReservedSats b))
      else bind_panic (SafeSub (bal_ReservedSats b) amountSats) (\<lambda>reserved.
        Inr (b\<lparr>bal_ReservedSats := reserved, bal_LastSeq := seq\<rparr>)))"

definition VerifyInvariant :: "balance \<Rightarrow> panic + unit" where
  "VerifyInvariant b =
     (if bal_AmountSats b <s 0
      then Inl (BALANCE_INVARIANT_NEGATIVE_AMOUNT (bal_Symbol b) (bal_AmountSats b))
      else if bal_ReservedSats b <s 0
      then Inl (BALANCE_INVARIANT_NEGATIVE_RESERVED (bal_Symbol b) (bal_ReservedSats b))
      else if bal_AmountSats b <s bal_ReservedSats b
      then Inl (BALANCE_INVARIANT_RESERVED_EXCEEDS_AMOUNT (bal_Symbol b)
                  (bal_ReservedSats b) (bal_AmountSats b))
      else Inr ())"

section \<open>BalanceBook\<close>

type_synonym balance_book = "string \<rightharpoonup> balance"

definition NewBalanceBook :: balance_book where
  "NewBalanceBook = Map.empty"

definition zero_balance :: "string \<Rightarrow> balance" where
  "zero_balance symbol =
     \<lparr>bal_Symbol = symbol, bal_AmountSats = 0, bal_ReservedSats = 0, bal_LastSeq = 0\<rparr>"

definition Get :: "string \<Rightarrow> balance_book \<Rightarrow> balance \<times> balance_book" where
  "Get symbol bb =
     (case bb symbol of
        Some b \<Rightarrow> (b, bb)
      | None \<Rightarrow> (zero_balance symbol, bb(symbol \<mapsto> zero_balance symbol)))"

fun VerifyAll :: "string list \<Rightarrow> balance_book \<Rightarrow> panic + unit" where
  "VerifyAll [] bb = Inr ()"
| "VerifyAll (k # ks) bb =
     (case bb k of
        None \<Rightarrow> VerifyAll ks bb
      | Some b \<Rightarrow> bind_panic (VerifyInvariant b) (\<lambda>_. VerifyAll ks bb))"

fun Snapshot_book :: "string list \<Rightarrow> balance_book \<Rightarrow> (string \<rightharpoonup> balance) \<Rightarrow> (string \<rightharpoonup> balance)" where
  "Snapshot_book [] bb result = result"
| "Snapshot_book (k # ks) bb result =
     (case bb k of
        None \<Rightarrow> Snapshot_book ks bb result
      | Some v \<Rightarrow> Snapshot_book ks bb (result(k \<mapsto> v)))"

definition asset_value :: "i64 \<Rightarrow> i64 \<Rightarrow> panic + i64" where
  "asset_value amount price =
     bind_panic (SafeDiv amount 100000000) (\<lambda>wholeUnits.
     let remainder = go_rem amount 100000000 in
     bind_panic (SafeMul wholeUnits price) (\<lambda>assetValue.
     bind_panic (SafeMul remainder price) (\<lambda>m.
     bind_panic (SafeDiv m 100000000) (\<lambda>fracValue.
     SafeAdd assetValue fracValue))))"

fun equity_loop :: "string list \<Rightarrow> (string \<rightharpoonup> i64) \<Rightarrow> balance_book \<Rightarrow> i64 \<Rightarrow> panic + i64" where
  "equity_loop [] prices bb totalEquity = Inr totalEquity"
| "equity_loop (symbol # rest) prices bb totalEquity =
     (case (bb symbol, prices symbol) of
        (Some b, Some price) \<Rightarrow>
          bind_panic (asset_value (bal_AmountSats b) price) (\<lambda>assetValue.
          bind_panic (SafeAdd totalEquity assetValue) (\<lambda>total.
          equity_loop rest prices bb total))
      | _ \<Rightarrow> equity_loop rest prices bb totalEquity)"

definition CalculateTotalEquity ::
  "string list \<Rightarrow> (string \<rightharpoonup> i64) \<Rightarrow> balance_book \<Rightarrow> panic + i64" where
  "CalculateTotalEquity order prices bb = equity_loop order prices bb 0"

section \<open>The balance invariant\<close>

definition bal_ok :: "balance \<Rightarrow> bool" where
  "bal_ok b \<longleftrightarrow> 0 \<le> sint (bal_ReservedSats b) \<and>
     sint (bal_ReservedSats b) \<le> sint (bal_AmountSats b)"

definition book_ok :: "balance_book \<Rightarrow> bool" where
  "book_ok bb \<longleftrightarrow> (\<forall>b \<in> ran bb. bal_ok b)"

definition enumerates :: "'k list \<Rightarrow> ('k \<rightharpoonup> 'v) \<Rightarrow> bool" where
  "enumerates ks m \<longleftrightarrow> distinct ks \<and> set ks = dom m"

lemma zero_balance_ok [simp]: "bal_ok (zero_balance s)"
  by (simp add: bal_ok_def zero_balance_def)

lemma VerifyInvariant_iff: "VerifyInvariant b = Inr () \<longleftrightarrow> bal_ok b"
  by (auto simp: VerifyInvariant_def bal_ok_def word_sless_alt)

lemma VerifyAll_iff: "VerifyAll ks bb = Inr () \<longleftrightarrow> (\<forall>k \<in> set ks. \<forall>b. bb k = Some b \<longrightarrow> bal_ok b)"
  by (induction ks) (auto simp: VerifyInvariant_iff split: option.splits)

lemma Snapshot_book_acc: "Snapshot_book ks bb r = r ++ (bb |` set ks)"
  by (induction ks arbitrary: r)
    (auto simp: fun_eq_iff map_add_def restrict_map_def split: option.splits)

lemma AvailableSats_ok:
  assumes "bal_ok b"
  shows "AvailableSats b = Inr (bal_AmountSats b - bal_ReservedSats b)"
    and "sint (bal_AmountSats b - bal_ReservedSats b)
      = sint (bal_AmountSats b) - sint (bal_ReservedSats b)"
proof -
  have fits: "in_i64 (sint (bal_AmountSats b) - sint (bal_ReservedSats b))"
    using assms in_i64_sint [of "bal_AmountSats b"]
    by (auto simp: bal_ok_def in_i64_def simp del: in_i64_sint)
  then show "AvailableSats b = Inr (bal_AmountSats b - bal_ReservedSats b)"
    by (simp add: AvailableSats_def SafeSub_exact)
  from fits show "sint (bal_AmountSats b - bal_ReservedSats b)
      = sint (bal_AmountSats b) - sint (bal_ReservedSats b)"
    by (rule sint_diff_i64)
qed

section \<open>The effect of each operation\<close>

lemma Credit_Inr_iff:
  "Credit x q b = Inr b' \<longleftrightarrow>
     sint (bal_AmountSats b') = sint (bal_AmountSats b) + sint x \<and>
     bal_ReservedSats b' = bal_ReservedSats b \<and> bal_Symbol b' = bal_Symbol b \<and> bal_LastSeq b' = q"
  by (cases b; cases b') (auto simp: Credit_def safe_returns)

lemma Debit_Inr_iff:
  assumes "bal_ok b"
  shows "Debit x q b = Inr b' \<longleftrightarrow>
     sint x \<le> sint (bal_AmountSats b) - sint (bal_ReservedSats b) \<and>
     sint (bal_AmountSats b') = sint (bal_AmountSats b) - sint x \<and>
     bal_ReservedSats b' = bal_ReservedSats b \<and> bal_Symbol b' = bal_Symbol b \<and> bal_LastSeq b' = q"
  using AvailableSats_ok [OF assms]
  by (cases b; cases b') (auto simp: Debit_def safe_returns word_sless_alt)

lemma Reserve_Inr_iff:
  assumes "bal_ok b"
  shows "Reserve x q b = Inr b' \<longleftrightarrow>
     sint x \<le> sint (bal_AmountSats b) - sint (bal_ReservedSats b) \<and>
     sint (bal_ReservedSats b') = sint (bal_ReservedSats b) + sint x \<and>
     bal_AmountSats b' = bal_AmountSats b \<and> bal_Symbol b' = bal_Symbol b \<and> bal_LastSeq b' = q"
  using AvailableSats_ok [OF assms]
  by (cases b; cases b') (auto simp: Reserve_def safe_returns word_sless_alt)

lemma Release_Inr_iff:
  "Release x q b = Inr b' \<longleftrightarrow>
     sint x \<le> sint (bal_ReservedSats b) \<and>
     sint (bal_ReservedSats b') = sint (bal_ReservedSats b) - sint x \<and>
     bal_AmountSats b' = bal_AmountSats b \<and> bal_Symbol b' = bal_Symbol b \<and> bal_LastSeq b' = q"
  by (cases b; cases b') (auto simp: Release_def safe_returns word_sless_alt)

lemmas balance_op_iffs = Credit_Inr_iff Debit_Inr_iff Reserve_Inr_iff Release_Inr_iff

lemma Credit_bal_ok:
  "bal_ok b \<Longrightarrow> Credit x q b = Inr b' \<Longrightarrow>
     bal_ok b' \<longleftrightarrow> sint (bal_ReservedSats b) \<le> sint (bal_AmountSats b) + sint x"
  by (simp add: Credit_Inr_iff bal_ok_def)

lemma Debit_bal_ok: "bal_ok b \<Longrightarrow> Debit x q b = Inr b' \<Longrightarrow> bal_ok b'"
  by (simp add: Debit_Inr_iff) (simp add: bal_ok_def)

lemma Reserve_bal_ok:
  "bal_ok b \<Longrightarrow> Reserve x q b = Inr b' \<Longrightarrow>
     bal_ok b' \<longleftrightarrow> 0 \<le> sint (bal_ReservedSats b) + sint x"
  by (simp add: Reserve_Inr_iff) (auto simp: bal_ok_def)

lemma Release_bal_ok:
  "bal_ok b \<Longrightarrow> Release x q b = Inr b' \<Longrightarrow>
     bal_ok b' \<longleftrightarrow> sint (bal_ReservedSats b) - sint x \<le> sint (bal_AmountSats b)"
  by (simp add: Release_Inr_iff bal_ok_def)

lemma sdiv_sgn_mult: "0 \<le> n \<Longrightarrow> 0 < s \<Longrightarrow> (sgn u * n) sdiv s = sgn u * (n div s)" for n s u :: int
  by (cases "n = 0") (auto simp: signed_divide_int_def sgn_if)

lemma sdiv_mult_split:
  fixes a p s :: int
  assumes s: "0 < s"
  shows "(a sdiv s) * p + ((a smod s) * p) sdiv s = (a * p) sdiv s"
proof -
  let ?e = "sgn (a * p)"
  have "\<bar>a\<bar> * \<bar>p\<bar> = (\<bar>a\<bar> mod s) * \<bar>p\<bar> + s * ((\<bar>a\<bar> div s) * \<bar>p\<bar>)"
    by (metis add.commute distrib_right mult.assoc mult_div_mod_eq)
  then have split: "(\<bar>a\<bar> * \<bar>p\<bar>) div s = (\<bar>a\<bar> div s) * \<bar>p\<bar> + ((\<bar>a\<bar> mod s) * \<bar>p\<bar>) div s"
    using s by simp
  have e: "?e = sgn a * sgn p" by (rule sgn_mult)
  have "(a * p) sdiv s = ?e * ((\<bar>a\<bar> * \<bar>p\<bar>) div s)"
    using s by (simp add: signed_divide_int_def abs_mult)
  moreover have "(a smod s) * p = ?e * ((\<bar>a\<bar> mod s) * \<bar>p\<bar>)"
    using s by (simp add: smod_int_alt_def e mult_sgn_abs mult.assoc mult.left_commute [of "sgn p"]) 
  moreover have "(a sdiv s) * p = ?e * ((\<bar>a\<bar> div s) * \<bar>p\<bar>)"
    using s by (simp add: signed_divide_int_def e mult_sgn_abs mult.assoc mult.left_commute [of "sgn p"])
  ultimately show ?thesis
    using s split by (simp add: sdiv_sgn_mult distrib_left)
qed


section \<open>The value of an asset and of the book\<close>

definition asset_fits :: "int \<Rightarrow> int \<Rightarrow> bool" where
  "asset_fits amount price \<longleftrightarrow>
     in_i64 ((amount sdiv 100000000) * price) \<and> in_i64 ((amount smod 100000000) * price) \<and>
     in_i64 ((amount * price) sdiv 100000000)"

lemma sint_go_rem: "b \<noteq> 0 \<Longrightarrow> sint (go_rem a b) = sint a smod sint b"
proof -
  assume "b \<noteq> 0"
  then have nz: "sint b \<noteq> 0" by (simp add: i64_eq_iff)
  have "in_i64 (sint a smod sint b)"
    using smod_int_range [OF nz, of "sint a"] in_i64_sint [of b]
    by (auto simp: in_i64_def simp del: in_i64_sint)
  then show ?thesis by (simp add: go_rem_def sint_of_int_i64)
qed

lemma asset_value_Inr_iff:
  "asset_value a p = Inr v \<longleftrightarrow>
     asset_fits (sint a) (sint p) \<and> sint v = (sint a * sint p) sdiv 100000000"
proof -
  have w: "SafeDiv a 100000000 = Inr (go_div a 100000000)"
    by (rule SafeDiv_pos) simp
  have sw: "sint (go_div a 100000000) = sint a sdiv 100000000"
    by (subst sint_go_div) (auto simp: i64_eq_iff)
  have sr: "sint (go_rem a 100000000) = sint a smod 100000000"
    by (subst sint_go_rem) auto
  have split: "(sint a sdiv 100000000) * sint p + ((sint a smod 100000000) * sint p) sdiv 100000000
      = (sint a * sint p) sdiv 100000000"
    by (rule sdiv_mult_split) simp
  have quotient: "in_i64 (k sdiv 100000000)" if "in_i64 k" for k
  proof -
    have "sint (go_div (word_of_int k) 100000000) = k sdiv 100000000"
      using that by (subst sint_go_div) (auto simp: i64_eq_iff sint_of_int_i64)
    then show ?thesis by (rule sint_eq_in_i64)
  qed
  show ?thesis
    unfolding asset_value_def w Let_def bind_panic.simps asset_fits_def
    by (auto simp: safe_returns sw sr ex_sint_eq ex_sint sint_of_int_i64 quotient split dest: sint_eq_in_i64 cong: conj_cong)
qed

definition position_value :: "balance_book \<Rightarrow> (string \<rightharpoonup> i64) \<Rightarrow> string \<Rightarrow> int" where
  "position_value bb prices symbol =
     (case (bb symbol, prices symbol) of
        (Some b, Some price) \<Rightarrow> (sint (bal_AmountSats b) * sint price) sdiv 100000000
      | _ \<Rightarrow> 0)"

definition position_fits :: "balance_book \<Rightarrow> (string \<rightharpoonup> i64) \<Rightarrow> string \<Rightarrow> bool" where
  "position_fits bb prices symbol =
     (case (bb symbol, prices symbol) of
        (Some b, Some price) \<Rightarrow> asset_fits (sint (bal_AmountSats b)) (sint price)
      | _ \<Rightarrow> True)"

lemma equity_loop_sound:
  "equity_loop ks prices bb t = Inr r \<Longrightarrow>
     sint r = sint t + (\<Sum>k\<leftarrow>ks. position_value bb prices k) \<and> (\<forall>k \<in> set ks. position_fits bb prices k)"
  by (induction ks arbitrary: t)
    (fastforce simp: position_value_def position_fits_def asset_value_Inr_iff safe_returns
      split: option.splits)+

lemma equity_loop_complete:
  assumes "\<forall>k \<in> set ks. position_fits bb prices k \<and> 0 \<le> position_value bb prices k"
    and "in_i64 (sint t + (\<Sum>k\<leftarrow>ks. position_value bb prices k))"
  shows "\<exists>r. equity_loop ks prices bb t = Inr r"
  using assms
proof (induction ks arbitrary: t)
  case (Cons k ks)
  let ?rest = "\<Sum>k\<leftarrow>ks. position_value bb prices k"
  have rest: "0 \<le> ?rest" using Cons.prems(1) by (intro sum_list_nonneg) auto
  show ?case
  proof (cases "\<exists>b price. bb k = Some b \<and> prices k = Some price")
    case False
    with Cons show ?thesis by (auto simp: position_value_def split: option.splits)
  next
    case True
    then obtain b price where k: "bb k = Some b" "prices k = Some price" by blast
    let ?v = "position_value bb prices k"
    have fits: "asset_fits (sint (bal_AmountSats b)) (sint price)" and v0: "0 \<le> ?v"
      using Cons.prems(1) k by (auto simp: position_fits_def)
    have v: "?v = (sint (bal_AmountSats b) * sint price) sdiv 100000000"
      using k by (simp add: position_value_def)
    have av: "asset_value (bal_AmountSats b) price = Inr (word_of_int ?v)" and sv: "sint (word_of_int ?v :: i64) = ?v"
      using fits by (auto simp: asset_value_Inr_iff v asset_fits_def sint_of_int_i64)
    have tot: "in_i64 (sint t + ?v)"
    proof (rule in_i64_between)
      show "in_i64 (sint t)" by simp
      show "in_i64 (sint t + (?v + ?rest))" using Cons.prems(2) by simp
    qed (use v0 rest in auto)
    have "\<exists>r. equity_loop ks prices bb (t + word_of_int ?v) = Inr r"
      using Cons.prems tot by (intro Cons.IH) (auto simp: sint_add_i64 sv add.assoc)
    with k av tot sv show ?thesis by (simp add: SafeAdd_exact)
  qed
qed simp

section \<open>Sequences of balance operations\<close>

datatype balance_op = CreditOp i64 u64 | DebitOp i64 u64 | ReserveOp i64 u64 | ReleaseOp i64 u64

fun op_amount :: "balance_op \<Rightarrow> i64" where
  "op_amount (CreditOp x q) = x"
| "op_amount (DebitOp x q) = x"
| "op_amount (ReserveOp x q) = x"
| "op_amount (ReleaseOp x q) = x"

fun apply_balance_op :: "balance_op \<Rightarrow> balance \<Rightarrow> panic + balance" where
  "apply_balance_op (CreditOp x q) b = Credit x q b"
| "apply_balance_op (DebitOp x q) b = Debit x q b"
| "apply_balance_op (ReserveOp x q) b = Reserve x q b"
| "apply_balance_op (ReleaseOp x q) b = Release x q b"

inductive balance_reachable :: "string \<Rightarrow> balance \<Rightarrow> bool" for symbol where
  created: "balance_reachable symbol (zero_balance symbol)"
| applied: "balance_reachable symbol b \<Longrightarrow> 0 \<le> sint (op_amount op) \<Longrightarrow>
     apply_balance_op op b = Inr b' \<Longrightarrow> balance_reachable symbol b'"

lemma apply_balance_op_ok:
  assumes "bal_ok b" "0 \<le> sint (op_amount op)" "apply_balance_op op b = Inr b'"
  shows "bal_ok b'"
proof (cases op)
  case (CreditOp x q)
  with assms Credit_bal_ok [of b x q b'] show ?thesis by (auto simp: bal_ok_def)
next
  case (DebitOp x q)
  with assms Debit_bal_ok [of b x q b'] show ?thesis by auto
next
  case (ReserveOp x q)
  with assms Reserve_bal_ok [of b x q b'] show ?thesis by (auto simp: bal_ok_def)
next
  case (ReleaseOp x q)
  with assms Release_bal_ok [of b x q b'] show ?thesis by (auto simp: bal_ok_def)
qed

lemma balance_reachable_ok: "balance_reachable symbol b \<Longrightarrow> bal_ok b \<and> bal_Symbol b = symbol"
proof (induction rule: balance_reachable.induct)
  case created
  show ?case by (simp add: zero_balance_ok) (simp add: zero_balance_def)
next
  case (applied b op b')
  then have "bal_ok b'" using apply_balance_op_ok by blast
  moreover have "bal_Symbol b' = bal_Symbol b"
    using applied by (cases op) (simp_all add: balance_op_iffs)
  ultimately show ?case using applied.IH by simp
qed

section \<open>The account contract\<close>

text \<open>
  What the execution layer relies on: an account holds an amount, part of it available;
  a credit adds to both, a debit of no more than the available part takes from both, a
  larger one is refused, and both keep the account's invariant.
\<close>

locale account =
  fixes credit debit :: "i64 \<Rightarrow> u64 \<Rightarrow> 'b \<Rightarrow> panic + 'b"
    and held avail :: "'b \<Rightarrow> int"
    and inv :: "'b \<Rightarrow> bool"
  assumes avail_le: "inv b \<Longrightarrow> 0 \<le> avail b \<and> avail b \<le> held b \<and> in_i64 (held b)"
    and credit_returns: "inv b \<Longrightarrow> (\<exists>b'. credit x q b = Inr b') \<longleftrightarrow> in_i64 (held b + sint x)"
    and credit_effect: "inv b \<Longrightarrow> 0 \<le> sint x \<Longrightarrow> credit x q b = Inr b' \<Longrightarrow>
      inv b' \<and> held b' = held b + sint x \<and> avail b' = avail b + sint x"
    and debit_returns: "inv b \<Longrightarrow> 0 \<le> sint x \<Longrightarrow> (\<exists>b'. debit x q b = Inr b') \<longleftrightarrow> sint x \<le> avail b"
    and debit_effect: "inv b \<Longrightarrow> 0 \<le> sint x \<Longrightarrow> debit x q b = Inr b' \<Longrightarrow>
      inv b' \<and> held b' = held b - sint x \<and> avail b' = avail b - sint x"
begin

lemma debit_then_credit_back:
  assumes "inv b" "0 \<le> sint x" "debit x q b = Inr b1"
  shows "\<exists>b2. credit x r b1 = Inr b2 \<and> inv b2 \<and> held b2 = held b \<and> avail b2 = avail b"
proof -
  have b1: "inv b1" "held b1 = held b - sint x" "avail b1 = avail b - sint x"
    using debit_effect [OF assms] by auto
  moreover have "in_i64 (held b1 + sint x)" using b1 avail_le [OF assms(1)] by simp
  ultimately obtain b2 where "credit x r b1 = Inr b2" using credit_returns by blast
  with b1 credit_effect [OF b1(1) assms(2), of r b2] show ?thesis by auto
qed

lemma credit_then_debit_back:
  assumes "inv b" "0 \<le> sint x" "credit x q b = Inr b1"
  shows "\<exists>b2. debit x r b1 = Inr b2 \<and> inv b2 \<and> held b2 = held b \<and> avail b2 = avail b"
proof -
  have b1: "inv b1" "held b1 = held b + sint x" "avail b1 = avail b + sint x"
    using credit_effect [OF assms] by auto
  moreover have "sint x \<le> avail b1" using b1 avail_le [OF assms(1)] by simp
  ultimately obtain b2 where "debit x r b1 = Inr b2" using debit_returns assms(2) by blast
  with b1 debit_effect [OF b1(1) assms(2), of r b2] show ?thesis by auto
qed

end

abbreviation bal_held :: "balance \<Rightarrow> int" where
  "bal_held b \<equiv> sint (bal_AmountSats b)"

abbreviation bal_avail :: "balance \<Rightarrow> int" where
  "bal_avail b \<equiv> sint (bal_AmountSats b) - sint (bal_ReservedSats b)"

interpretation acct: account Credit Debit bal_held bal_avail bal_ok
proof (unfold_locales, goal_cases)
  case (1 b)
  then show ?case by (simp add: bal_ok_def)
next
  case (2 b x q)
  then show ?case by (auto simp: Credit_def SafeAdd_exact)
next
  case (3 b x q b')
  then show ?case using Credit_bal_ok [of b x q b'] by (auto simp: Credit_Inr_iff bal_ok_def)
next
  case (4 b x q)
  then have "in_i64 (bal_held b - sint x)" if "sint x \<le> bal_avail b"
    using that in_i64_sint [of "bal_AmountSats b"]
    by (auto simp: bal_ok_def in_i64_def simp del: in_i64_sint)
  then show ?case
    using AvailableSats_ok [OF 4(1)]
    by (auto simp: Debit_def SafeSub_exact word_sless_alt)
next
  case (5 b x q b')
  then show ?case using Debit_bal_ok [of b x q b'] by (auto simp: Debit_Inr_iff)
qed

section \<open>Properties\<close>

text \<open>C27. Starting from the zero balance that \<open>Get\<close> creates, any sequence of
  \<open>Credit\<close>, \<open>Debit\<close>, \<open>Reserve\<close> and \<open>Release\<close> with non-negative amounts in
  which no call panics leads to a balance that passes \<open>VerifyInvariant\<close> and whose
  available amount is computed without panic and is not negative.\<close>

theorem balance_invariant_reachable:
  assumes "balance_reachable symbol b"
  shows "VerifyInvariant b = Inr () \<and> bal_Symbol b = symbol \<and>
    (\<exists>av. AvailableSats b = Inr av \<and> 0 \<le> sint av)"
proof -
  from assms have ok: "bal_ok b" and "bal_Symbol b = symbol"
    using balance_reachable_ok by auto
  then show ?thesis
    using AvailableSats_ok [OF ok] by (auto simp: VerifyInvariant_iff) (simp add: bal_ok_def)
qed

theorem balance_invariant_reachable_witness:
  "VerifyInvariant (zero_balance ''BTC''\<lparr>bal_AmountSats := 7, bal_ReservedSats := 5, bal_LastSeq := 2\<rparr>)
     = Inr ()"
proof -
  have "balance_reachable ''BTC'' (zero_balance ''BTC''\<lparr>bal_AmountSats := 7, bal_LastSeq := 1\<rparr>)"
    by (rule balance_reachable.applied [OF balance_reachable.created, of "CreditOp 7 1"])
      (simp_all add: Credit_def safe_eval zero_balance_def)
  then have "balance_reachable ''BTC''
      (zero_balance ''BTC''\<lparr>bal_AmountSats := 7, bal_ReservedSats := 5, bal_LastSeq := 2\<rparr>)"
    by (rule balance_reachable.applied [of _ _ "ReserveOp 5 2"])
      (simp_all add: Reserve_def AvailableSats_def safe_eval zero_balance_def word_sless_alt)
  from balance_invariant_reachable [OF this] show ?thesis by simp
qed

text \<open>C28. On a book whose balances satisfy the invariant, with non-negative prices,
  \<open>CalculateTotalEquity\<close> returns exactly when the intermediate products of every priced
  position fit in an \<open>int64\<close> and then returns the exact sum over the positions of
  amount times price divided by the quantity scale: splitting the amount into whole units
  and a remainder loses nothing, and the result does not depend on the order in which Go
  happens to iterate over the map.\<close>

theorem equity_exact:
  assumes "enumerates order bb" "book_ok bb" "\<forall>p \<in> ran prices. 0 \<le> sint p"
  shows "CalculateTotalEquity order prices bb = Inr r \<longleftrightarrow>
    (\<forall>k \<in> dom bb. position_fits bb prices k) \<and>
    sint r = (\<Sum>k \<in> dom bb. position_value bb prices k)"
proof -
  have order: "set order = dom bb" "distinct order"
    using assms(1) by (auto simp: enumerates_def)
  have sum: "(\<Sum>k\<leftarrow>order. position_value bb prices k) = (\<Sum>k \<in> dom bb. position_value bb prices k)"
    using order by (simp add: sum_list_distinct_conv_sum_set)
  have nonneg: "0 \<le> position_value bb prices k" for k
    using assms(2,3)
    by (fastforce simp: position_value_def book_ok_def ran_def bal_ok_def signed_divide_int_def
        sgn_if div_int_pos_iff split: option.splits)
  show ?thesis (is "?l \<longleftrightarrow> ?fits \<and> ?val")
  proof
    assume ?l
    then show "?fits \<and> ?val"
      using equity_loop_sound [of order prices bb 0 r] order(1) sum
      by (simp add: CalculateTotalEquity_def)
  next
    assume fits: "?fits \<and> ?val"
    then have "in_i64 (\<Sum>k\<leftarrow>order. position_value bb prices k)"
      using sum by (auto intro: sint_eq_in_i64)
    then obtain r' where r': "equity_loop order prices bb 0 = Inr r'"
      using equity_loop_complete [of order bb prices 0] fits nonneg order(1) by auto
    with equity_loop_sound [OF r'] fits sum show ?l
      by (simp add: CalculateTotalEquity_def i64_eq_iff)
  qed
qed

theorem equity_exact_witness:
  "CalculateTotalEquity [''BTC'', ''USDT''] [''BTC'' \<mapsto> 50000000000]
     [''BTC'' \<mapsto> (zero_balance ''BTC'')\<lparr>bal_AmountSats := 150000000\<rparr>,
      ''USDT'' \<mapsto> (zero_balance ''USDT'')\<lparr>bal_AmountSats := 3\<rparr>] = Inr 75000000000"
  (is "CalculateTotalEquity ?order ?prices ?bb = _")
proof -
  have dom: "dom ?bb = {''BTC'', ''USDT''}" by auto
  have "enumerates ?order ?bb" by (simp add: enumerates_def insert_commute)
  moreover have "book_ok ?bb"
    by (auto simp: book_ok_def bal_ok_def ran_def zero_balance_def split: if_splits)
  moreover have "\<forall>p \<in> ran ?prices. 0 \<le> sint p" by (simp add: ran_def)
  ultimately show ?thesis
    by (subst equity_exact)
      (simp_all add: dom position_fits_def position_value_def asset_fits_def in_i64_def
        signed_divide_int_def signed_modulo_int_def)
qed

text \<open>The guard against overflow does not reach the fractional part: a holding of
  0.99999999 BTC at a price of 100000 makes \<open>CalculateTotalEquity\<close> panic, although the
  value of the holding fits in an \<open>int64\<close> by a wide margin.\<close>

lemma equity_fraction_overflows:
  "CalculateTotalEquity [''BTC''] [''BTC'' \<mapsto> 100000000000]
     [''BTC'' \<mapsto> (zero_balance ''BTC'')\<lparr>bal_AmountSats := 99999999\<rparr>]
   = Inl CORE_SAFE_MUL_OVERFLOW \<and>
   position_value [''BTC'' \<mapsto> (zero_balance ''BTC'')\<lparr>bal_AmountSats := 99999999\<rparr>]
     [''BTC'' \<mapsto> 100000000000] ''BTC'' = 99999999000"
  by (simp add: CalculateTotalEquity_def asset_value_def safe_eval go_rem_def position_value_def)

end
