(* ===== verification/Strategy.thy ===== *)
theory Strategy
  imports Domain
begin

text \<open>
  The strategy interface, \<open>internal/strategy/interface.go\<close>. A strategy is a state and its
  \<open>OnMarketUpdate\<close>, which may also write the caller's order buffer and returns how many
  orders it wrote. The interface's comment promises that the number returned counts orders
  in the buffer; that is what the sequencer relies on when it walks \<open>orderBuf[0..count)\<close>.
\<close>

type_synonym 'st on_market =
  "market_state \<Rightarrow> 'st \<times> order list \<Rightarrow> ('st \<times> order list, nat) outcome"

locale strategy =
  fixes on_market :: "market_state \<Rightarrow> 'st \<times> order list \<Rightarrow> ('st \<times> order list, nat) outcome"
  assumes count_fits: "on_market m (s, out) = Done n (s', out') \<Longrightarrow>
      n \<le> length out' \<and> length out' = length out"
    and panic_keeps_buffer: "on_market m (s, out) = Panicked e (s', out') \<Longrightarrow> length out' = length out"
begin

lemma count_in_range:
  assumes "on_market m (s, out) = Done n (s', out')" "i < n"
  shows "index_get out' (int i) = Inr (out' ! i)"
  using count_fits [OF assms(1)] assms(2) by (simp add: index_get_def)

lemma buffer_length: "length (snd (final (on_market m (s, out)))) = length out"
  using count_fits [of m s out] panic_keeps_buffer [of m s out]
  by (cases "on_market m (s, out)") (auto simp: prod_eq_iff split: prod.splits)

end

end
