(* ===== verification/Sma_Cross.thy ===== *)
theory Sma_Cross
  imports Strategy
begin

text \<open>
  The SMA crossover strategy, \<open>internal/strategy/sma_cross.go\<close>. The strategy keeps its price window in a ring buffer with a running
  sum; \<open>OnMarketUpdate\<close> changes the strategy and the caller's order buffer, so its state is
  the pair of both. Go's \<open>int\<close> is only used here for periods, slice indexes and lengths;
  they stay between \<open>-1\<close> and the slice length, and are integers of the model. An index
  outside its slice is the run-time panic \<open>INDEX_OUT_OF_RANGE\<close>.

  The ring buffer refines the plain list of all prices received (\<open>sma_rel\<close>), on which the
  moving averages and the signals are stated directly.
\<close>

section \<open>State and operations\<close>

record sma_cross =
  sma_sum :: i64
  sma_prevShortSMA :: i64
  sma_prevLongSMA :: i64
  sma_prices :: "i64 list"
  sma_symbol :: string
  sma_shortPeriod :: int
  sma_longPeriod :: int
  sma_head :: int
  sma_count :: int

text \<open>\<open>make\<close> panics on a negative length; how much memory the platform can give is not modelled, so a
  length beyond the memory of the machine is taken to be allocated.\<close>

definition NewSMACrossStrategy :: "string \<Rightarrow> int \<Rightarrow> int \<Rightarrow> panic + sma_cross" where
  "NewSMACrossStrategy symbol shortPeriod longPeriod =
     (if longPeriod \<le> shortPeriod then Inl SMA_PERIODS_INVALID
      else if longPeriod < 0 then Inl MAKESLICE_LEN_OUT_OF_RANGE
      else Inr \<lparr>sma_sum = 0, sma_prevShortSMA = 0, sma_prevLongSMA = 0,
                sma_prices = replicate (nat longPeriod) 0, sma_symbol = symbol,
                sma_shortPeriod = shortPeriod, sma_longPeriod = longPeriod,
                sma_head = 0, sma_count = 0\<rparr>)"

text \<open>The update of the ring buffer: steps 2 of \<open>OnMarketUpdate\<close>.\<close>

definition drop_oldest :: "sma_cross \<Rightarrow> (sma_cross, unit) outcome" where
  "drop_oldest s =
     (if sma_count s = sma_longPeriod s
      then and_then (lift_panic (index_get (sma_prices s) (sma_head s)) s) (\<lambda>oldestPrice s.
           and_then (lift_panic (SafeSub (sma_sum s) oldestPrice) s) (\<lambda>d s.
           Done () (s\<lparr>sma_sum := d\<rparr>)))
      else Done () s)"

definition push_price :: "i64 \<Rightarrow> sma_cross \<Rightarrow> (sma_cross, unit) outcome" where
  "push_price currentPrice s =
     and_then (drop_oldest s) (\<lambda>_ s.
     and_then (lift_panic (index_set (sma_prices s) (sma_head s) currentPrice) s) (\<lambda>prices s.
     let s = s\<lparr>sma_prices := prices\<rparr> in
     and_then (lift_panic (SafeAdd (sma_sum s) currentPrice) s) (\<lambda>total s.
     let s = s\<lparr>sma_sum := total\<rparr> in
     if sma_longPeriod s = 0 then Panicked INTEGER_DIVIDE_BY_ZERO s
     else
       let s = s\<lparr>sma_head := (sma_head s + 1) smod sma_longPeriod s\<rparr> in
       Done () (if sma_count s < sma_longPeriod s then s\<lparr>sma_count := sma_count s + 1\<rparr> else s))))"

text \<open>The loop of \<open>calculateShortSMA\<close>, by the number of iterations left.\<close>

fun short_loop :: "nat \<Rightarrow> int \<Rightarrow> i64 \<Rightarrow> sma_cross \<Rightarrow> panic + i64" where
  "short_loop 0 idx acc s = Inr acc"
| "short_loop (Suc n) idx acc s =
     (let idx1 = idx - 1; idx2 = (if idx1 < 0 then sma_longPeriod s - 1 else idx1) in
      bind_panic (index_get (sma_prices s) idx2) (\<lambda>price.
      bind_panic (SafeAdd acc price) (\<lambda>acc'. short_loop n idx2 acc' s)))"

definition calculateShortSMA :: "sma_cross \<Rightarrow> panic + i64" where
  "calculateShortSMA s =
     bind_panic (short_loop (nat (sma_shortPeriod s)) (sma_head s) 0 s) (\<lambda>total.
     SafeDiv total (word_of_int (sma_shortPeriod s)))"

definition signal_order :: "string \<Rightarrow> string \<Rightarrow> i64 \<Rightarrow> order" where
  "signal_order symbol side currentPrice =
     zero_order\<lparr>ord_Symbol := symbol, ord_Side := side, ord_Type := ''MARKET'',
       ord_PriceMicros := currentPrice, ord_QtySats := 10000, ord_Status := ''NEW''\<rparr>"

definition emit :: "bool \<Rightarrow> order \<Rightarrow> order list \<times> nat \<Rightarrow> order list \<times> nat" where
  "emit cross ord r =
     (case r of (out, signalCount) \<Rightarrow>
        if cross \<and> signalCount < length out then (out[signalCount := ord], signalCount + 1)
        else (out, signalCount))"

definition cross_signals :: "sma_cross \<Rightarrow> i64 \<Rightarrow> i64 \<Rightarrow> i64 \<Rightarrow> order list \<Rightarrow> order list \<times> nat" where
  "cross_signals s currentPrice currShortSMA currLongSMA out =
     (if sma_prevShortSMA s \<noteq> 0 \<and> sma_prevLongSMA s \<noteq> 0
      then emit (sma_prevLongSMA s \<le>s sma_prevShortSMA s \<and> currShortSMA <s currLongSMA)
             (signal_order (sma_symbol s) ''SELL'' currentPrice)
           (emit (sma_prevShortSMA s \<le>s sma_prevLongSMA s \<and> currLongSMA <s currShortSMA)
             (signal_order (sma_symbol s) ''BUY'' currentPrice) (out, 0))
      else (out, 0))"

definition OnMarketUpdate ::
  "market_state \<Rightarrow> sma_cross \<times> order list \<Rightarrow> (sma_cross \<times> order list, nat) outcome" where
  "OnMarketUpdate state so =
     (case so of (s, out) \<Rightarrow>
       if ms_Symbol state \<noteq> sma_symbol s then Done 0 (s, out)
       else
         let currentPrice = ms_PriceMicros state in
         (case push_price currentPrice s of
            Panicked e s \<Rightarrow> Panicked e (s, out)
          | Done _ s \<Rightarrow>
              if sma_count s < sma_longPeriod s then Done 0 (s, out)
              else
                (case SafeDiv (sma_sum s) (word_of_int (sma_longPeriod s)) of
                   Inl e \<Rightarrow> Panicked e (s, out)
                 | Inr currLongSMA \<Rightarrow>
                     (case calculateShortSMA s of
                        Inl e \<Rightarrow> Panicked e (s, out)
                      | Inr currShortSMA \<Rightarrow>
                          (case cross_signals s currentPrice currShortSMA currLongSMA out of
                             (out, signalCount) \<Rightarrow>
                               Done signalCount
                                 (s\<lparr>sma_prevShortSMA := currShortSMA,
                                    sma_prevLongSMA := currLongSMA\<rparr>, out))))))"

definition OnOrderUpdate :: "order \<Rightarrow> sma_cross \<Rightarrow> sma_cross" where
  "OnOrderUpdate ord s = s"

section \<open>The strategy is an instance of the interface\<close>

lemma cross_signals_bounds:
  "cross_signals s x cs cl out = (out', n) \<Longrightarrow> length out' = length out \<and> n \<le> length out'"
  by (cases out) (auto simp: cross_signals_def emit_def split: if_splits)

interpretation sma: strategy OnMarketUpdate
  by unfold_locales
    (auto simp: OnMarketUpdate_def Let_def dest!: cross_signals_bounds
      split: if_splits outcome.splits sum.splits prod.splits)

section \<open>The strategy on the plain price history\<close>

definition moving_avg :: "nat \<Rightarrow> i64 list \<Rightarrow> int" where
  "moving_avg n h = sum_list (map sint (drop (length h - n) h)) div int n"

definition prev_avg :: "nat \<Rightarrow> nat \<Rightarrow> i64 list \<Rightarrow> int" where
  "prev_avg L n h = (if length h < L then 0 else moving_avg n h)"

definition cross_spec :: "nat \<Rightarrow> nat \<Rightarrow> i64 list \<Rightarrow> i64 \<Rightarrow> string option" where
  "cross_spec S L h x =
     (let ps = prev_avg L S h; pl = prev_avg L L h;
          cs = moving_avg S (h @ [x]); cl = moving_avg L (h @ [x]) in
      if ps = 0 \<or> pl = 0 then None
      else if ps \<le> pl \<and> cl < cs then Some ''BUY''
      else if pl \<le> ps \<and> cs < cl then Some ''SELL''
      else None)"

definition price_ok :: "nat \<Rightarrow> i64 \<Rightarrow> bool" where
  "price_ok L x \<longleftrightarrow> 0 \<le> sint x \<and> sint x \<le> 9223372036854775807 div int L"

abbreviation wsum :: "i64 list \<Rightarrow> nat \<Rightarrow> nat \<Rightarrow> int" where
  "wsum h a b \<equiv> \<Sum>k = a..<b. sint (h ! k)"

text \<open>The ring buffer holds the last \<open>L\<close> prices: price number \<open>k\<close> sits in slot \<open>k mod L\<close>.\<close>

definition sma_rel :: "nat \<Rightarrow> nat \<Rightarrow> string \<Rightarrow> sma_cross \<Rightarrow> i64 list \<Rightarrow> bool" where
  "sma_rel S L symbol s h \<longleftrightarrow>
     0 < S \<and> S < L \<and> in_i64 (int L) \<and>
     sma_symbol s = symbol \<and> sma_shortPeriod s = int S \<and> sma_longPeriod s = int L \<and>
     length (sma_prices s) = L \<and> sma_head s = int (length h mod L) \<and>
     sma_count s = int (min (length h) L) \<and>
     (\<forall>k < length h. length h - L \<le> k \<longrightarrow> sma_prices s ! (k mod L) = h ! k) \<and>
     sint (sma_sum s) = wsum h (length h - L) (length h) \<and>
     sint (sma_prevShortSMA s) = prev_avg L S h \<and> sint (sma_prevLongSMA s) = prev_avg L L h"

lemma wsum_drop: "sum_list (map sint (drop a h)) = wsum h a (length h)"
proof -
  have "sum_list (map sint (drop a h)) = (\<Sum>i = 0..<length h - a. sint (h ! (a + i)))"
    by (simp add: sum_list_sum_nth)
  also have "\<dots> = wsum h a (length h)"
    using sum.shift_bounds_nat_ivl [of "\<lambda>k. sint (h ! k)" 0 a "length h - a"]
    by (cases "a \<le> length h") (simp_all add: add.commute)
  finally show ?thesis .
qed

lemma moving_avg_wsum: "moving_avg n h = wsum h (length h - n) (length h) div int n"
  by (simp add: moving_avg_def wsum_drop)

lemma wsum_append [simp]: "b \<le> length h \<Longrightarrow> wsum (h @ [x]) a b = wsum h a b"
  by (intro sum.cong) (auto simp: nth_append)

lemma wsum_bounds:
  assumes "\<forall>p \<in> set h. price_ok L p" "b \<le> length h" "b - a \<le> L"
  shows "0 \<le> wsum h a b" "wsum h a b \<le> 9223372036854775807"
proof -
  have e: "0 \<le> sint (h ! k)" "sint (h ! k) \<le> 9223372036854775807 div int L" if "k \<in> {a..<b}" for k
    using assms(1,2) that nth_mem [of k h] by (auto simp: price_ok_def)
  show "0 \<le> wsum h a b" using e(1) by (rule sum_nonneg)
  have "wsum h a b \<le> of_nat (card {a..<b}) * (9223372036854775807 div int L)"
    by (rule sum_bounded_above) (use e(2) in auto)
  also have "\<dots> \<le> int L * (9223372036854775807 div int L)"
    using assms(3) by (intro mult_right_mono) (simp_all add: div_int_pos_iff)
  also have "\<dots> \<le> 9223372036854775807"
    by (cases "L = 0") (simp_all add: mult.commute [of "int L"] flip: le_div_iff_mult_le_int)
  finally show "wsum h a b \<le> 9223372036854775807" .
qed

lemma wsum_fits:
  assumes "\<forall>p \<in> set h. price_ok L p" "b \<le> length h" "b - a \<le> L"
  shows "in_i64 (wsum h a b)"
  using wsum_bounds [OF assms] by (simp add: in_i64_def)

section \<open>Each step of the code on the ring buffer\<close>

lemma mod_neq_in_window:
  assumes "k < n" "n < k + L" shows "k mod L \<noteq> n mod (L :: nat)"
proof
  assume "k mod L = n mod L"
  then have "L dvd n - k" using assms(1) by (metis less_imp_le mod_eq_dvd_iff_nat)
  with assms show False by (auto dest: dvd_imp_le)
qed

lemma drop_oldest_refines:
  assumes r: "sma_rel S L symbol s h" and p: "\<forall>p \<in> set h. price_ok L p"
  shows "\<exists>d. drop_oldest s = Done () (s\<lparr>sma_sum := d\<rparr>) \<and>
    sint d = wsum h (Suc (length h) - L) (length h)"
proof (cases "length h < L")
  case True
  then have "drop_oldest s = Done () (s\<lparr>sma_sum := sma_sum s\<rparr>)"
    using r by (simp add: drop_oldest_def sma_rel_def)
  moreover have "Suc (length h) - L = 0" "length h - L = 0" using True by auto
  then have "sint (sma_sum s) = wsum h (Suc (length h) - L) (length h)"
    using r by (simp add: sma_rel_def)
  ultimately show ?thesis by blast
next
  case False
  let ?n = "length h"
  have L: "0 < L" "length (sma_prices s) = L" using r by (auto simp: sma_rel_def)
  have "(?n - L) mod L = ?n mod L" using False by (metis le_add_diff_inverse2 mod_add_self2 not_less)
  then have old: "sma_prices s ! (?n mod L) = h ! (?n - L)"
    using r False L(1) by (auto simp: sma_rel_def dest!: spec [of _ "?n - L"])
  have split: "wsum h (?n - L) ?n = sint (h ! (?n - L)) + wsum h (Suc ?n - L) ?n"
    using False L(1) by (subst sum.atLeast_Suc_lessThan) (auto simp: Suc_diff_le)
  have fits: "in_i64 (wsum h (Suc ?n - L) ?n)" by (rule wsum_fits [OF p]) auto
  obtain d where d: "SafeSub (sma_sum s) (h ! (?n - L)) = Inr d" "sint d = wsum h (Suc ?n - L) ?n"
    using r fits split sub.returns_ex [of "sma_sum s" "h ! (?n - L)"]
    by (auto simp: sub.returns_iff sma_rel_def)
  then show ?thesis
    using r False L old by (auto simp: drop_oldest_def index_get_def sma_rel_def min_def)
qed

lemma push_price_refines:
  assumes r: "sma_rel S L symbol s h" and p: "\<forall>p \<in> set (h @ [x]). price_ok L p"
  shows "\<exists>t. push_price x s = Done () (s\<lparr>sma_sum := t,
      sma_prices := (sma_prices s)[length h mod L := x],
      sma_head := int (Suc (length h) mod L), sma_count := int (min (Suc (length h)) L)\<rparr>) \<and>
    sint t = wsum (h @ [x]) (Suc (length h) - L) (Suc (length h))"
proof -
  let ?n = "length h"
  have L: "0 < L" "length (sma_prices s) = L" "sma_head s = int (?n mod L)" "sma_longPeriod s = int L"
    "sma_count s = int (min ?n L)"
    using r by (auto simp: sma_rel_def)
  from drop_oldest_refines [OF r] p obtain d where
    d: "drop_oldest s = Done () (s\<lparr>sma_sum := d\<rparr>)" "sint d = wsum h (Suc ?n - L) ?n" by auto
  have w: "wsum (h @ [x]) (Suc ?n - L) (Suc ?n) = sint d + sint x"
    using d(2) L(1) by (subst sum.atLeastLessThan_Suc) auto
  moreover have "in_i64 (wsum (h @ [x]) (Suc ?n - L) (Suc ?n))" by (rule wsum_fits [OF p]) auto
  ultimately obtain t where t: "SafeAdd d x = Inr t" "sint t = sint d + sint x"
    using add.returns_ex [of d x] by (auto simp: add.returns_iff)
  have hd: "(int (?n mod L) + 1) smod int L = int (Suc ?n mod L)"
    using L(1) by (simp add: signed_modulo_int_def mod_Suc_eq sgn_if flip: of_nat_mod of_nat_Suc)
      (metis mod_Suc_eq of_nat_Suc of_nat_mod add.commute)
  have "push_price x s = Done () (s\<lparr>sma_sum := t,
      sma_prices := (sma_prices s)[?n mod L := x],
      sma_head := int (Suc ?n mod L), sma_count := int (min (Suc ?n) L)\<rparr>)"
    using L by (auto simp: push_price_def d index_set_def t Let_def hd min_def)
  with t w show ?thesis by auto
qed

lemma short_loop_refines:
  assumes len: "length (sma_prices s) = L" "sma_longPeriod s = int L" "0 < L"
    and ring: "\<forall>k < length h. length h - L \<le> k \<longrightarrow> sma_prices s ! (k mod L) = h ! k"
    and p: "\<forall>p \<in> set h. price_ok L p"
  shows "n \<le> m \<Longrightarrow> m \<le> length h \<Longrightarrow> length h - L \<le> m - n \<Longrightarrow> 
    sint acc = wsum h m (length h) \<Longrightarrow>
    \<exists>t. short_loop n (int (m mod L)) acc s = Inr t \<and> sint t = wsum h (m - n) (length h)"
proof (induction n arbitrary: m acc)
  case 0
  then show ?case by simp
next
  case (Suc n)
  then obtain m' where m: "m = Suc m'" by (cases m) auto
  have idx: "(if int (m mod L) - 1 < 0 then int L - 1 else int (m mod L) - 1) = int (m' mod L)"
    using len(3) by (auto simp: m mod_Suc)
  have get: "index_get (sma_prices s) (int (m' mod L)) = Inr (h ! m')"
    using len ring Suc.prems by (simp add: index_get_def m)
  have w: "wsum h m' (length h) = sint acc + sint (h ! m')"
    using Suc.prems by (subst sum.atLeast_Suc_lessThan) (auto simp: m)
  moreover have "in_i64 (wsum h m' (length h))"
    using Suc.prems by (intro wsum_fits [OF p]) (auto simp: m)
  ultimately obtain t where t: "SafeAdd acc (h ! m') = Inr t" "sint t = wsum h m' (length h)"
    using add.returns_ex [of acc "h ! m'"] by (auto simp: add.returns_iff)
  have "\<exists>u. short_loop n (int (m' mod L)) t s = Inr u \<and> sint u = wsum h (m' - n) (length h)"
    using Suc.prems t(2) by (intro Suc.IH) (auto simp: m)
  moreover have "short_loop (Suc n) (int (m mod L)) acc s = short_loop n (int (m' mod L)) t s"
    by (simp only: short_loop.simps Let_def len(2) idx get bind_panic.simps t(1))
  ultimately show ?case by (simp add: m)
qed

lemma avg_div:
  assumes "0 < n" "in_i64 (int n)" "0 \<le> sint t"
  shows "\<exists>q. SafeDiv t (word_of_int (int n)) = Inr q \<and> sint q = sint t div int n"
proof -
  have n: "sint (word_of_int (int n) :: i64) = int n" using assms(2) by (rule sint_of_int_i64)
  then have "SafeDiv t (word_of_int (int n)) = Inr (go_div t (word_of_int (int n)))"
    using assms(1) by (intro SafeDiv_pos) simp
  moreover have "sint (go_div t (word_of_int (int n))) = sint t div int n"
    using assms n by (subst sint_go_div) (auto simp: signed_divide_int_def sgn_if i64_eq_iff)
  ultimately show ?thesis by blast
qed

lemma calculateShortSMA_refines:
  assumes "0 < S" "S < L" "in_i64 (int L)" "L \<le> length h" "sma_shortPeriod s = int S"
    and "length (sma_prices s) = L" "sma_longPeriod s = int L" "sma_head s = int (length h mod L)"
    and "\<forall>k < length h. length h - L \<le> k \<longrightarrow> sma_prices s ! (k mod L) = h ! k"
    and p: "\<forall>p \<in> set h. price_ok L p"
  shows "\<exists>q. calculateShortSMA s = Inr q \<and> sint q = moving_avg S h"
proof -
  obtain t where t: "short_loop S (sma_head s) 0 s = Inr t" "sint t = wsum h (length h - S) (length h)"
    using short_loop_refines [OF assms(6,7) _ assms(9) p, of S "length h" 0] assms(1-4,8)
    by (auto simp: diff_le_mono2)
  have "0 \<le> sint t" using t(2) wsum_bounds(1) [OF p, of "length h" "length h - S"] assms(2,4) by simp
  moreover have "in_i64 (int S)" using assms(2,3) by (auto simp: in_i64_def)
  ultimately obtain q where "SafeDiv t (word_of_int (int S)) = Inr q" "sint q = sint t div int S"
    using avg_div [OF assms(1)] by blast
  with t show ?thesis by (simp add: calculateShortSMA_def assms(5) moving_avg_wsum)
qed

definition emitted :: "string \<Rightarrow> string option \<Rightarrow> i64 \<Rightarrow> order list \<Rightarrow> order list \<times> nat" where
  "emitted symbol side x out =
     (case side of
        None \<Rightarrow> (out, 0)
      | Some sd \<Rightarrow> if out = [] then ([], 0) else (out[0 := signal_order symbol sd x], 1))"

lemma cross_signals_spec:
  assumes "sint (sma_prevShortSMA s) = prev_avg L S h" "sint (sma_prevLongSMA s) = prev_avg L L h"
    and "sint cs = moving_avg S (h @ [x])" "sint cl = moving_avg L (h @ [x])"
  shows "cross_signals s x cs cl out = emitted (sma_symbol s) (cross_spec S L h x) x out"
  using assms
  by (auto simp: cross_signals_def emit_def emitted_def cross_spec_def Let_def word_sless_alt word_sle_eq
      i64_eq_iff [of "sma_prevShortSMA s"] i64_eq_iff [of "sma_prevLongSMA s"])

lemma OnMarketUpdate_refines:
  assumes r: "sma_rel S L (ms_Symbol m) s h"
    and p: "\<forall>p \<in> set (h @ [ms_PriceMicros m]). price_ok L p"
  shows "\<exists>s'. sma_rel S L (ms_Symbol m) s' (h @ [ms_PriceMicros m]) \<and>
    (case emitted (ms_Symbol m) (cross_spec S L h (ms_PriceMicros m)) (ms_PriceMicros m) out of
       (out', n) \<Rightarrow> OnMarketUpdate m (s, out) = Done n (s', out'))"
proof -
  let ?x = "ms_PriceMicros m" and ?h = "h @ [ms_PriceMicros m]" and ?n = "length h"
  have S: "0 < S" "S < L" "in_i64 (int L)" "sma_shortPeriod s = int S" "sma_longPeriod s = int L"
    "length (sma_prices s) = L" "sma_symbol s = ms_Symbol m"
    "sint (sma_prevShortSMA s) = prev_avg L S h" "sint (sma_prevLongSMA s) = prev_avg L L h"
    and ring: "\<forall>k < ?n. ?n - L \<le> k \<longrightarrow> sma_prices s ! (k mod L) = h ! k"
    using r by (auto simp: sma_rel_def)
  obtain t where t: "sint t = wsum ?h (Suc ?n - L) (Suc ?n)"
    and push: "push_price ?x s = Done () (s\<lparr>sma_sum := t,
      sma_prices := (sma_prices s)[?n mod L := ?x],
      sma_head := int (Suc ?n mod L), sma_count := int (min (Suc ?n) L)\<rparr>)"
    using push_price_refines [OF r p] by blast
  let ?s1 = "s\<lparr>sma_sum := t, sma_prices := (sma_prices s)[?n mod L := ?x],
      sma_head := int (Suc ?n mod L), sma_count := int (min (Suc ?n) L)\<rparr>"
  have ring1: "sma_prices ?s1 ! (k mod L) = ?h ! k" if "k < length ?h" "length ?h - L \<le> k" for k
  proof (cases "k = ?n")
    case True
    then show ?thesis using S(1,2,6) by simp
  next
    case False
    then have "k mod L \<noteq> ?n mod L" using that by (intro mod_neq_in_window) auto
    then show ?thesis using False that ring by (simp add: nth_append)
  qed
  show ?thesis
  proof (cases "Suc ?n < L")
    case True
    then have "sma_rel S L (ms_Symbol m) ?s1 ?h"
      using S t ring1 by (simp add: sma_rel_def prev_avg_def)
    moreover have "cross_spec S L h ?x = None" using True by (simp add: cross_spec_def prev_avg_def)
    moreover have "OnMarketUpdate m (s, out) = Done 0 (?s1, out)"
      using True S by (simp add: OnMarketUpdate_def push Let_def)
    ultimately show ?thesis by (auto simp: emitted_def)
  next
    case False
    have "\<exists>q. calculateShortSMA ?s1 = Inr q \<and> sint q = moving_avg S ?h"
      by (rule calculateShortSMA_refines [OF S(1-3)]) (use S(4-6) ring1 p False in simp_all)
    then obtain cs where cs: "calculateShortSMA ?s1 = Inr cs" "sint cs = moving_avg S ?h" by blast
    have "0 \<le> sint t" using t wsum_bounds(1) [OF p, of "Suc ?n" "Suc ?n - L"] by simp
    then obtain cl where cl: "SafeDiv t (word_of_int (int L)) = Inr cl" "sint cl = moving_avg L ?h"
      using avg_div [of L t] S(1-3) by (auto simp: moving_avg_wsum t)
    let ?s2 = "?s1\<lparr>sma_prevShortSMA := cs, sma_prevLongSMA := cl\<rparr>"
    have "sma_rel S L (ms_Symbol m) ?s2 ?h"
      using S t ring1 cs cl False by (simp add: sma_rel_def prev_avg_def)
    moreover have "cross_signals ?s1 ?x cs cl out = emitted (ms_Symbol m) (cross_spec S L h ?x) ?x out"
      using cross_signals_spec [of ?s1 L S h cs ?x cl out] S cs cl by simp
    then have "case emitted (ms_Symbol m) (cross_spec S L h ?x) ?x out of
        (out', n) \<Rightarrow> OnMarketUpdate m (s, out) = Done n (?s2, out')"
      using False S cs cl by (simp add: OnMarketUpdate_def push Let_def split: prod.splits)
    ultimately show ?thesis by (intro exI [of _ ?s2] conjI)
  qed
qed

lemma NewSMACrossStrategy_rel:
  assumes "0 < S" "S < L" "in_i64 (int L)"
  shows "\<exists>s. NewSMACrossStrategy symbol (int S) (int L) = Inr s \<and> sma_rel S L symbol s []"
  using assms by (auto simp: NewSMACrossStrategy_def sma_rel_def prev_avg_def)

section \<open>Runs of the strategy\<close>

fun sma_run ::
  "market_state list \<Rightarrow> sma_cross \<times> order list \<Rightarrow> order list list \<Rightarrow>
     (sma_cross \<times> order list, order list list) outcome" where
  "sma_run [] so acc = Done acc so"
| "sma_run (m # ms) so acc =
     and_then (OnMarketUpdate m so) (\<lambda>n so. sma_run ms so (acc @ [take n (snd so)]))"

fun signals_spec :: "nat \<Rightarrow> nat \<Rightarrow> string \<Rightarrow> i64 list \<Rightarrow> market_state list \<Rightarrow> order list list" where
  "signals_spec S L symbol h [] = []"
| "signals_spec S L symbol h (m # ms) =
     (if ms_Symbol m = symbol
      then (case cross_spec S L h (ms_PriceMicros m) of
              None \<Rightarrow> []
            | Some side \<Rightarrow> [signal_order symbol side (ms_PriceMicros m)])
           # signals_spec S L symbol (h @ [ms_PriceMicros m]) ms
      else [] # signals_spec S L symbol h ms)"

definition prices_of :: "string \<Rightarrow> market_state list \<Rightarrow> i64 list" where
  "prices_of symbol ms = map ms_PriceMicros (filter (\<lambda>m. ms_Symbol m = symbol) ms)"

lemma sma_run_refines:
  assumes "sma_rel S L symbol s h" "\<forall>p \<in> set (h @ prices_of symbol ms). price_ok L p" "out \<noteq> []"
  shows "\<exists>s' out'. sma_run ms (s, out) acc = Done (acc @ signals_spec S L symbol h ms) (s', out') \<and>
    sma_rel S L symbol s' (h @ prices_of symbol ms)"
  using assms
proof (induction ms arbitrary: s h out acc)
  case Nil
  then show ?case by (simp add: prices_of_def)
next
  case (Cons m ms)
  show ?case
  proof (cases "ms_Symbol m = symbol")
    case False
    then have "OnMarketUpdate m (s, out) = Done 0 (s, out)"
      using Cons.prems(1) by (simp add: OnMarketUpdate_def sma_rel_def)
    then show ?thesis
      using False Cons.IH [of s h out "acc @ [[]]"] Cons.prems by (simp add: prices_of_def)
  next
    case True
    let ?x = "ms_PriceMicros m" and ?c = "cross_spec S L h (ms_PriceMicros m)"
    have p: "\<forall>p \<in> set (h @ [?x]). price_ok L p"
      using Cons.prems(2) True by (simp add: prices_of_def)
    obtain s1 where r1: "sma_rel S L symbol s1 (h @ [?x])"
      and step: "OnMarketUpdate m (s, out) = Done (snd (emitted symbol ?c ?x out)) (s1, fst (emitted symbol ?c ?x out))"
      using OnMarketUpdate_refines [of S L m s h out] True Cons.prems(1) p
      by (auto simp: case_prod_beta)
    have e: "fst (emitted symbol ?c ?x out) \<noteq> []"
      "take (snd (emitted symbol ?c ?x out)) (fst (emitted symbol ?c ?x out)) =
        (case ?c of None \<Rightarrow> [] | Some side \<Rightarrow> [signal_order symbol side ?x])"
      using Cons.prems(3) by (cases out; auto simp: emitted_def split: option.splits)+
    have p1: "\<forall>p \<in> set ((h @ [?x]) @ prices_of symbol ms). price_ok L p"
      using Cons.prems(2) True by (simp add: prices_of_def)
    show ?thesis
      using Cons.IH [OF r1 p1 e(1), of "acc @ [take (snd (emitted symbol ?c ?x out)) (fst (emitted symbol ?c ?x out))]"]
        True e(2) step by (simp add: prices_of_def)
  qed
qed

lemma cross_spec_warmup: "length h < L \<Longrightarrow> cross_spec S L h x = None"
  by (simp add: cross_spec_def prev_avg_def)

lemma signals_spec_length [simp]: "length (signals_spec S L symbol h ms) = length ms"
  by (induction ms arbitrary: h) auto

lemma signals_spec_warmup:
  "length (h @ prices_of symbol ms) \<le> L \<Longrightarrow> \<forall>out \<in> set (signals_spec S L symbol h ms). out = []"
proof (induction ms arbitrary: h)
  case (Cons m ms)
  then show ?case
    using Cons.IH [of h] Cons.IH [of "h @ [ms_PriceMicros m]"]
    by (simp add: prices_of_def cross_spec_warmup split: if_splits)
qed simp

section \<open>Properties\<close>

text \<open>C6. The ring-buffer strategy computes the crossover strategy on the plain price history:
  for periods \<open>0 < S < L\<close>, a non-empty order buffer and prices of its symbol between 0 and
  the largest \<open>int64\<close> over \<open>L\<close>, it processes any sequence of market updates without a panic,
  ignores the updates of other symbols, and emits at each update exactly the signal that the
  averages of the last \<open>S\<close> and \<open>L\<close> prices, before and after the update, call for.\<close>

theorem sma_strategy_refines_history:
  assumes "0 < S" "S < L" "in_i64 (int L)" "out \<noteq> []"
    and "\<forall>p \<in> set (prices_of symbol ms). price_ok L p"
  shows "\<exists>s s' out'. NewSMACrossStrategy symbol (int S) (int L) = Inr s \<and>
    sma_run ms (s, out) [] = Done (signals_spec S L symbol [] ms) (s', out')"
proof -
  obtain s where s: "NewSMACrossStrategy symbol (int S) (int L) = Inr s" "sma_rel S L symbol s []"
    using NewSMACrossStrategy_rel [OF assms(1-3)] by blast
  then show ?thesis using sma_run_refines [OF s(2) _ assms(4), of ms "[]"] assms(5) by auto
qed

definition example_state :: "i64 \<Rightarrow> market_state" where
  "example_state p = \<lparr>ms_PriceMicros = p, ms_TotalQtySats = 0, ms_LastUpdateUnixM = 0, ms_Symbol = ''BTC''\<rparr>"

theorem sma_strategy_refines_history_witness:
  "\<exists>s s' out'. NewSMACrossStrategy ''BTC'' 1 2 = Inr s \<and>
    sma_run (map example_state [30, 20, 40, 10]) (s, [zero_order]) [] =
      Done [[], [], [signal_order ''BTC'' ''BUY'' 40], [signal_order ''BTC'' ''SELL'' 10]] (s', out')"
proof -
  have "signals_spec 1 2 ''BTC'' [] (map example_state [30, 20, 40, 10]) =
      [[], [], [signal_order ''BTC'' ''BUY'' 40], [signal_order ''BTC'' ''SELL'' 10]]"
    by (simp add: example_state_def cross_spec_def prev_avg_def moving_avg_def Let_def)
  moreover have "\<exists>s s' out'. NewSMACrossStrategy ''BTC'' (int 1) (int 2) = Inr s \<and>
    sma_run (map example_state [30, 20, 40, 10]) (s, [zero_order]) [] =
      Done (signals_spec 1 2 ''BTC'' [] (map example_state [30, 20, 40, 10])) (s', out')"
    by (rule sma_strategy_refines_history)
      (simp_all add: in_i64_def prices_of_def example_state_def price_ok_def)
  ultimately show ?thesis by simp
qed

text \<open>The strategy is silent while it warms up: the first \<open>L\<close> prices of its symbol never
  produce an order.\<close>

lemma sma_silent_during_warmup:
  assumes "0 < S" "S < L" "in_i64 (int L)" "out \<noteq> []"
    and "\<forall>p \<in> set (prices_of symbol ms). price_ok L p" "length (prices_of symbol ms) \<le> L"
    and "NewSMACrossStrategy symbol (int S) (int L) = Inr s"
  shows "\<exists>s' out'. sma_run ms (s, out) [] = Done (replicate (length ms) []) (s', out')"
proof -
  have "sma_rel S L symbol s []" using NewSMACrossStrategy_rel [OF assms(1-3), of symbol] assms(7) by auto
  from sma_run_refines [OF this _ assms(4), of ms "[]"] assms(5)
  obtain s' out' where "sma_run ms (s, out) [] = Done (signals_spec S L symbol [] ms) (s', out')" by auto
  moreover have "signals_spec S L symbol [] ms = replicate (length ms) []"
    using signals_spec_warmup [of "[]" symbol ms L S] assms(6) by (auto intro: replicate_eqI)
  ultimately show ?thesis by auto
qed

lemma sma_silent_during_warmup_witness:
  "\<exists>s s' out'. NewSMACrossStrategy ''BTC'' 1 2 = Inr s \<and>
    sma_run (map example_state [30, 50]) (s, [zero_order]) [] = Done [[], []] (s', out')"
proof -
  obtain s where s: "NewSMACrossStrategy ''BTC'' (int 1) (int 2) = Inr s"
    by (simp add: NewSMACrossStrategy_def)
  have "\<exists>s' out'. sma_run (map example_state [30, 50]) (s, [zero_order]) [] =
      Done (replicate (length (map example_state [30, 50])) []) (s', out')"
    by (rule sma_silent_during_warmup [OF _ _ _ _ _ _ s])
      (simp_all add: in_i64_def prices_of_def example_state_def price_ok_def)
  with s show ?thesis by (simp add: numeral_2_eq_2)
qed

text \<open>The constructor only rejects a short period that is not below the long one: with
  short period 0 it returns a strategy, which panics with a division by zero as soon as its
  window is full.\<close>

lemma sma_zero_short_period_panics:
  "\<exists>s s'. NewSMACrossStrategy ''BTC'' 0 1 = Inr s \<and>
     OnMarketUpdate (example_state 5) (s, [zero_order]) = Panicked CORE_SAFE_DIV_BY_ZERO (s', [zero_order])"
  by (simp add: NewSMACrossStrategy_def OnMarketUpdate_def example_state_def push_price_def drop_oldest_def
      index_set_def safe_eval Let_def calculateShortSMA_def)

end
