(* ===== verification/Sequencer.thy ===== *)
theory Sequencer
  imports Event_Store Balance Sma_Cross
begin

text \<open>
  \<open>internal/engine/sequencer.go\<close>: the single-threaded event processor, and
  \<open>backtest/replayer.go\<close>. The strategy behind the interface is a state and a parameter
  \<open>om\<close>, its \<open>OnMarketUpdate\<close>; the state-update callback, when there is one, is the log of the
  copies it was given. A method holds the mutex from start to end, so it is one step. Every
  step keeps the state it reached when it panics, since that is what \<open>DumpState\<close> and a restart
  see. The iteration order of the balance map and the faults of the database are arguments.
\<close>

section \<open>State\<close>

record 'st sequencer =
  sq_markets :: "string \<rightharpoonup> market_state"
  sq_nextSeq :: u64
  sq_store :: "event_store option"
  sq_strategy :: "'st option"
  sq_orderBuf :: "order list"
  sq_balanceBook :: balance_book
  sq_updates :: "market_state list option"

definition NewSequencer :: "event_store option \<Rightarrow> 'st option \<Rightarrow> bool \<Rightarrow> 'st sequencer" where
  "NewSequencer store strat onUpdate =
     \<lparr>sq_markets = Map.empty, sq_nextSeq = 1, sq_store = store, sq_strategy = strat,
      sq_orderBuf = replicate 16 zero_order, sq_balanceBook = NewBalanceBook,
      sq_updates = (if onUpdate then Some [] else None)\<rparr>"

section \<open>Market updates\<close>

definition zero_market_state :: "string \<Rightarrow> market_state" where
  "zero_market_state symbol =
     \<lparr>ms_PriceMicros = 0, ms_TotalQtySats = 0, ms_LastUpdateUnixM = 0, ms_Symbol = symbol\<rparr>"

definition handleStrategyAction :: "order \<Rightarrow> 'st sequencer \<Rightarrow> 'st sequencer" where
  "handleStrategyAction ord s = s"

text \<open>The loop over the signals written, from index \<open>i\<close> with \<open>n\<close> left.\<close>

fun action_loop :: "nat \<Rightarrow> nat \<Rightarrow> 'st sequencer \<Rightarrow> ('st sequencer, unit) outcome" where
  "action_loop 0 i s = Done () s"
| "action_loop (Suc n) i s =
     and_then (lift_panic (index_get (sq_orderBuf s) (int i)) s) (\<lambda>ord s.
     action_loop n (i + 1) (handleStrategyAction ord s))"

definition run_strategy ::
  "'st on_market \<Rightarrow> market_state \<Rightarrow> 'st sequencer \<Rightarrow> ('st sequencer, unit) outcome" where
  "run_strategy om state s =
     (case sq_strategy s of
        None \<Rightarrow> Done () s
      | Some st \<Rightarrow>
          (case om state (st, sq_orderBuf s) of
             Panicked e (st', buf) \<Rightarrow> Panicked e (s\<lparr>sq_strategy := Some st', sq_orderBuf := buf\<rparr>)
           | Done n (st', buf) \<Rightarrow> action_loop n 0 (s\<lparr>sq_strategy := Some st', sq_orderBuf := buf\<rparr>)))"

text \<open>The market state after the update, created when the symbol is new, and the callback.\<close>

definition updated_market :: "market_update \<Rightarrow> 'st sequencer \<Rightarrow> market_state" where
  "updated_market e s =
     (case sq_markets s (mu_Symbol e) of
        Some st \<Rightarrow> st
      | None \<Rightarrow> zero_market_state (mu_Symbol e))
       \<lparr>ms_PriceMicros := mu_PriceMicros e, ms_TotalQtySats := mu_QtySats e,
        ms_LastUpdateUnixM := mu_Ts e\<rparr>"

definition notify :: "market_state \<Rightarrow> 'st sequencer \<Rightarrow> 'st sequencer" where
  "notify state s =
     (case sq_updates s of
        None \<Rightarrow> s
      | Some us \<Rightarrow> s\<lparr>sq_updates := Some (us @ [state])\<rparr>)"

definition handleMarketUpdate ::
  "'st on_market \<Rightarrow> market_update \<Rightarrow> 'st sequencer \<Rightarrow> ('st sequencer, unit) outcome" where
  "handleMarketUpdate om e s =
     (let state = updated_market e s;
          s = s\<lparr>sq_markets := (sq_markets s)(mu_Symbol e \<mapsto> state)\<rparr>
      in and_then (run_strategy om state s) (\<lambda>_ s. Done () (notify state s)))"

section \<open>Live processing\<close>

primrec with_seq :: "u64 \<Rightarrow> event \<Rightarrow> event" where
  "with_seq n (MarketUpdate e) = MarketUpdate (e\<lparr>mu_Seq := n\<rparr>)"
| "with_seq n (OrderUpdate e) = OrderUpdate (e\<lparr>ou_Seq := n\<rparr>)"

definition persist :: "bool \<Rightarrow> event \<Rightarrow> 'st sequencer \<Rightarrow> ('st sequencer, unit) outcome" where
  "persist fault ev s =
     (case sq_store s of
        None \<Rightarrow> Done () s
      | Some st \<Rightarrow>
          (case SaveEvent fault ev st of
             (Some e, st') \<Rightarrow> Panicked (PERSISTENCE_FAILURE e) (s\<lparr>sq_store := Some st'\<rparr>)
           | (None, st') \<Rightarrow> Done () (s\<lparr>sq_store := Some st'\<rparr>)))"

primrec dispatch :: "'st on_market \<Rightarrow> event \<Rightarrow> 'st sequencer \<Rightarrow> ('st sequencer, unit) outcome" where
  "dispatch om (MarketUpdate e) s = handleMarketUpdate om e s"
| "dispatch om (OrderUpdate e) s = Done () s"

text \<open>The value returned is the event object after it went back to its pool.\<close>

primrec released :: "event \<Rightarrow> event" where
  "released (MarketUpdate e) = MarketUpdate (reset_market_update e)"
| "released (OrderUpdate e) = OrderUpdate (reset_order_update e)"

definition processEvent ::
  "'st on_market \<Rightarrow> bool \<Rightarrow> event \<Rightarrow> 'st sequencer \<Rightarrow> ('st sequencer, event) outcome" where
  "processEvent om fault ev s =
     (let ev = with_seq (sq_nextSeq s) ev in
      and_then (persist fault ev s) (\<lambda>_ s.
      and_then (dispatch om ev s) (\<lambda>_ s.
      Done (released ev) (s\<lparr>sq_nextSeq := sq_nextSeq s + 1\<rparr>))))"

section \<open>Replay and recovery\<close>

definition ReplayEvent ::
  "'st on_market \<Rightarrow> event \<Rightarrow> 'st sequencer \<Rightarrow> ('st sequencer, unit) outcome" where
  "ReplayEvent om ev s =
     (if GetSeq ev \<noteq> sq_nextSeq s then Panicked (REPLAY_GAP_DETECTED (sq_nextSeq s) (GetSeq ev)) s
      else and_then (dispatch om ev s) (\<lambda>_ s.
           Done () (s\<lparr>sq_nextSeq := sq_nextSeq s + 1\<rparr>)))"

fun replay_all :: "'st on_market \<Rightarrow> event list \<Rightarrow> 'st sequencer \<Rightarrow> ('st sequencer, unit) outcome" where
  "replay_all om [] s = Done () s"
| "replay_all om (ev # evs) s = and_then (ReplayEvent om ev s) (\<lambda>_ s. replay_all om evs s)"

definition RecoverFromWAL ::
  "'st on_market \<Rightarrow> string list \<Rightarrow> bool \<Rightarrow> db_fault \<Rightarrow> 'st sequencer \<Rightarrow>
     ('st sequencer, store_error option) outcome" where
  "RecoverFromWAL om order lastFault loadFault s =
     (case sq_store s of
        None \<Rightarrow> Done None s
      | Some st \<Rightarrow>
          (case GetLastSeq lastFault st of
             Inl e \<Rightarrow> Done (Some e) s
           | Inr lastSeq \<Rightarrow>
               if lastSeq = 0 then Done None s
               else
                 (case LoadEvents loadFault 1 st of
                    Inl e \<Rightarrow> Done (Some e) s
                  | Inr events \<Rightarrow>
                      and_then (replay_all om events s) (\<lambda>_ s.
                      and_then (lift_panic (VerifyAll order (sq_balanceBook s)) s) (\<lambda>_ s.
                      Done None s)))))"

definition ValidateSequence :: "u64 \<Rightarrow> 'st sequencer \<Rightarrow> ('st sequencer, unit) outcome" where
  "ValidateSequence evSeq s =
     (let expected = sq_nextSeq s in
      if evSeq = expected then Done () s
      else
        let diff = (evSeq - expected :: i64) in
        if diff <s 0 then Done () s
        else if 0 <s diff then
          (if diff \<le>s 10 then Done () (s\<lparr>sq_nextSeq := evSeq\<rparr>)
           else Panicked (SEQUENCE_GAP_FATAL expected evSeq) s)
        else Done () s)"

section \<open>The event loop\<close>

record state_dump =
  dump_NextSeq :: u64
  dump_Markets :: "string \<rightharpoonup> market_state"
  dump_Balances :: "string \<rightharpoonup> balance"

text \<open>The panic of \<open>VerifyAll\<close> is recovered inside \<open>DumpState\<close>, so it does not reach the dump.\<close>

definition DumpState :: "string list \<Rightarrow> 'st sequencer \<Rightarrow> state_dump" where
  "DumpState order s =
     \<lparr>dump_NextSeq = sq_nextSeq s, dump_Markets = sq_markets s,
      dump_Balances = Snapshot_book order (sq_balanceBook s) Map.empty\<rparr>"

text \<open>What the \<open>select\<close> of the loop sees next, and how a finite prefix of the run ends: \<open>Waiting\<close>
  is a loop that blocks for more input. The database fault of a received event goes with it.\<close>

datatype inbox_item = CtxDone | InboxClosed | Received bool event

datatype run_result = Stopped | Waiting | Halted state_dump

fun Run ::
  "'st on_market \<Rightarrow> string list \<Rightarrow> inbox_item list \<Rightarrow> 'st sequencer \<Rightarrow> run_result \<times> ('st sequencer, unit) outcome" where
  "Run om order [] s = (Waiting, Done () s)"
| "Run om order (CtxDone # items) s = (Stopped, Done () s)"
| "Run om order (InboxClosed # items) s = (Stopped, Done () s)"
| "Run om order (Received fault ev # items) s =
     (case processEvent om fault ev s of
        Panicked p s' \<Rightarrow> (Halted (DumpState order s'), Panicked (HALTED p) s')
      | Done _ s' \<Rightarrow> Run om order items s')"

section \<open>External reads\<close>

definition GetMarketState :: "string \<Rightarrow> 'st sequencer \<Rightarrow> market_state \<times> bool" where
  "GetMarketState symbol s =
     (case sq_markets s symbol of
        None \<Rightarrow> (zero_market_state [], False)
      | Some st \<Rightarrow> (st, True))"

definition GetNextSeq :: "'st sequencer \<Rightarrow> u64" where
  "GetNextSeq s = sq_nextSeq s"

definition BalanceBook :: "'st sequencer \<Rightarrow> balance_book" where
  "BalanceBook s = sq_balanceBook s"

definition GetMarketPrice :: "string \<Rightarrow> string \<Rightarrow> 'st sequencer \<Rightarrow> i64" where
  "GetMarketPrice exchange symbol s =
     (case sq_markets s (exchange @ '':'' @ symbol) of
        Some st \<Rightarrow> ms_PriceMicros st
      | None \<Rightarrow> 0)"

definition ProcessEventForTest ::
  "'st on_market \<Rightarrow> bool \<Rightarrow> event \<Rightarrow> 'st sequencer \<Rightarrow> ('st sequencer, event) outcome" where
  "ProcessEventForTest om fault ev s = processEvent om fault ev s"

section \<open>The replayer\<close>

record replayer =
  rp_store :: event_store

definition NewReplayer :: "open_step option \<Rightarrow> database \<Rightarrow> open_step + replayer" where
  "NewReplayer fault db =
     (case NewEventStore fault db of
        Inl e \<Rightarrow> Inl e
      | Inr store \<Rightarrow> Inr \<lparr>rp_store = store\<rparr>)"

text \<open>A replayer opened on the database an engine has written works on the engine's store.\<close>

lemma NewReplayer_reopens:
  "NewReplayer None \<lparr>db_events = Some (es_events st), db_metadata = Some (es_metadata st)\<rparr> = Inr \<lparr>rp_store = st\<rparr>"
  by (simp add: NewReplayer_def NewEventStore_def create_if_missing_def)

definition RunReplay ::
  "'st on_market \<Rightarrow> db_fault \<Rightarrow> event_store \<Rightarrow> 'st sequencer \<Rightarrow> ('st sequencer, store_error option) outcome" where
  "RunReplay om fault st s =
     (case LoadEvents fault 1 st of
        Inl e \<Rightarrow> Done (Some e) s
      | Inr events \<Rightarrow> and_then (replay_all om events s) (\<lambda>_ s. Done None s))"

datatype raw_error = RawQuery | RawScan i64 | RawUnmarshal

text \<open>One row of \<open>RunReplayRaw\<close>: the scan into \<open>uint64\<close> and \<open>uint16\<close> fails on values that do
  not fit; \<open>Inr None\<close> is \<open>continue\<close>.\<close>

definition decode_raw :: "event_row \<Rightarrow> raw_error + event option" where
  "decode_raw r =
     (if sint (row_id r) < 0 \<or> sint (row_type r) < 0 \<or> 65535 < sint (row_type r) then Inl (RawScan (row_id r))
      else if row_type r = 1 then
        (case decode_payload market_update_fields zero_market_update (row_payload r) of
           None \<Rightarrow> Inl RawUnmarshal
         | Some e \<Rightarrow> Inr (Some (MarketUpdate e)))
      else if row_type r = 2 then
        (case decode_payload order_update_fields zero_order_update (row_payload r) of
           None \<Rightarrow> Inl RawUnmarshal
         | Some e \<Rightarrow> Inr (Some (OrderUpdate e)))
      else Inr None)"

fun raw_loop ::
  "'st on_market \<Rightarrow> event_row list \<Rightarrow> 'st sequencer \<Rightarrow> ('st sequencer, raw_error option) outcome" where
  "raw_loop om [] s = Done None s"
| "raw_loop om (r # rs) s =
     (case decode_raw r of
        Inl e \<Rightarrow> Done (Some e) s
      | Inr None \<Rightarrow> raw_loop om rs s
      | Inr (Some ev) \<Rightarrow> and_then (ReplayEvent om ev s) (\<lambda>_ s. raw_loop om rs s))"

text \<open>When the database stops delivering rows, the loop just ends: \<open>rows.Err\<close> is not read.\<close>

definition RunReplayRaw ::
  "'st on_market \<Rightarrow> db_fault \<Rightarrow> event_store \<Rightarrow> 'st sequencer \<Rightarrow> ('st sequencer, raw_error option) outcome" where
  "RunReplayRaw om fault st s =
     (let rows = sort_key (\<lambda>r. sint (row_id r)) (es_events st) in
      case fault of
        StmtFault \<Rightarrow> Done (Some RawQuery) s
      | NoFault \<Rightarrow> raw_loop om rows s
      | RowsFault k \<Rightarrow> raw_loop om (take k rows) s)"

section \<open>Processing an event is persisting it and replaying it\<close>

abbreviation set_store :: "event_store option \<Rightarrow> 'st sequencer \<Rightarrow> 'st sequencer" where
  "set_store x s \<equiv> s\<lparr>sq_store := x\<rparr>"

abbreviation on_state :: "('s \<Rightarrow> 't) \<Rightarrow> ('s, 'a) outcome \<Rightarrow> ('t, 'a) outcome" where
  "on_state f \<equiv> map_outcome f id"

lemma action_loop_store: "action_loop n i (set_store x s) = on_state (set_store x) (action_loop n i s)"
  by (induction n arbitrary: i s) (auto simp: index_get_def handleStrategyAction_def)

lemma set_store_strategy:
  "(set_store x s)\<lparr>sq_strategy := a, sq_orderBuf := b\<rparr> = set_store x (s\<lparr>sq_strategy := a, sq_orderBuf := b\<rparr>)"
  by simp

lemma run_strategy_store: "run_strategy om m (set_store x s) = on_state (set_store x) (run_strategy om m s)"
proof (cases "sq_strategy s")
  case (Some st)
  show ?thesis
  proof (cases "om m (st, sq_orderBuf s)")
    case (Done n p)
    then show ?thesis
      unfolding run_strategy_def set_store_strategy
      by (cases p) (simp add: Some set_store_strategy action_loop_store)
  next
    case (Panicked e p)
    then show ?thesis by (cases p) (simp add: run_strategy_def Some)
  qed
qed (simp add: run_strategy_def)

lemma updated_market_store [simp]: "updated_market e (set_store x s) = updated_market e s"
  by (simp add: updated_market_def)

lemma notify_store [simp]: "notify m (set_store x s) = set_store x (notify m s)"
  by (simp add: notify_def split: option.splits)

lemma notify_keeps [simp]:
  "sq_nextSeq (notify m s) = sq_nextSeq s" "sq_store (notify m s) = sq_store s"
  "sq_balanceBook (notify m s) = sq_balanceBook s" "sq_markets (notify m s) = sq_markets s"
  "sq_strategy (notify m s) = sq_strategy s" "sq_orderBuf (notify m s) = sq_orderBuf s"
  by (simp_all add: notify_def split: option.splits)

lemma set_store_markets: "(set_store x s)\<lparr>sq_markets := m\<rparr> = set_store x (s\<lparr>sq_markets := m\<rparr>)"
  by simp

lemma handleMarketUpdate_store:
  "handleMarketUpdate om e (set_store x s) = on_state (set_store x) (handleMarketUpdate om e s)"
  unfolding handleMarketUpdate_def Let_def updated_market_store set_store_markets run_strategy_store
  by (cases "run_strategy om (updated_market e s)
      (s\<lparr>sq_markets := (sq_markets s)(mu_Symbol e \<mapsto> updated_market e s)\<rparr>)") simp_all

lemma dispatch_store: "dispatch om ev (set_store x s) = on_state (set_store x) (dispatch om ev s)"
  by (cases ev) (simp_all add: handleMarketUpdate_store)

lemma action_loop_keeps:
  "final (action_loop n i s) = s"
  by (induction n arbitrary: i s) (auto simp: index_get_def handleStrategyAction_def)

lemma run_strategy_keeps:
  "sq_nextSeq (final (run_strategy om m s)) = sq_nextSeq s \<and>
   sq_store (final (run_strategy om m s)) = sq_store s \<and>
   sq_markets (final (run_strategy om m s)) = sq_markets s \<and>
   sq_balanceBook (final (run_strategy om m s)) = sq_balanceBook s"
  by (simp add: run_strategy_def action_loop_keeps split: option.splits outcome.splits prod.splits)

lemma dispatch_keeps:
  "sq_nextSeq (final (dispatch om ev s)) = sq_nextSeq s \<and>
   sq_store (final (dispatch om ev s)) = sq_store s \<and>
   sq_balanceBook (final (dispatch om ev s)) = sq_balanceBook s"
proof (cases ev)
  case (MarketUpdate e)
  let ?m = "updated_market e s"
  let ?s = "s\<lparr>sq_markets := (sq_markets s)(mu_Symbol e \<mapsto> ?m)\<rparr>"
  show ?thesis
    using run_strategy_keeps [of om ?m ?s] MarketUpdate
    by (cases "run_strategy om ?m ?s") (simp_all add: handleMarketUpdate_def Let_def)
qed simp

lemma GetSeq_with_seq [simp]: "GetSeq (with_seq n ev) = n"
  by (cases ev) auto

lemma encoded_with_seq [simp]: "event_well_encoded (with_seq n ev) = event_well_encoded ev"
  by (cases ev) auto

lemma processEvent_step:
  assumes "sq_store s = Some st"
  shows "processEvent om fault ev s =
    (case SaveEvent fault (with_seq (sq_nextSeq s) ev) st of
       (Some e, st') \<Rightarrow> Panicked (PERSISTENCE_FAILURE e) s
     | (None, st') \<Rightarrow>
         map_outcome (set_store (Some st')) (\<lambda>_. released (with_seq (sq_nextSeq s) ev))
           (ReplayEvent om (with_seq (sq_nextSeq s) ev) (set_store x s)))"
proof -
  let ?ev = "with_seq (sq_nextSeq s) ev"
  obtain r st' where save: "SaveEvent fault ?ev st = (r, st')" by (cases "SaveEvent fault ?ev st")
  show ?thesis
  proof (cases r)
    case (Some e)
    then have "st' = st" using save wal.append_fails by blast
    with Some save assms show ?thesis by (simp add: processEvent_def Let_def persist_def)
  next
    case None
    have "dispatch om ?ev (set_store (Some st') s) = on_state (set_store (Some st')) (dispatch om ?ev s)"
      "dispatch om ?ev (set_store x s) = on_state (set_store x) (dispatch om ?ev s)"
      by (rule dispatch_store)+
    then show ?thesis
      using None save assms
      by (cases "dispatch om ?ev s") (auto simp: processEvent_def Let_def persist_def ReplayEvent_def)
  qed
qed

section \<open>Runs\<close>

fun process_all ::
  "'st on_market \<Rightarrow> (bool \<times> event) list \<Rightarrow> 'st sequencer \<Rightarrow> ('st sequencer, unit) outcome" where
  "process_all om [] s = Done () s"
| "process_all om ((fault, ev) # evs) s =
     and_then (processEvent om fault ev s) (\<lambda>_ s. process_all om evs s)"

fun stamped :: "u64 \<Rightarrow> (bool \<times> event) list \<Rightarrow> event list" where
  "stamped n [] = []"
| "stamped n ((fault, ev) # evs) = with_seq n ev # stamped (n + 1) evs"

lemma set_store_same [simp]: "sq_store s = x \<Longrightarrow> set_store x s = s"
  by (cases s) simp

lemma ReplayEvent_keeps:
  "sq_store (final (ReplayEvent om ev s)) = sq_store s \<and>
   sq_balanceBook (final (ReplayEvent om ev s)) = sq_balanceBook s"
  using dispatch_keeps [of om ev s]
  by (cases "dispatch om ev s") (simp_all add: ReplayEvent_def)

lemma ReplayEvent_Done:
  "ReplayEvent om ev s = Done u s' \<Longrightarrow> sq_nextSeq s' = sq_nextSeq s + 1"
  using dispatch_keeps [of om ev s]
  by (cases "dispatch om ev s") (auto simp: ReplayEvent_def split: if_splits)

lemma processEvent_Done:
  assumes "sq_store s = Some st" "processEvent om fault ev s = Done r s'"
  shows "\<exists>st'. SaveEvent fault (with_seq (sq_nextSeq s) ev) st = (None, st') \<and> sq_store s' = Some st' \<and>
    sq_nextSeq s' = sq_nextSeq s + 1 \<and>
    ReplayEvent om (with_seq (sq_nextSeq s) ev) (set_store x s) = Done () (set_store x s')"
proof -
  let ?ev = "with_seq (sq_nextSeq s) ev"
  obtain st' s1 where save: "SaveEvent fault ?ev st = (None, st')"
    and r: "ReplayEvent om ?ev (set_store x s) = Done () s1" and s': "s' = set_store (Some st') s1"
    using assms(2) unfolding processEvent_step [OF assms(1), of om fault ev x]
    by (cases "ReplayEvent om ?ev (set_store x s)") (auto split: prod.splits option.splits)
  have "sq_store s1 = x" using ReplayEvent_keeps [of om ?ev "set_store x s"] r by simp
  then have "set_store x s' = s1" by (simp add: s')
  then show ?thesis using save r s' ReplayEvent_Done [OF r] by simp
qed

lemma processEvent_Panicked:
  assumes "sq_store s = Some st" "processEvent om fault ev s = Panicked p s'"
    and "fst (SaveEvent fault (with_seq (sq_nextSeq s) ev) st) = None"
  shows "\<exists>st'. SaveEvent fault (with_seq (sq_nextSeq s) ev) st = (None, st') \<and> sq_store s' = Some st' \<and>
    ReplayEvent om (with_seq (sq_nextSeq s) ev) (set_store x s) = Panicked p (set_store x s')"
proof -
  let ?ev = "with_seq (sq_nextSeq s) ev"
  obtain st' s1 where save: "SaveEvent fault ?ev st = (None, st')"
    and r: "ReplayEvent om ?ev (set_store x s) = Panicked p s1" and s': "s' = set_store (Some st') s1"
    using assms(2,3) unfolding processEvent_step [OF assms(1), of om fault ev x]
    by (cases "ReplayEvent om ?ev (set_store x s)") (auto split: prod.splits option.splits)
  have "sq_store s1 = x" using ReplayEvent_keeps [of om ?ev "set_store x s"] r by simp
  then have "set_store x s' = s1" by (simp add: s')
  then show ?thesis using save r s' by simp
qed

lemma process_all_simulates:
  assumes "process_all om evs s = Done () s'" "sq_store s = Some st" "wal_ok (sq_nextSeq s) st"
    and "LoadEvents NoFault 1 st = Inr old" "\<forall>(f, ev) \<in> set evs. event_well_encoded ev"
  shows "\<exists>st'. sq_store s' = Some st' \<and> wal_ok (sq_nextSeq s') st' \<and>
    LoadEvents NoFault 1 st' = Inr (old @ stamped (sq_nextSeq s) evs) \<and>
    replay_all om (stamped (sq_nextSeq s) evs) (set_store x s) = Done () (set_store x s')"
  using assms
proof (induction evs arbitrary: s st old)
  case Nil
  then show ?case by simp
next
  case (Cons fe evs)
  obtain f ev where fe: "fe = (f, ev)" by (cases fe)
  let ?n = "sq_nextSeq s" and ?ev = "with_seq (sq_nextSeq s) ev"
  from Cons.prems(1) fe obtain r s1 where p: "processEvent om f ev s = Done r s1"
    and rest: "process_all om evs s1 = Done () s'" by (auto simp: outcome_simps)
  obtain st1 where save: "SaveEvent f ?ev st = (None, st1)" and st1: "sq_store s1 = Some st1"
    and n1: "sq_nextSeq s1 = ?n + 1"
    and rep: "ReplayEvent om ?ev (set_store x s) = Done () (set_store x s1)"
    using processEvent_Done [OF Cons.prems(2) p] by blast
  have w1: "wal_ok (sq_nextSeq s1) st1"
    using wal.append_ok [OF Cons.prems(3) GetSeq_with_seq save] n1 by simp
  have l1: "LoadEvents NoFault 1 st1 = Inr (old @ [?ev])"
    using wal.append_entries_encoded [OF Cons.prems(3) GetSeq_with_seq _ save Cons.prems(4)] Cons.prems(5) fe
    by simp
  show ?case
    using Cons.IH [OF rest st1 w1 l1] Cons.prems(5) fe rep n1 by auto
qed

lemma replay_all_keeps:
  "sq_balanceBook (final (replay_all om evs s)) = sq_balanceBook s"
proof (induction evs arbitrary: s)
  case (Cons ev evs)
  then show ?case
    using ReplayEvent_keeps [of om ev s] by (cases "ReplayEvent om ev s") simp_all
qed simp

lemma replay_all_append:
  "replay_all om (xs @ ys) s = and_then (replay_all om xs s) (\<lambda>_ s. replay_all om ys s)"
proof (induction xs arbitrary: s)
  case (Cons ev xs)
  then show ?case by (cases "ReplayEvent om ev s") simp_all
qed simp

text \<open>Recovery on a log that replays to a known outcome.\<close>

lemma RecoverFromWAL_eq:
  assumes "sq_store s = Some st" "wal_ok n st" "n \<noteq> 1" "LoadEvents NoFault 1 st = Inr evs"
    and "sq_balanceBook s = NewBalanceBook"
  shows "RecoverFromWAL om order False NoFault s = and_then (replay_all om evs s) (\<lambda>_ s. Done None s)"
proof -
  have last: "GetLastSeq False st = Inr (n - 1)" "n - 1 \<noteq> 0"
    using wal.last_seq_ok [OF assms(2)] assms(3) by simp_all
  have "VerifyAll order NewBalanceBook = Inr ()"
    by (induction order) (simp_all add: NewBalanceBook_def)
  then show ?thesis
    using assms last replay_all_keeps [of om evs s]
    by (cases "replay_all om evs s") (simp_all add: RecoverFromWAL_def)
qed

definition fresh_log :: "event_store \<Rightarrow> bool" where
  "fresh_log st \<longleftrightarrow> es_events st = []"

lemma fresh_log_ok: "fresh_log st \<Longrightarrow> wal_ok 1 st \<and> LoadEvents NoFault 1 st = Inr []"
  by (simp add: fresh_log_def wal_ok_def LoadEvents_def bind_uint64_def word_le_def select_from_def)

lemma NewSequencer_simps [simp]:
  "sq_store (NewSequencer st strat cb) = st" "sq_nextSeq (NewSequencer st strat cb) = 1"
  "sq_balanceBook (NewSequencer st strat cb) = NewBalanceBook"
  "sq_markets (NewSequencer st strat cb) = Map.empty"
  "set_store x (NewSequencer st strat cb) = NewSequencer x strat cb"
  by (simp_all add: NewSequencer_def)

lemma run_from_fresh:
  assumes "process_all om evs (NewSequencer (Some st) strat cb) = Done () s'" "fresh_log st"
    and "\<forall>(f, ev) \<in> set evs. event_well_encoded ev"
  shows "\<exists>st'. sq_store s' = Some st' \<and> wal_ok (sq_nextSeq s') st' \<and>
    LoadEvents NoFault 1 st' = Inr (stamped 1 evs) \<and>
    replay_all om (stamped 1 evs) (NewSequencer x strat cb) = Done () (set_store x s')"
  using process_all_simulates [OF assms(1), of st "[]" x] fresh_log_ok [OF assms(2)] assms(3) by simp

lemma nextSeq_from_fresh_eq_1:
  assumes "wal_ok 1 st" "LoadEvents NoFault 1 st = Inr (stamped 1 evs)"
  shows "evs = []"
proof -
  have "es_events st = []" using assms(1) by (simp add: wal_ok_def)
  then have "stamped 1 evs = []"
    using assms(2) by (simp add: LoadEvents_wal [OF assms(1)])
  then show ?thesis by (cases evs) auto
qed

lemma recovery_of_run:
  assumes "process_all om evs (NewSequencer (Some st) strat cb) = Done () s"
    and "es_events st = []" "\<forall>(f, ev) \<in> set evs. event_well_encoded ev"
  shows "RecoverFromWAL om order False NoFault (NewSequencer (sq_store s) strat cb) = Done None s"
proof -
  have fresh: "fresh_log st" using assms(2) by (simp add: fresh_log_def)
  obtain st' where st': "sq_store s = Some st'" "wal_ok (sq_nextSeq s) st'"
    "LoadEvents NoFault 1 st' = Inr (stamped 1 evs)"
    "replay_all om (stamped 1 evs) (NewSequencer (sq_store s) strat cb) = Done () (set_store (sq_store s) s)"
    using run_from_fresh [OF assms(1) fresh assms(3)] by blast
  show ?thesis
  proof (cases "sq_nextSeq s = 1")
    case True
    then have "evs = []" using nextSeq_from_fresh_eq_1 st'(2,3) by simp
    then have "s = NewSequencer (Some st) strat cb" using assms(1) by simp
    then show ?thesis using wal.last_seq_ok [OF st'(2)] st'(1) by (simp add: RecoverFromWAL_def)
  next
    case False
    show ?thesis
      using RecoverFromWAL_eq [of "NewSequencer (sq_store s) strat cb", OF _ st'(2) False st'(3)] st'(1,4)
      by simp
  qed
qed

section \<open>Properties\<close>

text \<open>C5. Recovery reproduces the live state: a sequencer that started on an empty log,
  processed any events without panicking and was then stopped is restored exactly (market
  states, next sequence number, strategy state, order buffer, balances, even the callbacks
  made) by \<open>RecoverFromWAL\<close> in a new sequencer with the same initial strategy on the same
  store.\<close>

theorem recovery_restores_live_state:
  assumes "process_all om evs (NewSequencer (Some st) strat cb) = Done () s"
    and "es_events st = []" "\<forall>(f, ev) \<in> set evs. event_well_encoded ev"
  shows "RecoverFromWAL om order False NoFault (NewSequencer (sq_store s) strat cb) = Done None s"
  by (rule recovery_of_run [OF assms])

lemma process_all_log:
  assumes "process_all om evs s = Done () s'" "sq_store s = Some st" "wal_ok (sq_nextSeq s) st"
  shows "\<exists>st'. sq_store s' = Some st' \<and> wal_ok (sq_nextSeq s') st' \<and>
    es_events st' = es_events st @ map event_row_of (stamped (sq_nextSeq s) evs) \<and>
    uint (sq_nextSeq s') = uint (sq_nextSeq s) + int (length evs)"
  using assms
proof (induction evs arbitrary: s st)
  case Nil
  then show ?case by simp
next
  case (Cons fe evs)
  obtain f ev where fe: "fe = (f, ev)" by (cases fe)
  let ?ev = "with_seq (sq_nextSeq s) ev"
  from Cons.prems(1) fe obtain r s1 where p: "processEvent om f ev s = Done r s1"
    and rest: "process_all om evs s1 = Done () s'" by (auto simp: outcome_simps)
  obtain st1 where save: "SaveEvent f ?ev st = (None, st1)" and st1: "sq_store s1 = Some st1"
    and n1: "sq_nextSeq s1 = sq_nextSeq s + 1"
    using processEvent_Done [OF Cons.prems(2) p] by blast
  have w1: "wal_ok (sq_nextSeq s1) st1"
    using wal.append_ok [OF Cons.prems(3) GetSeq_with_seq save] n1 by simp
  have "uint (sq_nextSeq s) < 9223372036854775808" using save by (simp add: SaveEvent_ok_iff)
  then have "uint (sq_nextSeq s1) = uint (sq_nextSeq s) + 1" by (simp add: n1 uint_word_ariths)
  then show ?case
    using Cons.IH [OF rest st1 w1] save fe n1 by (auto simp: SaveEvent_ok_iff)
qed

text \<open>An event that was logged and whose processing panicked panics again whenever the log is replayed.\<close>

lemma logged_panic_recovery:
  assumes "process_all om evs (NewSequencer (Some st) strat cb) = Done () s"
    and "es_events st = []" "\<forall>(f, ev) \<in> set evs. event_well_encoded ev" "event_well_encoded ev"
    and "processEvent om fault ev s = Panicked p s'" "sq_store s = Some st0"
    and "fst (SaveEvent fault (with_seq (sq_nextSeq s) ev) st0) = None"
  shows "RecoverFromWAL om order False NoFault (NewSequencer (sq_store s') strat cb) = Panicked p s'"
proof -
  let ?ev = "with_seq (sq_nextSeq s) ev" and ?x = "sq_store s'"
  have fresh: "fresh_log st" using assms(2) by (simp add: fresh_log_def)
  obtain st1 where st1: "sq_store s = Some st1" "wal_ok (sq_nextSeq s) st1"
    "LoadEvents NoFault 1 st1 = Inr (stamped 1 evs)"
    "replay_all om (stamped 1 evs) (NewSequencer ?x strat cb) = Done () (set_store ?x s)"
    using run_from_fresh [OF assms(1) fresh assms(3)] by blast
  obtain st' where save: "SaveEvent fault ?ev st1 = (None, st')" and st': "?x = Some st'"
    and rep: "ReplayEvent om ?ev (set_store ?x s) = Panicked p (set_store ?x s')"
    using processEvent_Panicked [OF assms(6,5,7), of ?x] st1(1) assms(6) by auto
  have w: "wal_ok (sq_nextSeq s + 1) st'" by (rule wal.append_ok [OF st1(2) GetSeq_with_seq save])
  have l: "LoadEvents NoFault 1 st' = Inr (stamped 1 evs @ [?ev])"
    using wal.append_entries_encoded [OF st1(2) GetSeq_with_seq _ save st1(3)] assms(4) by simp
  have "sq_nextSeq s + 1 \<noteq> 1" using st1(2) by (auto simp: wal_ok_def)
  then show ?thesis
    using RecoverFromWAL_eq [of "NewSequencer ?x strat cb", OF _ w _ l] st' st1(4) rep
    by (simp add: replay_all_append)
qed

text \<open>A poisonous event halts every restart: when processing an event panics after it was
  logged, \<open>RecoverFromWAL\<close> on that log panics with the same panic in the same state, each time
  it is tried.\<close>

lemma panicking_event_panics_on_recovery:
  assumes "process_all om evs (NewSequencer (Some st) strat cb) = Done () s"
    and "es_events st = []" "\<forall>(f, ev) \<in> set evs. event_well_encoded ev" "event_well_encoded ev"
    and "processEvent om fault ev s = Panicked p s'" "\<forall>e. p \<noteq> PERSISTENCE_FAILURE e"
  shows "RecoverFromWAL om order False NoFault (NewSequencer (sq_store s') strat cb) = Panicked p s'"
proof -
  have "wal_ok (sq_nextSeq (NewSequencer (Some st) strat cb)) st" using assms(2) fresh_log_ok [of st] by (simp add: fresh_log_def)
  then obtain st0 where st0: "sq_store s = Some st0" using process_all_log [OF assms(1)] by auto
  then have "fst (SaveEvent fault (with_seq (sq_nextSeq s) ev) st0) = None"
    using assms(5,6) processEvent_step [OF st0, of om fault ev None] by (cases "SaveEvent fault (with_seq (sq_nextSeq s) ev) st0") (auto split: option.splits)
  then show ?thesis by (rule logged_panic_recovery [OF assms(1-5) st0])
qed

text \<open>The log has no gaps: after any run from an empty log, the event table holds exactly one
  row per processed event, in order, numbered \<open>1, 2, 3, \<dots>\<close>, whatever sequence numbers the
  workers had put into the events, and the next sequence number is one more than their
  number.\<close>

lemma log_is_gap_free:
  assumes "process_all om evs (NewSequencer (Some st) strat cb) = Done () s" "es_events st = []"
  shows "\<exists>st'. sq_store s = Some st' \<and>
    map (\<lambda>r. sint (row_id r)) (es_events st') = [1..int (length evs)] \<and>
    es_events st' = map event_row_of (stamped 1 evs) \<and>
    uint (GetNextSeq s) = int (length evs) + 1"
proof -
  have "wal_ok 1 st" using assms(2) fresh_log_ok [of st] by (simp add: fresh_log_def)
  then obtain st' where "sq_store s = Some st'" "wal_ok (sq_nextSeq s) st'"
    "es_events st' = map event_row_of (stamped 1 evs)" "uint (sq_nextSeq s) = 1 + int (length evs)"
    using process_all_log [OF assms(1), of st] assms(2) by auto
  then show ?thesis by (auto simp: wal_ok_def GetNextSeq_def)
qed

text \<open>Write-ahead: when the event cannot be stored, the panic comes before anything else
  happened; the sequencer is exactly as before the event.\<close>

lemma persistence_failure_changes_nothing:
  assumes "sq_store s = Some st"
    and "SaveEvent fault (with_seq (sq_nextSeq s) ev) st = (Some e, st')"
  shows "processEvent om fault ev s = Panicked (PERSISTENCE_FAILURE e) s"
  by (simp add: processEvent_step [OF assms(1), of om fault ev None] assms(2))

section \<open>The market map\<close>

fun latest :: "string \<Rightarrow> (bool \<times> event) list \<Rightarrow> market_update option" where
  "latest symbol [] = None"
| "latest symbol ((f, ev) # evs) =
     (case latest symbol evs of
        Some e \<Rightarrow> Some e
      | None \<Rightarrow> (case ev of
          MarketUpdate e \<Rightarrow> if mu_Symbol e = symbol then Some e else None
        | OrderUpdate _ \<Rightarrow> None))"

definition state_of :: "market_update \<Rightarrow> market_state" where
  "state_of e = \<lparr>ms_PriceMicros = mu_PriceMicros e, ms_TotalQtySats = mu_QtySats e,
     ms_LastUpdateUnixM = mu_Ts e, ms_Symbol = mu_Symbol e\<rparr>"

definition markets_ok :: "'st sequencer \<Rightarrow> bool" where
  "markets_ok s \<longleftrightarrow> (\<forall>symbol m. sq_markets s symbol = Some m \<longrightarrow> ms_Symbol m = symbol)"

lemma updated_market_eq: "markets_ok s \<Longrightarrow> updated_market e s = state_of e"
  by (auto simp: updated_market_def markets_ok_def state_of_def zero_market_state_def split: option.splits)

lemma handleMarketUpdate_markets:
  assumes "handleMarketUpdate om e s = Done u s'"
  shows "sq_markets s' = (sq_markets s)(mu_Symbol e \<mapsto> updated_market e s)"
proof -
  let ?s = "s\<lparr>sq_markets := (sq_markets s)(mu_Symbol e \<mapsto> updated_market e s)\<rparr>"
  obtain s1 where "run_strategy om (updated_market e s) ?s = Done () s1" "s' = notify (updated_market e s) s1"
    using assms by (auto simp: handleMarketUpdate_def Let_def outcome_simps)
  then show ?thesis using run_strategy_keeps [of om "updated_market e s" ?s] by simp
qed

lemma updated_market_cong:
  "sq_markets s = sq_markets t \<Longrightarrow> updated_market (e\<lparr>mu_Seq := n\<rparr>) s = updated_market e t"
  by (simp add: updated_market_def split: option.splits)

lemma processEvent_markets:
  assumes "processEvent om f ev s = Done r s'"
  shows "sq_markets s' = (case ev of
      MarketUpdate e \<Rightarrow> (sq_markets s)(mu_Symbol e \<mapsto> updated_market e s)
    | OrderUpdate _ \<Rightarrow> sq_markets s)"
proof -
  obtain s1 s2 where p: "persist f (with_seq (sq_nextSeq s) ev) s = Done () s1"
    and d: "dispatch om (with_seq (sq_nextSeq s) ev) s1 = Done () s2" and s': "s' = s2\<lparr>sq_nextSeq := sq_nextSeq s2 + 1\<rparr>"
    using assms by (auto simp: processEvent_def Let_def outcome_simps)
  have m: "sq_markets s1 = sq_markets s"
    using p by (auto simp: persist_def split: option.splits prod.splits)
  show ?thesis
  proof (cases ev)
    case (MarketUpdate e)
    then have "handleMarketUpdate om (e\<lparr>mu_Seq := sq_nextSeq s\<rparr>) s1 = Done () s2" using d by simp
    from handleMarketUpdate_markets [OF this] show ?thesis
      using MarketUpdate s' m by (simp add: updated_market_cong [OF m])
  next
    case (OrderUpdate e)
    then show ?thesis using d s' m by simp
  qed
qed

lemma process_all_markets:
  assumes "process_all om evs s = Done () s'" "markets_ok s"
  shows "sq_markets s' symbol = (case latest symbol evs of
      None \<Rightarrow> sq_markets s symbol | Some e \<Rightarrow> Some (state_of e)) \<and> markets_ok s'"
  using assms
proof (induction evs arbitrary: s)
  case (Cons fe evs)
  obtain f ev where fe: "fe = (f, ev)" by (cases fe)
  from Cons.prems(1) fe obtain r s1 where p: "processEvent om f ev s = Done r s1"
    and rest: "process_all om evs s1 = Done () s'" by (auto simp: outcome_simps)
  note m1 = processEvent_markets [OF p] and ue = updated_market_eq [OF Cons.prems(2)]
  have ok: "markets_ok s1"
    using m1 Cons.prems(2) by (auto simp: markets_ok_def ue state_of_def split: event.splits if_splits)
  show ?case
    using Cons.IH [OF rest ok] m1 fe by (auto simp: ue split: option.splits event.splits)
qed simp

text \<open>C19. The market state of a symbol is the last update received for it: after any run of a
  new sequencer, \<open>GetMarketState\<close> gives the price, quantity and time of the last market update
  of that symbol, and reports the symbol as unknown if there was none.\<close>

theorem market_state_is_last_update:
  assumes "process_all om evs (NewSequencer store strat cb) = Done () s"
  shows "GetMarketState symbol s = (case latest symbol evs of
      None \<Rightarrow> (zero_market_state [], False)
    | Some e \<Rightarrow> (\<lparr>ms_PriceMicros = mu_PriceMicros e, ms_TotalQtySats = mu_QtySats e,
        ms_LastUpdateUnixM = mu_Ts e, ms_Symbol = mu_Symbol e\<rparr>, True))"
proof -
  have "markets_ok (NewSequencer store strat cb)" by (simp add: markets_ok_def)
  from process_all_markets [OF assms this, of symbol] show ?thesis
    by (simp add: GetMarketState_def state_of_def split: option.splits)
qed

text \<open>\<open>GetMarketPrice\<close> looks the price up under \<open>exchange:symbol\<close>, but the market map is
  keyed by the symbol alone: for events whose symbols contain no colon it always answers 0.\<close>

lemma market_price_always_zero:
  assumes "process_all om evs (NewSequencer store strat cb) = Done () s"
    and "\<forall>(f, ev) \<in> set evs. case ev of MarketUpdate e \<Rightarrow> CHR '':'' \<notin> set (mu_Symbol e) | OrderUpdate _ \<Rightarrow> True"
  shows "GetMarketPrice exchange symbol s = 0"
proof -
  have l: "latest key evs = Some e \<Longrightarrow> mu_Symbol e = key \<and> CHR '':'' \<notin> set key" for key e
    using assms(2) by (induction evs) (auto split: option.splits event.splits if_splits)
  have "markets_ok (NewSequencer store strat cb)" by (simp add: markets_ok_def)
  from process_all_markets [OF assms(1) this, of "exchange @ '':'' @ symbol"]
  show ?thesis using l by (force simp: GetMarketPrice_def split: option.splits)
qed

text \<open>The gap policy of \<open>ValidateSequence\<close>, for sequence numbers below \<open>2^63\<close>: the expected
  or an older number passes and changes nothing, a gap of at most ten is skipped by moving the
  next sequence number forward, and a larger gap panics.\<close>

lemma validate_sequence_policy:
  assumes "uint evSeq < 9223372036854775808" "uint (sq_nextSeq s) < 9223372036854775808"
  shows "ValidateSequence evSeq s =
    (if uint evSeq \<le> uint (sq_nextSeq s) then Done () s
     else if uint evSeq \<le> uint (sq_nextSeq s) + 10 then Done () (s\<lparr>sq_nextSeq := evSeq\<rparr>)
     else Panicked (SEQUENCE_GAP_FATAL (sq_nextSeq s) evSeq) s)"
proof -
  have e: "sint evSeq = uint evSeq" "sint (sq_nextSeq s) = uint (sq_nextSeq s)"
    using assms by (simp_all add: sint_eq_uint_i64)
  have "in_i64 (uint evSeq - uint (sq_nextSeq s))" using assms
    uint_ge_0 [of evSeq] uint_ge_0 [of "sq_nextSeq s"] unfolding in_i64_def by linarith
  then have d: "sint (evSeq - sq_nextSeq s :: i64) = uint evSeq - uint (sq_nextSeq s)"
    using e by (subst sint_diff_i64) simp_all
  have "evSeq = sq_nextSeq s \<longleftrightarrow> uint evSeq = uint (sq_nextSeq s)" by (simp add: word_uint_eq_iff)
  then show ?thesis by (auto simp: ValidateSequence_def Let_def word_sless_alt word_sle_eq d)
qed

text \<open>A panic stops the event loop for good: the run up to the panicking event is the run of
  its events one by one, the later events stay unprocessed, and the dump written is the state
  in which the panic happened.\<close>

lemma run_halts_with_dump:
  assumes "process_all om evs s = Done () s1" "processEvent om fault ev s1 = Panicked p s2"
  shows "Run om order (map (\<lambda>(f, ev). Received f ev) evs @ Received fault ev # rest) s =
    (Halted \<lparr>dump_NextSeq = sq_nextSeq s2, dump_Markets = sq_markets s2,
       dump_Balances = Snapshot_book order (sq_balanceBook s2) Map.empty\<rparr>,
     Panicked (HALTED p) s2)"
  using assms
proof (induction evs arbitrary: s)
  case Nil
  then show ?case by (simp add: DumpState_def)
next
  case (Cons fe evs)
  then show ?case by (cases fe) (auto simp: outcome_simps)
qed

section \<open>Replaying a log written by the sequencer\<close>

lemma decode_raw_event_row [simp]:
  "uint (GetSeq ev) < 9223372036854775808 \<Longrightarrow> decode_raw (event_row_of ev) = Inr (Some (event_coerced ev))"
  by (cases ev)
    (simp_all del: Marshal_event.simps add: decode_raw_def event_row_of_def decode_payload_def sint_eq_uint_i64
      EvMarketUpdate_def EvOrderUpdate_def Unmarshal_market_update Unmarshal_order_update not_less)

lemma raw_loop_events:
  "\<forall>ev \<in> set evs. uint (GetSeq ev) < 9223372036854775808 \<Longrightarrow>
    raw_loop om (map event_row_of evs) s = and_then (replay_all om (map event_coerced evs) s) (\<lambda>_ s. Done None s)"
proof (induction evs arbitrary: s)
  case (Cons ev evs)
  then show ?case by (cases "ReplayEvent om (event_coerced ev) s") simp_all
qed simp

lemma load_rows_events: "load_rows (map event_row_of evs) [] = Inr (map event_coerced evs)"
proof (induction evs)
  case (Cons ev evs)
  then show ?case using load_rows_append [of "[event_row_of ev]" "map event_row_of evs"] by simp
qed simp

text \<open>What a sequencer leaves in the event table.\<close>

lemma written_log:
  assumes "process_all om evs (NewSequencer (Some st) strat cb) = Done () s" "es_events st = []"
    and "sq_store s = Some log"
  shows "sort_key (\<lambda>r. sint (row_id r)) (es_events log) = map event_row_of (stamped 1 evs)"
    and "select_from 1 log = map event_row_of (stamped 1 evs)"
    and "\<forall>ev \<in> set (stamped 1 evs). uint (GetSeq ev) < 9223372036854775808"
proof -
  have "wal_ok 1 st" using assms(2) fresh_log_ok [of st] by (simp add: fresh_log_def)
  then have w: "wal_ok (sq_nextSeq s) log" and rows: "es_events log = map event_row_of (stamped 1 evs)"
    using process_all_log [OF assms(1), of st] assms(2,3) by auto
  have "sort_key (\<lambda>r. sint (row_id r)) (es_events log) = es_events log"
    using w by (intro sort_key_id_if_sorted) (simp add: wal_ok_def)
  then show "sort_key (\<lambda>r. sint (row_id r)) (es_events log) = map event_row_of (stamped 1 evs)"
    and "select_from 1 log = map event_row_of (stamped 1 evs)"
    using rows wal_ok_select [OF w] by simp_all
  show "\<forall>ev \<in> set (stamped 1 evs). uint (GetSeq ev) < 9223372036854775808"
  proof
    fix ev assume "ev \<in> set (stamped 1 evs)"
    then have "event_row_of ev \<in> set (es_events log)" by (simp add: rows)
    from wal_ok_id_pos [OF w this] show "uint (GetSeq ev) < 9223372036854775808"
      using uint_eq_sint_i64 [of "GetSeq ev"] by (simp add: event_row_of_def)
  qed
qed

text \<open>C40. The two replay loops of the back-tester agree on every log a sequencer has written, in
  the state they reach, in panicking and in reporting no error.\<close>

theorem replay_loops_agree:
  assumes "process_all om evs (NewSequencer (Some st) strat cb) = Done () s" "es_events st = []"
    and "sq_store s = Some log"
  shows "(\<forall>u. RunReplay om' NoFault log t = Done None u \<longleftrightarrow> RunReplayRaw om' NoFault log t = Done None u) \<and>
    (\<forall>p u. RunReplay om' NoFault log t = Panicked p u \<longleftrightarrow> RunReplayRaw om' NoFault log t = Panicked p u) \<and>
    (\<forall>e u. RunReplay om' NoFault log t \<noteq> Done (Some e) u) \<and>
    (\<forall>e u. RunReplayRaw om' NoFault log t \<noteq> Done (Some e) u)"
proof -
  note l = written_log [OF assms]
  have "RunReplayRaw om' NoFault log t = and_then (replay_all om' (map event_coerced (stamped 1 evs)) t) (\<lambda>_ s. Done None s)"
    by (simp add: RunReplayRaw_def Let_def l(1) raw_loop_events [OF l(3)])
  moreover have "RunReplay om' NoFault log t = and_then (replay_all om' (map event_coerced (stamped 1 evs)) t) (\<lambda>_ s. Done None s)"
    by (simp add: RunReplay_def LoadEvents_def bind_uint64_def word_le_def l(2) load_rows_events)
  ultimately show ?thesis
    by (cases "replay_all om' (map event_coerced (stamped 1 evs)) t") simp_all
qed

section \<open>Witnesses\<close>

definition example_events :: "(bool \<times> event) list" where
  "example_events = [(False, example_event 7 5), (False, example_event 0 6)]"

definition example_seq :: "sma_cross sequencer" where
  "example_seq = NewSequencer (Some empty_store) None True"

lemmas run_eval = processEvent_def persist_def SaveEvent_def bind_uint64_def event_row_of_def
  handleMarketUpdate_def updated_market_def run_strategy_def notify_def NewSequencer_def
  zero_market_state_def Let_def word_le_def

lemma example_run:
  "\<exists>s. process_all OnMarketUpdate example_events example_seq = Done () s \<and> sq_nextSeq s = 3"
  by (simp add: example_events_def example_event_def example_seq_def empty_store_def run_eval)

lemma example_encoded: "\<forall>(f, ev) \<in> set example_events. event_well_encoded ev"
  by (simp add: example_events_def)

theorem recovery_restores_live_state_witness:
  "\<exists>s. process_all OnMarketUpdate example_events example_seq = Done () s \<and> sq_nextSeq s = 3 \<and>
    RecoverFromWAL OnMarketUpdate [] False NoFault (NewSequencer (sq_store s) None True) = Done None s"
proof -
  obtain s where s: "process_all OnMarketUpdate example_events example_seq = Done () s" "sq_nextSeq s = 3"
    using example_run by blast
  then show ?thesis
    using recovery_restores_live_state [OF s(1) [unfolded example_seq_def] _ example_encoded]
    by (simp add: empty_store_def)
qed

lemma log_is_gap_free_witness:
  "\<exists>s st. process_all OnMarketUpdate example_events example_seq = Done () s \<and> sq_store s = Some st \<and>
    map (\<lambda>r. sint (row_id r)) (es_events st) = [1, 2]"
proof -
  obtain s where s: "process_all OnMarketUpdate example_events example_seq = Done () s"
    using example_run by blast
  then show ?thesis
    using log_is_gap_free [OF s [unfolded example_seq_def]]
    by (auto simp: empty_store_def example_events_def upto.simps)
qed

definition poison_strategy :: sma_cross where
  "poison_strategy = \<lparr>sma_sum = 0, sma_prevShortSMA = 0, sma_prevLongSMA = 0, sma_prices = [0],
     sma_symbol = ''BTC'', sma_shortPeriod = 0, sma_longPeriod = 1, sma_head = 0, sma_count = 0\<rparr>"

lemma poison_panics:
  "\<exists>s'. processEvent OnMarketUpdate False (example_event 0 5)
     (NewSequencer (Some empty_store) (Some poison_strategy) True) = Panicked CORE_SAFE_DIV_BY_ZERO s'"
  by (simp add: example_event_def empty_store_def run_eval poison_strategy_def OnMarketUpdate_def
      push_price_def drop_oldest_def index_set_def safe_eval calculateShortSMA_def)

lemma panicking_event_panics_on_recovery_witness:
  "NewSMACrossStrategy ''BTC'' 0 1 = Inr poison_strategy \<and>
   (\<exists>s'. processEvent OnMarketUpdate False (example_event 0 5)
       (NewSequencer (Some empty_store) (Some poison_strategy) True) = Panicked CORE_SAFE_DIV_BY_ZERO s' \<and>
     RecoverFromWAL OnMarketUpdate [] False NoFault (NewSequencer (sq_store s') (Some poison_strategy) True)
       = Panicked CORE_SAFE_DIV_BY_ZERO s')"
proof -
  obtain s' where p: "processEvent OnMarketUpdate False (example_event 0 5)
     (NewSequencer (Some empty_store) (Some poison_strategy) True) = Panicked CORE_SAFE_DIV_BY_ZERO s'"
    using poison_panics by blast
  have "RecoverFromWAL OnMarketUpdate [] False NoFault (NewSequencer (sq_store s') (Some poison_strategy) True)
      = Panicked CORE_SAFE_DIV_BY_ZERO s'"
    by (rule panicking_event_panics_on_recovery [where evs = "[]" and st = empty_store, OF _ _ _ _ p])
      (simp_all add: empty_store_def)
  with p show ?thesis by (auto simp: NewSMACrossStrategy_def poison_strategy_def)
qed

lemma persistence_failure_changes_nothing_witness:
  "processEvent OnMarketUpdate True (example_event 0 5) example_seq =
    Panicked (PERSISTENCE_FAILURE (FailedToInsert EngineFault)) example_seq"
  by (rule persistence_failure_changes_nothing [where st = empty_store])
    (simp_all add: example_seq_def example_event_def SaveEvent_def bind_uint64_def word_le_def)

theorem market_state_is_last_update_witness:
  "\<exists>s. process_all OnMarketUpdate example_events example_seq = Done () s \<and>
    ms_PriceMicros (fst (GetMarketState ''BTC'' s)) = 6 \<and> snd (GetMarketState ''ETH'' s) = False"
proof -
  obtain s where s: "process_all OnMarketUpdate example_events example_seq = Done () s"
    using example_run by blast
  then show ?thesis
    using market_state_is_last_update [OF s [unfolded example_seq_def], of "''BTC''"]
      market_state_is_last_update [OF s [unfolded example_seq_def], of "''ETH''"]
    by (simp add: example_events_def example_event_def)
qed

lemma market_price_always_zero_witness:
  "\<exists>s. process_all OnMarketUpdate example_events example_seq = Done () s \<and>
    GetMarketPrice ''UPBIT'' ''BTC'' s = 0"
proof -
  obtain s where s: "process_all OnMarketUpdate example_events example_seq = Done () s"
    using example_run by blast
  then show ?thesis
    using market_price_always_zero [OF s [unfolded example_seq_def], of "''UPBIT''" "''BTC''"]
    by (simp add: example_events_def example_event_def)
qed

lemma validate_sequence_policy_witness:
  "ValidateSequence 12 example_seq = Panicked (SEQUENCE_GAP_FATAL 1 12) example_seq \<and>
   ValidateSequence 11 example_seq = Done () (example_seq\<lparr>sq_nextSeq := 11\<rparr>)"
  using validate_sequence_policy [of 12 example_seq] validate_sequence_policy [of 11 example_seq]
  by (simp add: example_seq_def)

lemma run_halts_with_dump_witness:
  "\<exists>s'. Run OnMarketUpdate [] [Received False (example_event 0 5), Received False (example_event 0 6)]
     (NewSequencer (Some empty_store) (Some poison_strategy) True) =
     (Halted \<lparr>dump_NextSeq = sq_nextSeq s', dump_Markets = sq_markets s', dump_Balances = Map.empty\<rparr>,
      Panicked (HALTED CORE_SAFE_DIV_BY_ZERO) s')"
proof -
  obtain s' where p: "processEvent OnMarketUpdate False (example_event 0 5)
     (NewSequencer (Some empty_store) (Some poison_strategy) True) = Panicked CORE_SAFE_DIV_BY_ZERO s'"
    using poison_panics by blast
  show ?thesis
    using run_halts_with_dump [where evs = "[]" and order = "[]" and rest = "[Received False (example_event 0 6)]",
        OF _ p] by simp
qed

theorem replay_loops_agree_witness:
  "\<exists>s log. process_all OnMarketUpdate example_events example_seq = Done () s \<and> sq_store s = Some log \<and>
    (\<forall>u. RunReplay OnMarketUpdate NoFault log (NewSequencer None None True) = Done None u \<longleftrightarrow>
         RunReplayRaw OnMarketUpdate NoFault log (NewSequencer None None True) = Done None u)"
proof -
  obtain s where s: "process_all OnMarketUpdate example_events example_seq = Done () s"
    using example_run by blast
  obtain log where log: "sq_store s = Some log"
    using process_all_log [OF s] fresh_log_ok [of empty_store]
    by (auto simp: example_seq_def fresh_log_def empty_store_def)
  show ?thesis
    using replay_loops_agree [where om' = OnMarketUpdate and t = "NewSequencer None None True",
        OF s [unfolded example_seq_def] _ log] s log
    by (simp add: empty_store_def)
qed

section \<open>Where replay and the log disagree\<close>

definition unknown_row :: event_row where
  "unknown_row = \<lparr>row_id = 1, row_type = 3, row_ts = 0, row_payload = Json (JObj [])\<rparr>"

text \<open>Rows of a type the loader does not know are skipped without a trace, so a log with a
  balance event (type 3) in it cannot be recovered: the next event is refused as a gap.\<close>

lemma skipped_row_breaks_recovery:
  "RecoverFromWAL OnMarketUpdate [] False NoFault
     (NewSequencer (Some (empty_store\<lparr>es_events := [unknown_row, event_row_of (example_event 2 5)]\<rparr>)) None True) =
   Panicked (REPLAY_GAP_DETECTED 1 2)
     (NewSequencer (Some (empty_store\<lparr>es_events := [unknown_row, event_row_of (example_event 2 5)]\<rparr>)) None True)"
proof -
  let ?st = "empty_store\<lparr>es_events := [unknown_row, event_row_of (example_event 2 5)]\<rparr>"
  have ids: "row_id unknown_row = 1" "row_id (event_row_of (example_event 2 5)) = 2"
    by (simp_all add: unknown_row_def event_row_of_def example_event_def)
  have "select_from 1 ?st = [unknown_row, event_row_of (example_event 2 5)]"
    by (simp add: select_from_def ids word_sle_eq)
  moreover have "decode_row unknown_row = Inr None"
    by (simp add: decode_row_def unknown_row_def Let_def EvMarketUpdate_def EvOrderUpdate_def)
  ultimately have "LoadEvents NoFault 1 ?st = Inr [example_event 2 5]"
    by (simp add: LoadEvents_def bind_uint64_def word_le_def)
  moreover have "GetLastSeq False ?st = Inr 2" by (simp add: GetLastSeq_def ids)
  ultimately show ?thesis
    by (simp add: RecoverFromWAL_def ReplayEvent_def) (simp add: example_event_def)
qed

text \<open>\<open>RunReplayRaw\<close> does not look at \<open>rows.Err\<close>: when the database stops delivering after
  \<open>k\<close> rows, it reports success after replaying the first \<open>k\<close> events only, where \<open>RunReplay\<close>
  reports the error and replays nothing.\<close>

lemma raw_replay_hides_truncation:
  assumes "process_all om evs (NewSequencer (Some st) strat cb) = Done () s" "es_events st = []"
    and "sq_store s = Some log"
  shows "RunReplayRaw om' (RowsFault k) log t =
      and_then (replay_all om' (map event_coerced (take k (stamped 1 evs))) t) (\<lambda>_ u. Done None u) \<and>
    RunReplay om' (RowsFault k) log t = Done (Some (RowsIterationError EngineFault)) t"
proof -
  note l = written_log [OF assms]
  have "\<forall>ev \<in> set (take k (stamped 1 evs)). uint (GetSeq ev) < 9223372036854775808"
    using l(3) by (auto dest: in_set_takeD)
  then show ?thesis
    using load_rows_events [of "take k (stamped 1 evs)"] l(1,2)
    by (simp add: RunReplayRaw_def RunReplay_def LoadEvents_def bind_uint64_def word_le_def Let_def
        take_map raw_loop_events)
qed

lemma raw_replay_hides_truncation_witness:
  "\<exists>s log. process_all OnMarketUpdate example_events example_seq = Done () s \<and> sq_store s = Some log \<and>
    RunReplayRaw OnMarketUpdate (RowsFault 0) log example_seq = Done None example_seq"
proof -
  obtain s where s: "process_all OnMarketUpdate example_events example_seq = Done () s"
    using example_run by blast
  obtain log where log: "sq_store s = Some log"
    using process_all_log [OF s] fresh_log_ok [of empty_store]
    by (auto simp: example_seq_def fresh_log_def empty_store_def)
  show ?thesis
    using raw_replay_hides_truncation [where om' = OnMarketUpdate and t = example_seq and k = 0,
        OF s [unfolded example_seq_def] _ log] s log
    by (simp add: empty_store_def)
qed

section \<open>The sequencer and its strategy\<close>

lemma action_loop_returns: "i + n \<le> length (sq_orderBuf s) \<Longrightarrow> action_loop n i s = Done () s"
  by (induction n arbitrary: i) (simp_all add: index_get_def handleStrategyAction_def)

context strategy
begin

lemma run_strategy_returns:
  assumes "sq_strategy s = Some st" "on_market m (st, sq_orderBuf s) = Done n (st', buf)"
  shows "run_strategy on_market m s = Done () (s\<lparr>sq_strategy := Some st', sq_orderBuf := buf\<rparr>)"
  using assms count_fits [OF assms(2)] by (simp add: run_strategy_def action_loop_returns)

lemma run_strategy_keeps_buffer:
  "length (sq_orderBuf (final (run_strategy on_market m s))) = length (sq_orderBuf s)"
proof (cases "sq_strategy s")
  case (Some st)
  then show ?thesis
    using buffer_length [of m st "sq_orderBuf s"]
    by (auto simp: run_strategy_def action_loop_keeps split: outcome.splits prod.splits)
qed (simp add: run_strategy_def)

end

lemma processEvent_returns:
  assumes "sq_store s = Some st" "wal_ok (sq_nextSeq s) st" "uint (sq_nextSeq s) < 9223372036854775808"
    and "dispatch om (with_seq (sq_nextSeq s) ev) (set_store x s) = Done () t" 
  shows "\<exists>s' st' r. processEvent om False ev s = Done r s' \<and> sq_store s' = Some st' \<and> wal_ok (sq_nextSeq s') st' \<and>
    uint (sq_nextSeq s') = uint (sq_nextSeq s) + 1 \<and> sq_strategy s' = sq_strategy t \<and>
    sq_orderBuf s' = sq_orderBuf t \<and> sq_markets s' = sq_markets t"
proof -
  let ?ev = "with_seq (sq_nextSeq s) ev"
  have "row_id r \<noteq> sq_nextSeq s" if "r \<in> set (es_events st)" for r
  proof -
    have "sint (row_id r) \<in> set (map (\<lambda>r. sint (row_id r)) (es_events st))" using that by (simp only: set_map image_eqI)
    then have "sint (row_id r) < uint (sq_nextSeq s)" using assms(2) by (simp add: wal_ok_def del: set_map)
    then show ?thesis using sint_eq_uint_i64 [OF assms(3)] by auto
  qed
  then obtain st' where save: "SaveEvent False ?ev st = (None, st')"
    using assms(3) by (force simp: SaveEvent_ok_iff)
  have n: "sq_nextSeq t = sq_nextSeq s" using dispatch_keeps [of om ?ev "set_store x s"] assms(4) by simp
  have p: "processEvent om False ev s = Done (released ?ev) (set_store (Some st') (t\<lparr>sq_nextSeq := sq_nextSeq t + 1\<rparr>))"
    using assms(4) by (simp add: processEvent_step [OF assms(1), of om False ev x] save ReplayEvent_def)
  have "wal_ok (sq_nextSeq s + 1) st'" by (rule wal.append_ok [OF assms(2) GetSeq_with_seq save])
  moreover have "uint (sq_nextSeq s + 1) = uint (sq_nextSeq s) + 1"
    using assms(3) by (simp add: uint_word_ariths)
  ultimately show ?thesis using p n by simp
qed

end
