(* ===== verification/Sma_Engine.thy ===== *)
theory Sma_Engine
  imports Sequencer
begin

text \<open>
  The sequencer running the crossover strategy: the invariant that ties the strategy's ring
  buffer to the prices of its symbol among the processed events, and that every event of a
  sound feed is processed without a panic.
\<close>

section \<open>The engine running the crossover strategy\<close>

fun event_prices :: "string \<Rightarrow> (bool \<times> event) list \<Rightarrow> i64 list" where
  "event_prices symbol [] = []"
| "event_prices symbol ((f, ev) # evs) =
     (case ev of
        MarketUpdate e \<Rightarrow> if mu_Symbol e = symbol then [mu_PriceMicros e] else []
      | OrderUpdate _ \<Rightarrow> []) @ event_prices symbol evs"

definition sma_engine_inv :: "nat \<Rightarrow> nat \<Rightarrow> string \<Rightarrow> sma_cross sequencer \<Rightarrow> i64 list \<Rightarrow> bool" where
  "sma_engine_inv S L symbol s h \<longleftrightarrow>
     (\<exists>st log. sq_strategy s = Some st \<and> sma_rel S L symbol st h \<and> sq_orderBuf s \<noteq> [] \<and> markets_ok s \<and>
        sq_store s = Some log \<and> wal_ok (sq_nextSeq s) log)"

lemma sma_handleMarketUpdate:
  assumes "sq_strategy s = Some st" "sma_rel S L symbol st h" "sq_orderBuf s \<noteq> []" "markets_ok s"
    and "\<forall>p \<in> set (h @ (if mu_Symbol e = symbol then [mu_PriceMicros e] else [])). price_ok L p"
  shows "\<exists>t st'. handleMarketUpdate OnMarketUpdate e s = Done () t \<and> sq_strategy t = Some st' \<and>
    sma_rel S L symbol st' (h @ (if mu_Symbol e = symbol then [mu_PriceMicros e] else [])) \<and>
    sq_orderBuf t \<noteq> [] \<and> markets_ok t"
proof -
  let ?m = "updated_market e s"
  let ?s = "s\<lparr>sq_markets := (sq_markets s)(mu_Symbol e \<mapsto> ?m)\<rparr>"
  have m: "ms_Symbol ?m = mu_Symbol e" "ms_PriceMicros ?m = mu_PriceMicros e"
    by (simp_all add: updated_market_eq [OF assms(4)] state_of_def)
  have "\<exists>n st' buf. OnMarketUpdate ?m (st, sq_orderBuf s) = Done n (st', buf) \<and>
    sma_rel S L symbol st' (h @ (if mu_Symbol e = symbol then [mu_PriceMicros e] else []))"
  proof (cases "mu_Symbol e = symbol")
    case True
    then show ?thesis
      using OnMarketUpdate_refines [of S L ?m st h "sq_orderBuf s"] assms(2,5) m
      by (auto simp: case_prod_beta)
  next
    case False
    then show ?thesis using assms(2) m by (simp add: OnMarketUpdate_def sma_rel_def)
  qed
  then obtain n st' buf where om: "OnMarketUpdate ?m (st, sq_orderBuf s) = Done n (st', buf)"
    and r: "sma_rel S L symbol st' (h @ (if mu_Symbol e = symbol then [mu_PriceMicros e] else []))" by blast
  have "run_strategy OnMarketUpdate ?m ?s = Done () (?s\<lparr>sq_strategy := Some st', sq_orderBuf := buf\<rparr>)"
    by (rule sma.run_strategy_returns [where n = n and st = st]) (simp_all add: assms(1) om)
  then have h: "handleMarketUpdate OnMarketUpdate e s =
      Done () (notify ?m (?s\<lparr>sq_strategy := Some st', sq_orderBuf := buf\<rparr>))"
    by (simp add: handleMarketUpdate_def Let_def)
  have "buf \<noteq> []" using sma.count_fits [OF om] assms(3) by auto
  moreover have "markets_ok (notify ?m (?s\<lparr>sq_strategy := Some st', sq_orderBuf := buf\<rparr>))"
    using assms(4) m(1) by (simp add: markets_ok_def)
  ultimately show ?thesis using h r by simp
qed

lemma sma_engine_step:
  assumes "sma_engine_inv S L symbol s h" "\<forall>p \<in> set (h @ event_prices symbol [(False, ev)]). price_ok L p"
    and "uint (sq_nextSeq s) < 9223372036854775808"
  shows "\<exists>r s'. processEvent OnMarketUpdate False ev s = Done r s' \<and>
    sma_engine_inv S L symbol s' (h @ event_prices symbol [(False, ev)]) \<and>
    uint (sq_nextSeq s') = uint (sq_nextSeq s) + 1"
proof -
  obtain st log where inv: "sq_strategy s = Some st" "sma_rel S L symbol st h" "sq_orderBuf s \<noteq> []"
    "markets_ok s" "sq_store s = Some log" "wal_ok (sq_nextSeq s) log"
    using assms(1) by (auto simp: sma_engine_inv_def)
  let ?ev = "with_seq (sq_nextSeq s) ev"
  have "\<exists>t st'. dispatch OnMarketUpdate ?ev (set_store None s) = Done () t \<and> sq_strategy t = Some st' \<and>
    sma_rel S L symbol st' (h @ event_prices symbol [(False, ev)]) \<and> sq_orderBuf t \<noteq> [] \<and> markets_ok t"
  proof (cases ev)
    case (MarketUpdate e)
    then show ?thesis
      using sma_handleMarketUpdate [of "set_store None s" st S L symbol h "e\<lparr>mu_Seq := sq_nextSeq s\<rparr>"] inv assms(2)
      by (cases "mu_Symbol e = symbol"; simp add: markets_ok_def)
  next
    case (OrderUpdate e)
    then show ?thesis using inv by (simp add: markets_ok_def)
  qed
  then obtain t st' where t: "dispatch OnMarketUpdate ?ev (set_store None s) = Done () t" "sq_strategy t = Some st'"
    "sma_rel S L symbol st' (h @ event_prices symbol [(False, ev)])" "sq_orderBuf t \<noteq> []" "markets_ok t"
    by blast
  show ?thesis
    using processEvent_returns [OF inv(5,6) assms(3) t(1)] t(2-5)
    unfolding sma_engine_inv_def markets_ok_def by metis
qed

lemma event_prices_Cons: "event_prices symbol (fe # evs) = event_prices symbol [fe] @ event_prices symbol evs"
  by (cases fe) simp

lemma sma_engine_runs:
  assumes "sma_engine_inv S L symbol s h" "\<forall>p \<in> set (h @ event_prices symbol evs). price_ok L p"
    and "uint (sq_nextSeq s) + int (length evs) \<le> 9223372036854775808" "\<forall>(f, ev) \<in> set evs. \<not> f"
  shows "\<exists>s'. process_all OnMarketUpdate evs s = Done () s' \<and>
    sma_engine_inv S L symbol s' (h @ event_prices symbol evs)"
  using assms
proof (induction evs arbitrary: s h)
  case Nil
  then show ?case by simp
next
  case (Cons fe evs)
  obtain ev where fe: "fe = (False, ev)" using Cons.prems(4) by (cases fe) auto
  have p: "\<forall>p \<in> set (h @ event_prices symbol [(False, ev)]). price_ok L p"
    and q: "\<forall>p \<in> set ((h @ event_prices symbol [(False, ev)]) @ event_prices symbol evs). price_ok L p"
    using Cons.prems(2) by (auto simp: fe)
  obtain r s1 where s1: "processEvent OnMarketUpdate False ev s = Done r s1"
    "sma_engine_inv S L symbol s1 (h @ event_prices symbol [(False, ev)])"
    "uint (sq_nextSeq s1) = uint (sq_nextSeq s) + 1"
    using sma_engine_step [OF Cons.prems(1) p] Cons.prems(3) by auto
  have "\<exists>s'. process_all OnMarketUpdate evs s1 = Done () s' \<and>
    sma_engine_inv S L symbol s' ((h @ event_prices symbol [(False, ev)]) @ event_prices symbol evs)"
    using Cons.IH [OF s1(2) q] s1(3) Cons.prems(3,4) by auto
  then show ?case using s1(1) event_prices_Cons [of symbol fe evs] by (simp add: fe)
qed

lemma sma_boot_engine_inv:
  assumes "0 < S" "S < L" "in_i64 (int L)" "NewSMACrossStrategy symbol (int S) (int L) = Inr strat" "es_events store = []"
  shows "sma_engine_inv S L symbol (NewSequencer (Some store) (Some strat) cb) []"
proof -
  have "sma_rel S L symbol strat []" using NewSMACrossStrategy_rel [OF assms(1-3), of symbol] assms(4) by auto
  moreover have "wal_ok 1 store" using fresh_log_ok [of store] assms(5) by (simp add: fresh_log_def)
  ultimately show ?thesis by (simp add: sma_engine_inv_def markets_ok_def NewSequencer_def)
qed

end
