(* ===== verification/Decimal.thy ===== *)
theory Decimal
  imports Strconv Safe_Math
begin

text \<open>
  The program's fixed-point decimals: \<open>pkg/quant/quant_types.go\<close> (the parser used for
  exchange messages), \<open>internal/infra/bitget/fixed_point_parser.go\<close> (a second parser) and
  \<open>formatFixedPoint\<close> of \<open>internal/infra/bitget/client.go\<close> (the printer used for order
  requests). The integer arithmetic is that of \<open>int64\<close>, unchecked as in the code. The
  conversions from and to \<open>float64\<close> are not modelled.
\<close>

section \<open>quant\<close>

definition PriceScale :: i64 where "PriceScale = 1000000"
definition QtyScale :: i64 where "QtyScale = 100000000"

text \<open>\<open>for i := 0; i < n; i++ { x *= 10 }\<close>\<close>

primrec times10 :: "nat \<Rightarrow> i64 \<Rightarrow> i64" where
  "times10 0 x = x"
| "times10 (Suc n) x = times10 n (x * 10)"

definition quant_parseFixedPoint :: "string \<Rightarrow> nat \<Rightarrow> i64" where
  "quant_parseFixedPoint s precision =
     (if s = [] \<or> s = ''null'' then 0
      else
        let parts = SplitN2 CHR ''.'' s in
        case ParseInt (parts ! 0) of (intPart, err) \<Rightarrow>
          if err \<noteq> None \<and> parts ! 0 \<noteq> [] \<and> parts ! 0 \<noteq> ''-'' then 0
          else
            let intPart = times10 precision intPart in
            if length parts < 2 then intPart
            else
              let fracStr = (if precision < length (parts ! 1) then take precision (parts ! 1) else parts ! 1)
              in case ParseInt fracStr of (fracPart, err2) \<Rightarrow>
                if err2 \<noteq> None then intPart
                else
                  let fracPart = times10 (precision - length fracStr) fracPart in
                  if parts ! 0 \<noteq> [] \<and> hd (parts ! 0) = CHR ''-'' then intPart - fracPart
                  else intPart + fracPart)"

definition ToPriceMicrosStr :: "string \<Rightarrow> i64" where
  "ToPriceMicrosStr s = quant_parseFixedPoint s 6"

definition ToQtySatsStr :: "string \<Rightarrow> i64" where
  "ToQtySatsStr s = quant_parseFixedPoint s 8"

definition ParseTimeStamp :: "string \<Rightarrow> num_error + i64" where
  "ParseTimeStamp s =
     (case ParseInt s of
        (ms, Some e) \<Rightarrow> Inl e
      | (ms, None) \<Rightarrow> Inr (ms * 1000))"

text \<open>\<open>atomic.AddUint64(ptr, 1)\<close>: the new value is both stored and returned.\<close>

definition NextSeq :: "u64 \<Rightarrow> u64 \<times> u64" where
  "NextSeq seq = (seq + 1, seq + 1)"

section \<open>The parser of the Bitget client\<close>

datatype parse_error = MultipleDots | NumError num_error

definition bitget_parseFixedPoint :: "string \<Rightarrow> nat \<Rightarrow> parse_error + i64" where
  "bitget_parseFixedPoint s decimals =
     (if s = [] then Inr 0
      else
        let parts = Split CHR ''.'' s in
        if 2 < length parts then Inl MultipleDots
        else
          let neg = (parts ! 0 \<noteq> [] \<and> hd (parts ! 0) = CHR ''-'');
              integerPart = (if neg then tl (parts ! 0) else parts ! 0);
              sign = (if neg then - 1 else 1);
              fractionalPart = (if length parts = 2 then parts ! 1 else []);
              fractionalPart =
                (if decimals < length fractionalPart then take decimals fractionalPart
                 else fractionalPart @ replicate (decimals - length fractionalPart) CHR ''0'')
          in case ParseInt integerPart of (intVal, err) \<Rightarrow>
            (case (if err \<noteq> None \<and> integerPart = [] then None else err) of
               Some e \<Rightarrow> Inl (NumError e)
             | None \<Rightarrow>
                 let intVal = (if err \<noteq> None then 0 else intVal) in
                 (case ParseInt fractionalPart of
                    (fracVal, Some e) \<Rightarrow> Inl (NumError e)
                  | (fracVal, None) \<Rightarrow> Inr ((intVal * times10 decimals 1 + fracVal) * sign))))"

definition ParseValueToMicros :: "string \<Rightarrow> parse_error + i64" where
  "ParseValueToMicros s = bitget_parseFixedPoint s 6"

definition ParseValueToSats :: "string \<Rightarrow> parse_error + i64" where
  "ParseValueToSats s = bitget_parseFixedPoint s 8"

section \<open>The printer of the Bitget client\<close>

definition formatFixedPoint :: "i64 \<Rightarrow> nat \<Rightarrow> string" where
  "formatFixedPoint v precision =
     (let scale = times10 precision 1;
          sign = (if v <s 0 then ''-'' else []);
          v = (if v <s 0 then - v else v);
          whole = go_div v scale;
          frac = go_rem v scale
      in sign @ fmt_d (sint whole) @ ''.'' @ fmt_0d precision (sint frac))"

section \<open>Both parsers are exact on decimals\<close>

definition decimal :: "bool \<Rightarrow> string \<Rightarrow> string \<Rightarrow> string" where
  "decimal neg ip fp = (if neg then ''-'' else []) @ ip @ ''.'' @ fp"

text \<open>The value of a decimal in units of \<open>10^-p\<close>, cut off after \<open>p\<close> fractional digits.\<close>

definition scaled :: "nat \<Rightarrow> string \<Rightarrow> string \<Rightarrow> nat" where
  "scaled p ip fp = decval ip * 10 ^ p + decval (take p fp) * 10 ^ (p - length (take p fp))"

lemma times10_eq: "times10 n x = x * 10 ^ n"
  by (induction n arbitrary: x) (simp_all add: algebra_simps)

lemma scaled_parts:
  assumes "scaled p ip fp \<le> 9223372036854775807"
  shows "decval ip \<le> 9223372036854775807" "decval (take p fp) \<le> 9223372036854775807"
proof -
  have "decval ip \<le> decval ip * 10 ^ p"
    "decval (take p fp) \<le> decval (take p fp) * 10 ^ (p - length (take p fp))" by simp_all
  then show "decval ip \<le> 9223372036854775807" "decval (take p fp) \<le> 9223372036854775807"
    using assms unfolding scaled_def by linarith+
qed

lemma signed_scaled:
  assumes "n \<le> 9223372036854775807"
  shows "sint (of_nat n :: i64) = int n" "sint (- of_nat n :: i64) = - int n"
proof -
  have "in_i64 (int n)" "in_i64 (- int n)" using assms by (auto simp: in_i64_def)
  then show p: "sint (of_nat n :: i64) = int n" using sint_of_int_i64 [of "int n"] by simp
  then show "sint (- of_nat n :: i64) = - int n"
    using \<open>in_i64 (- int n)\<close> by (subst sint_minus_i64) auto
qed

lemma quant_parse_decimal:
  assumes "digits ip" "digits fp" "fp \<noteq> []" "0 < p"
    and "scaled p ip fp \<le> 9223372036854775807"
  shows "quant_parseFixedPoint (decimal neg ip fp) p
    = (if neg then - of_nat (scaled p ip fp) else of_nat (scaled p ip fp))"
proof -
  let ?a = "(if neg then ''-'' else []) @ ip"
  have dot: "CHR ''.'' \<notin> set ?a" using assms(1) by auto
  have sp: "SplitN2 CHR ''.'' (decimal neg ip fp) = [?a, fp]"
    using SplitN2_at [OF dot, of fp] by (simp add: decimal_def)
  have "CHR ''.'' \<in> set (decimal neg ip fp)" by (simp add: decimal_def)
  then have ne: "decimal neg ip fp \<noteq> []" "decimal neg ip fp \<noteq> ''null''" by auto
  note parts = scaled_parts [OF assms(5)]
  have int_part: "fst (ParseInt ?a) = (if neg then - of_nat (decval ip) else of_nat (decval ip)) \<and>
      (snd (ParseInt ?a) \<noteq> None \<longrightarrow> ?a = [] \<or> ?a = ''-'')"
  proof (cases "ip = []")
    case True
    then show ?thesis by (cases neg) (simp_all add: ParseInt_def ParseUint_def)
  next
    case False
    then show ?thesis
      using ParseInt_digits [OF assms(1) _ parts(1)] ParseInt_neg_digits [OF assms(1) False] parts(1)
      by (cases neg) simp_all
  qed
  have frac: "(if p < length fp then take p fp else fp) = take p fp" by simp
  have "ParseInt (take p fp) = (of_nat (decval (take p fp)), None)"
    using assms(3,4) by (intro ParseInt_digits parts(2) digits_take assms(2)) auto
  moreover have "?a \<noteq> [] \<and> hd ?a = CHR ''-'' \<longleftrightarrow> neg"
    using digits_hd [OF assms(1)] by auto
  moreover obtain iv err where iv: "ParseInt ?a = (iv, err)" by (cases "ParseInt ?a")
  moreover have "\<not> (err \<noteq> None \<and> ?a \<noteq> [] \<and> ?a \<noteq> ''-'')" using int_part iv by auto
  moreover have "iv = (if neg then - of_nat (decval ip) else of_nat (decval ip))" using int_part iv by simp
  ultimately have "quant_parseFixedPoint (decimal neg ip fp) p = (if neg
      then - of_nat (decval ip) * 10 ^ p - of_nat (decval (take p fp)) * 10 ^ (p - length (take p fp))
      else of_nat (decval ip) * 10 ^ p + of_nat (decval (take p fp)) * 10 ^ (p - length (take p fp)))"
    using ne unfolding quant_parseFixedPoint_def sp
    by (simp only: Let_def nth_Cons_0 nth_Cons_Suc One_nat_def frac times10_eq prod.case if_True if_False
        simp_thms list.size) simp
  then show ?thesis by (simp add: scaled_def)
qed

lemma bitget_parse_decimal:
  assumes "digits ip" "digits fp" "0 < p" "scaled p ip fp \<le> 9223372036854775807"
  shows "bitget_parseFixedPoint (decimal neg ip fp) p
    = Inr (if neg then - of_nat (scaled p ip fp) else of_nat (scaled p ip fp))"
proof -
  let ?a = "(if neg then ''-'' else []) @ ip"
    and ?f = "if p < length fp then take p fp else fp @ replicate (p - length fp) CHR ''0''"
  have dots: "CHR ''.'' \<notin> set ?a" "CHR ''.'' \<notin> set fp" using assms(1,2) by auto
  have sp: "Split CHR ''.'' (decimal neg ip fp) = [?a, fp]"
    using Split_at [OF dots(1), of fp] dots(2) by (simp add: decimal_def)
  have ne: "decimal neg ip fp \<noteq> []" by (simp add: decimal_def)
  have f: "decval ?f = decval (take p fp) * 10 ^ (p - length (take p fp))"
    by (simp add: decval_append)
  have df: "digits ?f" "?f \<noteq> []" using assms(2,3) digits_take [OF assms(2), of p] by (auto split: if_splits)
  have bounds: "decval ip \<le> 9223372036854775807" "decval ?f \<le> 9223372036854775807"
    using scaled_parts(1) [OF assms(4)] assms(4) unfolding scaled_def f by linarith+
  have frac: "ParseInt ?f = (of_nat (decval ?f), None)"
    by (rule ParseInt_digits [OF df bounds(2)])
  have int_part: "ip \<noteq> [] \<Longrightarrow> ParseInt ip = (of_nat (decval ip), None)"
    using ParseInt_digits [OF assms(1) _ bounds(1)] by blast
  have sign: "?a \<noteq> [] \<and> hd ?a = CHR ''-'' \<longleftrightarrow> neg" using digits_hd [OF assms(1)] by auto
  have tot: "of_nat (decval ip) * 10 ^ p + of_nat (decval ?f) = (of_nat (scaled p ip fp) :: i64)"
    by (simp only: scaled_def f of_nat_add of_nat_mult of_nat_power of_nat_numeral)
  have neg_tot: "- (of_nat (decval ip) * 10 ^ p) - of_nat (decval ?f) = - (of_nat (scaled p ip fp) :: i64)"
    unfolding tot [symmetric] by simp
  show ?thesis
  proof (cases "ip = []")
    case True
    then show ?thesis
      using ne sp frac tot sign
      by (simp add: bitget_parseFixedPoint_def Let_def ParseInt_def [of "[]"] times10_eq)
  next
    case False
    then show ?thesis
      using ne sp frac tot neg_tot sign int_part
      by (cases "p < length fp"; simp add: bitget_parseFixedPoint_def Let_def times10_eq)
  qed
qed

lemma times10_one: "p \<le> 18 \<Longrightarrow> sint (times10 p 1) = 10 ^ p"
proof -
  assume "p \<le> 18"
  then have "(10 :: nat) ^ p \<le> 10 ^ 18" by (intro power_increasing) auto
  then have "sint (of_nat (10 ^ p) :: i64) = int (10 ^ p)" by (intro signed_scaled) simp
  then show ?thesis by (simp add: times10_eq)
qed

text \<open>What the printer writes, for every value but the smallest one.\<close>

lemma formatFixedPoint_decimal:
  assumes "v \<noteq> MinInt64" "0 < p" "p \<le> 18"
  defines "n \<equiv> nat \<bar>sint v\<bar>"
  shows "formatFixedPoint v p = decimal (sint v < 0) (dec (n div 10 ^ p)) (pad0 p (dec (n mod 10 ^ p)))"
proof -
  let ?v = "if sint v < 0 then - v else v"
  have r: "in_i64 (sint v)" by auto
  have v: "sint ?v = int n"
  proof (cases "sint v < 0")
    case True
    moreover have "in_i64 (- sint v)" using assms(1) r by (auto simp: in_i64_def i64_eq_iff)
    ultimately show ?thesis using assms(4) by (simp add: sint_minus_i64)
  qed (simp add: assms(4))
  have sc: "sint (times10 p 1) = int (10 ^ p)" using times10_one [OF assms(3)] by simp
  have pos: "0 < int (10 ^ p)" by simp
  have q: "sint (go_div ?v (times10 p 1)) = int (n div 10 ^ p)"
    using v sc by (subst sint_go_div)
      (auto simp: signed_divide_int_def sgn_if i64_eq_iff zdiv_int)
  have m: "sint ?v smod sint (times10 p 1) = int (n mod 10 ^ p)"
    using v sc by (simp add: signed_modulo_int_def sgn_if zmod_int)
  have "in_i64 (int (n mod 10 ^ p))"
  proof -
    have "int n \<le> 9223372036854775807" using in_i64_sint [of ?v] v by (simp add: in_i64_def)
    then have "int (n mod 10 ^ p) \<le> 9223372036854775807"
      using mod_less_eq_dividend [of n "10 ^ p"] by linarith
    then show ?thesis by (simp add: in_i64_def)
  qed
  then have rm: "sint (go_rem ?v (times10 p 1)) = int (n mod 10 ^ p)"
    using m by (simp only: go_rem_def m sint_of_int_i64)
  show ?thesis
    using q rm by (simp add: formatFixedPoint_def Let_def word_sless_alt decimal_def fmt_d_def fmt_0d_def)
qed

lemma format_decimal_value:
  assumes "0 < p"
  shows "digits (dec (n div 10 ^ p))" "digits (pad0 p (dec (n mod 10 ^ p)))"
    "pad0 p (dec (n mod 10 ^ p)) \<noteq> []"
    "scaled p (dec (n div 10 ^ p)) (pad0 p (dec (n mod 10 ^ p))) = n"
proof -
  have "n mod 10 ^ p < 10 ^ p" by simp
  note pad = pad0_dec [OF this assms]
  show "digits (dec (n div 10 ^ p))" by (rule digits_dec)
  show "digits (pad0 p (dec (n mod 10 ^ p)))" by (rule pad(2))
  show "pad0 p (dec (n mod 10 ^ p)) \<noteq> []" using pad(1) assms by auto
  show "scaled p (dec (n div 10 ^ p)) (pad0 p (dec (n mod 10 ^ p))) = n"
    using pad by (simp add: scaled_def div_mult_mod_eq)
qed

lemma format_parse_exact:
  assumes "v \<noteq> MinInt64" "0 < p" "p \<le> 18"
  shows "bitget_parseFixedPoint (formatFixedPoint v p) p = Inr v \<and>
    quant_parseFixedPoint (formatFixedPoint v p) p = v"
proof -
  let ?n = "nat \<bar>sint v\<bar>"
  have n: "?n \<le> 9223372036854775807"
    using assms(1) in_i64_sint [of v] by (auto simp: in_i64_def i64_eq_iff simp del: in_i64_sint)
  note f = format_decimal_value [OF assms(2), of ?n]
  have "(if sint v < 0 then - of_nat ?n else of_nat ?n) = v"
    by (simp add: i64_eq_iff signed_scaled n)
  then show ?thesis
    using formatFixedPoint_decimal [OF assms] bitget_parse_decimal [OF f(1,2) assms(2), unfolded f(4), OF n]
      quant_parse_decimal [OF f(1-3) assms(2), unfolded f(4), OF n] by simp
qed

section \<open>Properties\<close>

text \<open>Both fixed-point parsers read a decimal exactly: an optional minus sign, digits, a
  dot and at least one digit give the signed value in units of \<open>10^-p\<close>, with the fractional
  digits beyond the \<open>p\<close>-th dropped (rounding towards zero), whenever that value is within the
  \<open>int64\<close> range; so the two parsers agree.\<close>

lemma fixed_point_parsers_exact:
  assumes "digits ip" "digits fp" "fp \<noteq> []" "0 < p" "scaled p ip fp \<le> 9223372036854775807"
  shows "\<exists>v. quant_parseFixedPoint (decimal neg ip fp) p = v \<and>
    bitget_parseFixedPoint (decimal neg ip fp) p = Inr v \<and>
    sint v = (if neg then - int (scaled p ip fp) else int (scaled p ip fp))"
  using quant_parse_decimal [OF assms] bitget_parse_decimal [OF assms(1,2,4,5)]
    signed_scaled [OF assms(5)] by simp

lemma fixed_point_parsers_exact_witness:
  "sint (quant_parseFixedPoint ''-1.2345678'' 6) = - 1234567"
proof -
  have "\<exists>v. quant_parseFixedPoint (decimal True ''1'' ''2345678'') 6 = v \<and>
    bitget_parseFixedPoint (decimal True ''1'' ''2345678'') 6 = Inr v \<and>
    sint v = (if True then - int (scaled 6 ''1'' ''2345678'') else int (scaled 6 ''1'' ''2345678''))"
    by (rule fixed_point_parsers_exact)
      (simp_all add: digit_val_def scaled_def decval_def)
  then show ?thesis by (simp add: decimal_def scaled_def decval_def digit_val_def)
qed

text \<open>C18. Printing a price or quantity for the exchange and parsing it back, with either
  parser, gives the same \<open>int64\<close>, for every value but the smallest one and any precision from
  1 to 18.\<close>

theorem format_parse_round_trip:
  assumes "v \<noteq> MinInt64" "0 < p" "p \<le> 18"
  shows "bitget_parseFixedPoint (formatFixedPoint v p) p = Inr v \<and>
    quant_parseFixedPoint (formatFixedPoint v p) p = v"
  by (rule format_parse_exact [OF assms])

theorem format_parse_round_trip_witness:
  "bitget_parseFixedPoint (formatFixedPoint (- 1234567) 6) 6 = Inr (- 1234567)"
  using format_parse_round_trip [of "- 1234567" 6] by (simp add: i64_eq_iff)

text \<open>The smallest \<open>int64\<close> is printed as a malformed number, with two minus signs and a
  negative fraction, which the Bitget parser reads back as a large positive number.\<close>

lemma format_MinInt64_malformed:
  "formatFixedPoint MinInt64 6 = ''--9223372036854.-775808'' \<and>
   bitget_parseFixedPoint (formatFixedPoint MinInt64 6) 6 = Inr 9223372036854077580"
proof -
  have f: "formatFixedPoint MinInt64 6 = ''--9223372036854.-775808''"
    by (simp add: formatFixedPoint_def Let_def word_sless_alt MinInt64_def go_div_def go_rem_def times10_eq
        signed_divide_int_def signed_modulo_int_def fmt_d_def fmt_0d_def dec.simps pad0_def digit_char_def char_of_def bit_0)
  have sp: "Split CHR ''.'' ''--9223372036854.-775808'' = [''--9223372036854'', ''-775808'']" by simp
  have ip: "ParseInt ''-9223372036854'' = (- 9223372036854, None)"
    and fp: "ParseInt ''-77580'' = (- 77580, None)"
    by (simp_all add: ParseInt_def ParseUint_def digit_val_def Let_def MaxUint64_def)
  have "bitget_parseFixedPoint ''--9223372036854.-775808'' 6 = Inr 9223372036854077580"
    unfolding bitget_parseFixedPoint_def sp by (simp add: Let_def ip fp times10_eq)
  with f show ?thesis by simp
qed

text \<open>The parser of exchange messages does not check for overflow: a price of ten
  trillion wraps to a negative number.\<close>

lemma quant_parse_wraps:
  "sint (ToPriceMicrosStr ''10000000000000'') = - 8446744073709551616"
  by (simp add: ToPriceMicrosStr_def quant_parseFixedPoint_def Let_def SplitN2_def ParseInt_def ParseUint_def
      digit_val_def MaxUint64_def times10_eq)

end
