(* ===== verification/Resilience.thy ===== *)
theory Resilience
  imports Prelude
begin

text \<open>
  Fault isolation: the circuit breaker (\<open>internal/infra/circuit_breaker.go\<close>), the reconnect
  backoff (\<open>backoff.go\<close>) and the metrics counters (\<open>metrics.go\<close>). The breaker's mutex makes
  each method one step. The clock is an argument, in nanoseconds; the zero \<open>time.Time\<close> is
  \<open>None\<close>, and \<open>time.Since\<close> of it is the largest duration. The breaker's counters are small
  (bounded by the thresholds, as shown below) and are integers of the model.
\<close>

unbundle bit_operations_syntax

section \<open>Circuit breaker\<close>

datatype cb_state = StateClosed | StateOpen | StateHalfOpen

primrec String_state :: "cb_state \<Rightarrow> string" where
  "String_state StateClosed = ''CLOSED''"
| "String_state StateOpen = ''OPEN''"
| "String_state StateHalfOpen = ''HALF_OPEN''"

record circuit_breaker =
  cb_name :: string
  cb_state :: cb_state
  cb_failureCount :: int
  cb_successCount :: int
  cb_lastFailure :: "int option"
  cb_failureThreshold :: int
  cb_successThreshold :: int
  cb_timeout :: int

record cb_config =
  cfg_Name :: string
  cfg_FailureThreshold :: int
  cfg_SuccessThreshold :: int
  cfg_Timeout :: int

definition DefaultCircuitBreakerConfig :: "string \<Rightarrow> cb_config" where
  "DefaultCircuitBreakerConfig name =
     \<lparr>cfg_Name = name, cfg_FailureThreshold = 5, cfg_SuccessThreshold = 2,
      cfg_Timeout = 30 * 1000000000\<rparr>"

definition NewCircuitBreaker :: "cb_config \<Rightarrow> circuit_breaker" where
  "NewCircuitBreaker cfg =
     \<lparr>cb_name = cfg_Name cfg, cb_state = StateClosed, cb_failureCount = 0, cb_successCount = 0,
      cb_lastFailure = None, cb_failureThreshold = cfg_FailureThreshold cfg,
      cb_successThreshold = cfg_SuccessThreshold cfg, cb_timeout = cfg_Timeout cfg\<rparr>"

definition time_since :: "int \<Rightarrow> int option \<Rightarrow> int" where
  "time_since now t = (case t of None \<Rightarrow> 9223372036854775807 | Some t \<Rightarrow> now - t)"

definition Allow :: "int \<Rightarrow> circuit_breaker \<Rightarrow> bool \<times> circuit_breaker" where
  "Allow now cb =
     (case cb_state cb of
        StateClosed \<Rightarrow> (True, cb)
      | StateOpen \<Rightarrow>
          if cb_timeout cb < time_since now (cb_lastFailure cb)
          then (True, cb\<lparr>cb_state := StateHalfOpen, cb_successCount := 0\<rparr>)
          else (False, cb)
      | StateHalfOpen \<Rightarrow> (True, cb))"

definition RecordSuccess :: "circuit_breaker \<Rightarrow> circuit_breaker" where
  "RecordSuccess cb =
     (case cb_state cb of
        StateClosed \<Rightarrow> cb\<lparr>cb_failureCount := 0\<rparr>
      | StateOpen \<Rightarrow> cb
      | StateHalfOpen \<Rightarrow>
          let cb = cb\<lparr>cb_successCount := cb_successCount cb + 1\<rparr> in
          if cb_successThreshold cb \<le> cb_successCount cb
          then cb\<lparr>cb_state := StateClosed, cb_failureCount := 0, cb_successCount := 0\<rparr>
          else cb)"

definition RecordFailure :: "int \<Rightarrow> circuit_breaker \<Rightarrow> circuit_breaker" where
  "RecordFailure now cb =
     (let cb = cb\<lparr>cb_lastFailure := Some now\<rparr> in
      case cb_state cb of
        StateClosed \<Rightarrow>
          let cb = cb\<lparr>cb_failureCount := cb_failureCount cb + 1\<rparr> in
          if cb_failureThreshold cb \<le> cb_failureCount cb then cb\<lparr>cb_state := StateOpen\<rparr> else cb
      | StateOpen \<Rightarrow> cb
      | StateHalfOpen \<Rightarrow> cb\<lparr>cb_state := StateOpen, cb_successCount := 0\<rparr>)"

definition GetState :: "circuit_breaker \<Rightarrow> cb_state" where
  "GetState cb = cb_state cb"

definition Reset_breaker :: "circuit_breaker \<Rightarrow> circuit_breaker" where
  "Reset_breaker cb = cb\<lparr>cb_state := StateClosed, cb_failureCount := 0, cb_successCount := 0\<rparr>"

section \<open>Backoff\<close>

definition baseDelay :: i64 where "baseDelay = 1000000000"
definition maxDelay :: i64 where "maxDelay = 60 * 1000000000"

definition CalculateBackoff :: "int \<Rightarrow> i64" where
  "CalculateBackoff retryCount =
     (if retryCount < 0 then baseDelay
      else if 30 < retryCount then maxDelay
      else
        let backoff = baseDelay * push_bit (nat retryCount) 1 in
        if maxDelay <s backoff then maxDelay else backoff)"

section \<open>Metrics\<close>

record metrics =
  mt_eventsProcessed :: u64
  mt_ordersFilled :: u64
  mt_errorsTotal :: u64
  mt_latencySumNs :: i64
  mt_latencyCount :: u64
  mt_activeConnections :: "32 word"
  mt_circuitOpen :: "32 word"

definition zero_metrics :: metrics where
  "zero_metrics =
     \<lparr>mt_eventsProcessed = 0, mt_ordersFilled = 0, mt_errorsTotal = 0, mt_latencySumNs = 0,
      mt_latencyCount = 0, mt_activeConnections = 0, mt_circuitOpen = 0\<rparr>"

definition RecordEvent :: "i64 \<Rightarrow> metrics \<Rightarrow> metrics" where
  "RecordEvent latencyNs m =
     m\<lparr>mt_eventsProcessed := mt_eventsProcessed m + 1,
       mt_latencySumNs := mt_latencySumNs m + latencyNs,
       mt_latencyCount := mt_latencyCount m + 1\<rparr>"

definition RecordError :: "metrics \<Rightarrow> metrics" where
  "RecordError m = m\<lparr>mt_errorsTotal := mt_errorsTotal m + 1\<rparr>"

definition RecordOrderFilled :: "metrics \<Rightarrow> metrics" where
  "RecordOrderFilled m = m\<lparr>mt_ordersFilled := mt_ordersFilled m + 1\<rparr>"

definition SetActiveConnections :: "32 word \<Rightarrow> metrics \<Rightarrow> metrics" where
  "SetActiveConnections n m = m\<lparr>mt_activeConnections := n\<rparr>"

definition IncrementConnections :: "metrics \<Rightarrow> metrics" where
  "IncrementConnections m = m\<lparr>mt_activeConnections := mt_activeConnections m + 1\<rparr>"

definition DecrementConnections :: "metrics \<Rightarrow> metrics" where
  "DecrementConnections m = m\<lparr>mt_activeConnections := mt_activeConnections m - 1\<rparr>"

definition SetCircuitState :: "bool \<Rightarrow> metrics \<Rightarrow> metrics" where
  "SetCircuitState opened m = m\<lparr>mt_circuitOpen := (if opened then 1 else 0)\<rparr>"

record metrics_snapshot =
  mss_EventsProcessed :: u64
  mss_OrdersFilled :: u64
  mss_ErrorsTotal :: u64
  mss_AvgLatencyNs :: i64
  mss_ActiveConnections :: "32 word"
  mss_CircuitOpen :: bool
  mss_Timestamp :: int

definition Snapshot_metrics :: "int \<Rightarrow> metrics \<Rightarrow> metrics_snapshot" where
  "Snapshot_metrics now m =
     \<lparr>mss_EventsProcessed = mt_eventsProcessed m, mss_OrdersFilled = mt_ordersFilled m,
      mss_ErrorsTotal = mt_errorsTotal m,
      mss_AvgLatencyNs =
        (if 0 < mt_latencyCount m then go_div (mt_latencySumNs m) (mt_latencyCount m) else 0),
      mss_ActiveConnections = mt_activeConnections m,
      mss_CircuitOpen = (mt_circuitOpen m = 1), mss_Timestamp = now\<rparr>"

definition Reset_metrics :: "metrics \<Rightarrow> metrics" where
  "Reset_metrics m =
     m\<lparr>mt_eventsProcessed := 0, mt_ordersFilled := 0, mt_errorsTotal := 0, mt_latencySumNs := 0,
       mt_latencyCount := 0, mt_activeConnections := 0, mt_circuitOpen := 0\<rparr>"

section \<open>Steps of the breaker\<close>

datatype cb_op = AllowAt int bool | Succeeded | FailedAt int | ResetOp

inductive cb_step :: "circuit_breaker \<Rightarrow> cb_op \<Rightarrow> circuit_breaker \<Rightarrow> bool" where
  allow: "Allow now cb = (ok, cb') \<Longrightarrow> cb_step cb (AllowAt now ok) cb'"
| success: "cb_step cb Succeeded (RecordSuccess cb)"
| failure: "cb_step cb (FailedAt now) (RecordFailure now cb)"
| reset: "cb_step cb ResetOp (Reset_breaker cb)"

inductive_simps cb_step_simps:
  "cb_step cb (AllowAt now ok) cb'" "cb_step cb Succeeded cb'" "cb_step cb (FailedAt now) cb'"
  "cb_step cb ResetOp cb'"

inductive cb_run :: "circuit_breaker \<Rightarrow> cb_op list \<Rightarrow> circuit_breaker \<Rightarrow> bool" where
  nil: "cb_run cb [] cb"
| cons: "cb_step cb x cb1 \<Longrightarrow> cb_run cb1 xs cb' \<Longrightarrow> cb_run cb (x # xs) cb'"

inductive_cases cb_run_ConsE: "cb_run cb (x # xs) cb'"
inductive_cases cb_run_NilE: "cb_run cb [] cb'"

definition cb_inv :: "circuit_breaker \<Rightarrow> bool" where
  "cb_inv cb \<longleftrightarrow>
     0 < cb_failureThreshold cb \<and> 0 < cb_successThreshold cb \<and>
     0 \<le> cb_failureCount cb \<and> cb_failureCount cb \<le> cb_failureThreshold cb \<and>
     (cb_state cb = StateClosed \<longrightarrow> cb_failureCount cb < cb_failureThreshold cb) \<and>
     (cb_state cb = StateHalfOpen \<longrightarrow> 0 \<le> cb_successCount cb \<and> cb_successCount cb < cb_successThreshold cb) \<and>
     (cb_state cb \<noteq> StateClosed \<longrightarrow> cb_lastFailure cb \<noteq> None)"

definition cb_settings :: "circuit_breaker \<Rightarrow> string \<times> int \<times> int \<times> int" where
  "cb_settings cb = (cb_name cb, cb_failureThreshold cb, cb_successThreshold cb, cb_timeout cb)"

lemmas cb_defs = Allow_def RecordSuccess_def RecordFailure_def Reset_breaker_def Let_def

lemma cb_step_inv: "cb_step cb x cb' \<Longrightarrow> cb_inv cb \<Longrightarrow> cb_inv cb'"
  by (induction rule: cb_step.induct)
    (auto simp: cb_inv_def cb_defs split: cb_state.splits if_splits)

lemma cb_step_settings: "cb_step cb x cb' \<Longrightarrow> cb_settings cb' = cb_settings cb"
  by (induction rule: cb_step.induct) (auto simp: cb_settings_def cb_defs split: cb_state.splits if_splits)

lemma cb_run_inv: "cb_run cb xs cb' \<Longrightarrow> cb_inv cb \<Longrightarrow> cb_inv cb' \<and> cb_settings cb' = cb_settings cb"
proof (induction rule: cb_run.induct)
  case (cons cb x cb1 xs cb')
  then show ?case using cb_step_inv [of cb x cb1] cb_step_settings [of cb x cb1] by simp
qed simp

lemma new_breaker_inv:
  "0 < cfg_FailureThreshold cfg \<Longrightarrow> 0 < cfg_SuccessThreshold cfg \<Longrightarrow> cb_inv (NewCircuitBreaker cfg)"
  by (simp add: cb_inv_def NewCircuitBreaker_def)

section \<open>Properties\<close>

lemma fold_failures:
  assumes "cb_inv cb" "cb_state cb = StateClosed"
  shows "cb_state (fold RecordFailure ts cb) =
      (if cb_failureCount cb + int (length ts) < cb_failureThreshold cb then StateClosed else StateOpen)"
  using assms
proof (induction ts arbitrary: cb)
  case Nil
  then show ?case by (simp add: cb_inv_def)
next
  case (Cons t ts)
  have stays_open: "cb_state (fold RecordFailure us c) = StateOpen" if "cb_state c = StateOpen" for us c
    using that by (induction us arbitrary: c) (simp_all add: RecordFailure_def Let_def)
  show ?case
  proof (cases "cb_failureCount cb + 1 < cb_failureThreshold cb")
    case True
    let ?c = "RecordFailure t cb"
    have "cb_inv ?c" by (rule cb_step_inv [OF cb_step.failure Cons.prems(1)])
    moreover have "cb_state ?c = StateClosed" "cb_failureCount ?c = cb_failureCount cb + 1"
      "cb_failureThreshold ?c = cb_failureThreshold cb"
      using True Cons.prems(2) by (simp_all add: RecordFailure_def Let_def)
    ultimately show ?thesis using Cons.IH [of ?c] by simp
  next
    case False
    then have "cb_state (RecordFailure t cb) = StateOpen"
      using Cons.prems(2) by (simp add: RecordFailure_def Let_def)
    then show ?thesis using False stays_open by simp
  qed
qed

text \<open>The breaker opens after exactly the configured number of consecutive failures: with
  positive thresholds and whatever happened before, a breaker whose last operation was a
  success or a reset in the closed state opens on the \<open>failureThreshold\<close>-th failure in a row
  and not earlier.\<close>

lemma breaker_opens_at_threshold:
  assumes "0 < cfg_FailureThreshold cfg" "0 < cfg_SuccessThreshold cfg"
    and "cb_run (NewCircuitBreaker cfg) ops cb" "cb_state cb = StateClosed"
    and "cb0 = RecordSuccess cb \<or> cb0 = Reset_breaker cb"
  shows "GetState (fold RecordFailure ts cb0) =
    (if int (length ts) < cfg_FailureThreshold cfg then StateClosed else StateOpen)"
proof -
  have inv: "cb_inv cb" "cb_settings cb = cb_settings (NewCircuitBreaker cfg)"
    using cb_run_inv [OF assms(3)] new_breaker_inv [OF assms(1,2)] by auto
  have "cb_inv cb0" using assms(5) cb_step_inv [OF _ inv(1)] cb_step.success cb_step.reset by blast
  moreover have "cb_state cb0 = StateClosed" "cb_failureCount cb0 = 0"
    "cb_failureThreshold cb0 = cfg_FailureThreshold cfg"
    using assms(4,5) inv(2)
    by (auto simp: RecordSuccess_def Reset_breaker_def cb_settings_def NewCircuitBreaker_def)
  ultimately show ?thesis by (simp add: GetState_def fold_failures)
qed

lemma breaker_opens_at_threshold_witness:
  "GetState (fold RecordFailure [1, 2, 3, 4]
       (RecordSuccess (NewCircuitBreaker (DefaultCircuitBreakerConfig ''x'')))) = StateClosed \<and>
   GetState (fold RecordFailure [1, 2, 3, 4, 5]
       (RecordSuccess (NewCircuitBreaker (DefaultCircuitBreakerConfig ''x'')))) = StateOpen"
proof -
  let ?cfg = "DefaultCircuitBreakerConfig ''x''"
  have t: "0 < cfg_FailureThreshold ?cfg" "0 < cfg_SuccessThreshold ?cfg" "cfg_FailureThreshold ?cfg = 5"
    by (simp_all add: DefaultCircuitBreakerConfig_def)
  have c: "cb_state (NewCircuitBreaker ?cfg) = StateClosed" by (simp add: NewCircuitBreaker_def)
  note f = breaker_opens_at_threshold [OF t(1,2) cb_run.nil c disjI1 [OF refl]]
  show ?thesis by (simp only: f t(3)) simp
qed

text \<open>While the breaker is open, nothing gets through: from an open breaker whose last
  failure was at time \<open>t\<close>, any sequence of requests up to \<open>t\<close> plus the timeout, mixed with late
  success reports, is rejected request by request, and the breaker stays open.\<close>

lemma open_breaker_rejects:
  assumes "cb_run cb ops cb'" "cb_state cb = StateOpen" "cb_lastFailure cb = Some t"
    and "\<forall>x \<in> set ops. x = Succeeded \<or> (\<exists>now ok. x = AllowAt now ok \<and> now \<le> t + cb_timeout cb)"
  shows "cb' = cb \<and> (\<forall>now ok. AllowAt now ok \<in> set ops \<longrightarrow> \<not> ok)"
  using assms
proof (induction rule: cb_run.induct)
  case (nil cb)
  then show ?case by simp
next
  case (cons cb x cb1 xs cb')
  have "cb1 = cb \<and> (\<forall>now ok. x = AllowAt now ok \<longrightarrow> \<not> ok)"
    using cons.hyps(1) cons.prems
    by (cases x) (auto simp: cb_step_simps Allow_def RecordSuccess_def time_since_def)
  then show ?case using cons by auto
qed

lemma open_breaker_rejects_witness:
  "\<not> fst (Allow 20 ((NewCircuitBreaker (DefaultCircuitBreakerConfig ''x''))
       \<lparr>cb_state := StateOpen, cb_lastFailure := Some 10\<rparr>))"
proof -
  let ?cb = "(NewCircuitBreaker (DefaultCircuitBreakerConfig ''x''))
       \<lparr>cb_state := StateOpen, cb_lastFailure := Some 10\<rparr>"
  obtain ok cb' where a: "Allow 20 ?cb = (ok, cb')" by (cases "Allow 20 ?cb")
  have "cb_run ?cb [AllowAt 20 ok] cb'"
    by (rule cb_run.cons [OF cb_step.allow [OF a] cb_run.nil])
  from open_breaker_rejects [OF this, of 10] a show ?thesis
    by (simp add: NewCircuitBreaker_def DefaultCircuitBreakerConfig_def)
qed

lemma half_open_successes:
  assumes "cb_state cb = StateHalfOpen" "0 \<le> cb_successCount cb" "cb_successCount cb < cb_successThreshold cb"
  shows "cb_state ((RecordSuccess ^^ n) cb) =
    (if cb_successCount cb + int n < cb_successThreshold cb then StateHalfOpen else StateClosed)"
  using assms
proof (induction n arbitrary: cb)
  case (Suc n)
  have closed: "cb_state ((RecordSuccess ^^ k) c) = StateClosed" if "cb_state c = StateClosed" for k c
    using that by (induction k) (simp_all add: RecordSuccess_def)
  have step: "(RecordSuccess ^^ Suc n) cb = (RecordSuccess ^^ n) (RecordSuccess cb)"
    by (simp only: funpow_Suc_right comp_apply)
  show ?case
  proof (cases "cb_successCount cb + 1 < cb_successThreshold cb")
    case True
    then have c: "RecordSuccess cb = cb\<lparr>cb_successCount := cb_successCount cb + 1\<rparr>"
      using Suc.prems(1) by (simp add: RecordSuccess_def Let_def)
    show ?thesis using Suc.IH [of "RecordSuccess cb"] Suc.prems True unfolding step by (simp add: c)
  next
    case False
    then have "cb_state (RecordSuccess cb) = StateClosed"
      using Suc.prems(1) by (simp add: RecordSuccess_def Let_def)
    then show ?thesis using closed False unfolding step by simp
  qed
qed simp

text \<open>The breaker recovers: the first request more than the timeout after the last failure is
  let through and probes the service; from then on \<open>successThreshold\<close> successes in a row close
  the breaker, fewer leave it half-open, and a failure before that opens it again for a full
  timeout.\<close>

lemma breaker_recovers:
  assumes "0 < cb_successThreshold cb" "cb_state cb = StateOpen" "cb_lastFailure cb = Some t"
    and "t + cb_timeout cb < now"
  shows "fst (Allow now cb) \<and>
    cb_state ((RecordSuccess ^^ n) (snd (Allow now cb))) =
      (if int n < cb_successThreshold cb then StateHalfOpen else StateClosed) \<and>
    (int n < cb_successThreshold cb \<longrightarrow>
      (let cb2 = RecordFailure later ((RecordSuccess ^^ n) (snd (Allow now cb))) in
       cb_state cb2 = StateOpen \<and> cb_lastFailure cb2 = Some later))"
proof -
  let ?c = "snd (Allow now cb)"
  have c: "fst (Allow now cb)" "cb_state ?c = StateHalfOpen" "cb_successCount ?c = 0"
    "cb_successThreshold ?c = cb_successThreshold cb"
    using assms by (simp_all add: Allow_def time_since_def)
  show ?thesis
    using c half_open_successes [of ?c n] assms(1) by (simp add: RecordFailure_def Let_def)
qed

lemma breaker_recovers_witness:
  "cb_state ((RecordSuccess ^^ 2) (snd (Allow 30000000011
     ((NewCircuitBreaker (DefaultCircuitBreakerConfig ''x''))\<lparr>cb_state := StateOpen, cb_lastFailure := Some 10\<rparr>)))) = StateClosed"
  using breaker_recovers [of "(NewCircuitBreaker (DefaultCircuitBreakerConfig ''x''))
      \<lparr>cb_state := StateOpen, cb_lastFailure := Some 10\<rparr>" 10 30000000011 2]
  by (simp add: NewCircuitBreaker_def DefaultCircuitBreakerConfig_def)

lemma CalculateBackoff_exact:
  "sint (CalculateBackoff r) = min (60 * 1000000000) (1000000000 * 2 ^ nat r)"
proof (cases "r \<le> 30")
  case False
  then have "(2 :: int) ^ 30 \<le> 2 ^ nat r" by (intro power_increasing) auto
  then show ?thesis using False by (simp add: CalculateBackoff_def maxDelay_def)
next
  case True
  have "(2 :: int) ^ nat r \<le> 2 ^ 30" using True by (intro power_increasing) auto
  then have le: "(2 :: int) ^ nat r \<le> 1073741824" by simp
  have p: "(push_bit (nat r) 1 :: i64) = word_of_int (2 ^ nat r)" by (simp add: push_bit_eq_mult)
  have ge: "(0 :: int) \<le> 2 ^ nat r" by simp
  have f: "in_i64 (2 ^ nat r)" "in_i64 (1000000000 * 2 ^ nat r)"
    using le ge unfolding in_i64_def by linarith+
  have q: "sint (push_bit (nat r) 1 :: i64) = 2 ^ nat r" unfolding p using f(1) by (rule sint_of_int_i64)
  have "sint (baseDelay * push_bit (nat r) 1) = 1000000000 * 2 ^ nat r"
    using f(2) by (subst sint_mult_i64) (simp_all only: q, simp_all add: baseDelay_def)
  then show ?thesis
    using True by (auto simp: CalculateBackoff_def Let_def word_sless_alt maxDelay_def baseDelay_def min_def)
qed

text \<open>The backoff is exponential and capped: one second doubled per retry, at most a minute,
  with no overflow for any retry count.\<close>

lemma backoff_is_capped_exponential:
  "sint (CalculateBackoff r) = min (60 * 1000000000) (1000000000 * 2 ^ nat r)"
  by (rule CalculateBackoff_exact)

text \<open>The average latency of a snapshot is that of the recorded events.\<close>

lemma metrics_average:
  assumes "m = fold RecordEvent ls zero_metrics" "ls \<noteq> []" "int (length ls) < 9223372036854775808"
    and "in_i64 (sum_list (map sint ls))"
  shows "mss_AvgLatencyNs (Snapshot_metrics now m) = word_of_int (sum_list (map sint ls) sdiv int (length ls))"
proof -
  have "mt_latencySumNs (fold RecordEvent ls m0) = mt_latencySumNs m0 + word_of_int (sum_list (map sint ls)) \<and>
    mt_latencyCount (fold RecordEvent ls m0) = mt_latencyCount m0 + of_nat (length ls)" for m0
    by (induction ls arbitrary: m0) (simp_all add: RecordEvent_def)
  from this [of zero_metrics] have m: "mt_latencySumNs m = word_of_int (sum_list (map sint ls))"
    "mt_latencyCount m = word_of_int (int (length ls))"
    by (simp_all add: assms(1) zero_metrics_def)
  have l: "sint (word_of_int (int (length ls)) :: i64) = int (length ls)"
    using assms(3) by (intro sint_of_int_i64) (simp add: in_i64_def)
  then have "mt_latencyCount m \<noteq> 0" using assms(2) m(2) by (auto simp: i64_eq_iff)
  then show ?thesis
    using m l assms(4) by (simp add: Snapshot_metrics_def go_div_def sint_of_int_i64 word_neq_0_conv)
qed

end
