(* ===== verification/Feeds.thy ===== *)
theory Feeds
  imports Decimal Event Resilience
begin

text \<open>
  The market data feeds: the Upbit worker (\<open>internal/infra/upbit/upbit_worker.go\<close>), the Bitget
  spot and futures workers (\<open>internal/infra/bitget/\<close>) and the reconnecting WebSocket worker
  below them (\<open>internal/infra/websocket_worker.go\<close>). A message is its JSON value, or not JSON.
  The inbox is a buffered channel: a list with a capacity; a send that would block drops the
  event and releases it. The network is the list of what dialling and reading give.
\<close>

section \<open>Messages\<close>

datatype ws_msg = Pong | NotJson | JsonMsg json

record 'y feed =
  fd_symbols :: 'y
  fd_seq :: u64
  fd_inbox :: "event list"
  fd_cap :: nat

text \<open>The non-blocking send of a worker.\<close>

definition send_event :: "market_update \<Rightarrow> 'y feed \<Rightarrow> 'y feed" where
  "send_event ev w =
     (if length (fd_inbox w) < fd_cap w then w\<lparr>fd_inbox := fd_inbox w @ [MarketUpdate ev]\<rparr> else w)"

text \<open>\<open>quant.NextSeq(w.seq)\<close>\<close>

definition take_seq :: "'y feed \<Rightarrow> u64 \<times> 'y feed" where
  "take_seq w = (case NextSeq (fd_seq w) of (r, seq) \<Rightarrow> (r, w\<lparr>fd_seq := seq\<rparr>))"

section \<open>JSON numbers kept as text\<close>

definition drop_digits :: "string \<Rightarrow> string" where
  "drop_digits s = dropWhile (\<lambda>c. digit_val c \<noteq> None) s"

definition starts_digit :: "string \<Rightarrow> bool" where
  "starts_digit s \<longleftrightarrow> s \<noteq> [] \<and> digit_val (hd s) \<noteq> None"

text \<open>\<open>json.isValidNumber\<close>: sign, integer part, fraction, exponent.\<close>

definition isValidNumber :: "string \<Rightarrow> bool" where
  "isValidNumber s =
     (let s = (if s \<noteq> [] \<and> hd s = CHR ''-'' then tl s else s) in
      starts_digit s \<and>
      (let s = (if hd s = CHR ''0'' then tl s else drop_digits s);
           frac = (2 \<le> length s \<and> hd s = CHR ''.'' \<and> starts_digit (tl s));
           s = (if frac then drop_digits (tl s) else s);
           expo = (2 \<le> length s \<and> (hd s = CHR ''e'' \<or> hd s = CHR ''E''));
           t = (if expo then (if hd (tl s) = CHR ''+'' \<or> hd (tl s) = CHR ''-'' then tl (tl s) else tl s) else [])
       in if expo then starts_digit t \<and> drop_digits t = [] else s = []))"

definition set_number :: "(string \<Rightarrow> 'r \<Rightarrow> 'r) \<Rightarrow> json \<Rightarrow> 'r \<Rightarrow> 'r option" where
  "set_number upd v r =
     (case v of
        JNull \<Rightarrow> Some r
      | JNum lit \<Rightarrow> Some (upd lit r)
      | JStr s \<Rightarrow> (if isValidNumber s then Some (upd s r) else None)
      | _ \<Rightarrow> None)"

definition set_struct :: "'q field list \<Rightarrow> ('r \<Rightarrow> 'q) \<Rightarrow> ('q \<Rightarrow> 'r \<Rightarrow> 'r) \<Rightarrow> json \<Rightarrow> 'r \<Rightarrow> 'r option" where
  "set_struct fs get upd v r = map_option (\<lambda>q. upd q r) (Unmarshal fs v (get r))"

definition set_structs :: "'q field list \<Rightarrow> 'q \<Rightarrow> ('q list \<Rightarrow> 'r \<Rightarrow> 'r) \<Rightarrow> json \<Rightarrow> 'r \<Rightarrow> 'r option" where
  "set_structs fs zero upd v r =
     (case v of
        JNull \<Rightarrow> Some (upd [] r)
      | JArr vs \<Rightarrow>
          (let qs = map (\<lambda>v. Unmarshal fs v zero) vs in
           if None \<in> set qs then None else Some (upd (map the qs) r))
      | _ \<Rightarrow> None)"

section \<open>Upbit\<close>

record upbit_ticker =
  ut_Type :: string
  ut_Code :: string
  ut_TradePrice :: string
  ut_AccTradeVolume24h :: string
  ut_Timestamp :: i64

definition zero_upbit_ticker :: upbit_ticker where
  "zero_upbit_ticker =
     \<lparr>ut_Type = [], ut_Code = [], ut_TradePrice = [], ut_AccTradeVolume24h = [], ut_Timestamp = 0\<rparr>"

definition upbit_ticker_fields :: "upbit_ticker field list" where
  "upbit_ticker_fields =
     [(''type'', set_string (\<lambda>x. ut_Type_update (\<lambda>_. x))),
      (''code'', set_string (\<lambda>x. ut_Code_update (\<lambda>_. x))),
      (''trade_price'', set_number (\<lambda>x. ut_TradePrice_update (\<lambda>_. x))),
      (''acc_trade_volume_24h'', set_number (\<lambda>x. ut_AccTradeVolume24h_update (\<lambda>_. x))),
      (''timestamp'', set_int64 (\<lambda>x. ut_Timestamp_update (\<lambda>_. x)))]"

definition TrimPrefix :: "string \<Rightarrow> string \<Rightarrow> string" where
  "TrimPrefix s prefix = (if take (length prefix) s = prefix then drop (length prefix) s else s)"

definition upbit_OnMessage :: "ws_msg \<Rightarrow> string list feed \<Rightarrow> string list feed" where
  "upbit_OnMessage msg w =
     (case msg of
        JsonMsg v \<Rightarrow>
          (case Unmarshal upbit_ticker_fields v zero_upbit_ticker of
             None \<Rightarrow> w
           | Some resp \<Rightarrow>
               if ut_Type resp \<noteq> ''ticker'' then w
               else (case take_seq w of (seq, w) \<Rightarrow>
                 send_event
                   \<lparr>mu_Seq = seq, mu_Ts = ut_Timestamp resp * 1000,
                    mu_Symbol = TrimPrefix (ut_Code resp) ''KRW-'',
                    mu_PriceMicros = ToPriceMicrosStr (ut_TradePrice resp),
                    mu_QtySats = ToQtySatsStr (ut_AccTradeVolume24h resp),
                    mu_Exchange = ''UPBIT''\<rparr> w))
      | _ \<Rightarrow> w)"

text \<open>The codes subscribed to in \<open>OnConnect\<close>.\<close>

definition upbit_codes :: "string list feed \<Rightarrow> string list" where
  "upbit_codes w = map (\<lambda>s. ''KRW-'' @ s) (fd_symbols w)"

section \<open>Bitget\<close>

record subscribe_arg =
  sa_InstType :: string
  sa_Channel :: string
  sa_InstId :: string

record ticker_data =
  td_InstId :: string
  td_LastPr :: string
  td_BaseVolume :: string
  td_Volume24h :: string

record bitget_ticker =
  bt_Action :: string
  bt_Arg :: subscribe_arg
  bt_Data :: "ticker_data list"
  bt_Ts :: i64

definition zero_subscribe_arg :: subscribe_arg where
  "zero_subscribe_arg = \<lparr>sa_InstType = [], sa_Channel = [], sa_InstId = []\<rparr>"

definition zero_ticker_data :: ticker_data where
  "zero_ticker_data = \<lparr>td_InstId = [], td_LastPr = [], td_BaseVolume = [], td_Volume24h = []\<rparr>"

definition zero_bitget_ticker :: bitget_ticker where
  "zero_bitget_ticker = \<lparr>bt_Action = [], bt_Arg = zero_subscribe_arg, bt_Data = [], bt_Ts = 0\<rparr>"

definition subscribe_arg_fields :: "subscribe_arg field list" where
  "subscribe_arg_fields =
     [(''instType'', set_string (\<lambda>x. sa_InstType_update (\<lambda>_. x))),
      (''channel'', set_string (\<lambda>x. sa_Channel_update (\<lambda>_. x))),
      (''instId'', set_string (\<lambda>x. sa_InstId_update (\<lambda>_. x)))]"

definition ticker_data_fields :: "ticker_data field list" where
  "ticker_data_fields =
     [(''instId'', set_string (\<lambda>x. td_InstId_update (\<lambda>_. x))),
      (''lastPr'', set_string (\<lambda>x. td_LastPr_update (\<lambda>_. x))),
      (''baseVolume'', set_string (\<lambda>x. td_BaseVolume_update (\<lambda>_. x))),
      (''volume24h'', set_string (\<lambda>x. td_Volume24h_update (\<lambda>_. x)))]"

definition bitget_ticker_fields :: "bitget_ticker field list" where
  "bitget_ticker_fields =
     [(''action'', set_string (\<lambda>x. bt_Action_update (\<lambda>_. x))),
      (''arg'', set_struct subscribe_arg_fields bt_Arg (\<lambda>x. bt_Arg_update (\<lambda>_. x))),
      (''data'', set_structs ticker_data_fields zero_ticker_data (\<lambda>x. bt_Data_update (\<lambda>_. x))),
      (''ts'', set_int64 (\<lambda>x. bt_Ts_update (\<lambda>_. x)))]"

text \<open>The symbol map of a Bitget worker is the list of its entries in the order Go iterates.\<close>

definition findSymbol :: "string \<Rightarrow> (string \<times> string) list \<Rightarrow> string" where
  "findSymbol instId symbols =
     (case find (\<lambda>(s, i). i = instId) symbols of Some (s, i) \<Rightarrow> s | None \<Rightarrow> [])"

text \<open>The loop over the tickers of a message; the spot worker reads \<open>baseVolume\<close>, the futures
  worker \<open>volume24h\<close>.\<close>

fun ticker_loop ::
  "(ticker_data \<Rightarrow> string) \<Rightarrow> string \<Rightarrow> i64 \<Rightarrow> ticker_data list \<Rightarrow>
     (string \<times> string) list feed \<Rightarrow> (string \<times> string) list feed" where
  "ticker_loop volume exchange ts [] w = w"
| "ticker_loop volume exchange ts (d # ds) w =
     (let symbol = findSymbol (td_InstId d) (fd_symbols w) in
      if symbol = [] then ticker_loop volume exchange ts ds w
      else (case take_seq w of (seq, w) \<Rightarrow>
        ticker_loop volume exchange ts ds
          (send_event
             \<lparr>mu_Seq = seq, mu_Ts = ts, mu_Symbol = symbol,
              mu_PriceMicros = ToPriceMicrosStr (td_LastPr d),
              mu_QtySats = ToQtySatsStr (volume d), mu_Exchange = exchange\<rparr> w)))"

definition bitget_OnMessage ::
  "(ticker_data \<Rightarrow> string) \<Rightarrow> string \<Rightarrow> ws_msg \<Rightarrow> (string \<times> string) list feed \<Rightarrow> (string \<times> string) list feed" where
  "bitget_OnMessage volume exchange msg w =
     (case msg of
        JsonMsg v \<Rightarrow>
          (case Unmarshal bitget_ticker_fields v zero_bitget_ticker of
             None \<Rightarrow> w
           | Some resp \<Rightarrow>
               if sa_Channel (bt_Arg resp) \<noteq> ''ticker'' \<or> bt_Data resp = [] then w
               else ticker_loop volume exchange (bt_Ts resp * 1000) (bt_Data resp) w)
      | _ \<Rightarrow> w)"

definition spot_OnMessage :: "ws_msg \<Rightarrow> (string \<times> string) list feed \<Rightarrow> (string \<times> string) list feed" where
  "spot_OnMessage msg w = bitget_OnMessage td_BaseVolume ''BITGET_SPOT'' msg w"

definition futures_OnMessage :: "ws_msg \<Rightarrow> (string \<times> string) list feed \<Rightarrow> (string \<times> string) list feed" where
  "futures_OnMessage msg w = bitget_OnMessage td_Volume24h ''BITGET_FUTURES'' msg w"

definition subscribe_args :: "string \<Rightarrow> (string \<times> string) list feed \<Rightarrow> subscribe_arg list" where
  "subscribe_args instType w =
     map (\<lambda>(s, i). \<lparr>sa_InstType = instType, sa_Channel = ''ticker'', sa_InstId = i\<rparr>) (fd_symbols w)"

section \<open>The reconnecting WebSocket worker\<close>

text \<open>What one round of the connection loop meets: the context is done, the dial or the
  handler's \<open>OnConnect\<close> fails, or a session delivers messages until a read fails.\<close>

datatype ws_round = CtxCancelled | DialFails | OnConnectFails | Session "ws_msg list"

record 'h base_ws =
  ws_handler :: 'h
  ws_conn :: bool
  ws_retry :: int
  ws_delays :: "i64 list"

definition ws_close :: "'h base_ws \<Rightarrow> 'h base_ws" where
  "ws_close w = w\<lparr>ws_conn := False\<rparr>"

text \<open>\<open>connect\<close>: \<open>True\<close> is a nil error.\<close>

definition ws_connect :: "ws_round \<Rightarrow> 'h base_ws \<Rightarrow> bool \<times> 'h base_ws" where
  "ws_connect r w =
     (case r of
        Session msgs \<Rightarrow> (True, w\<lparr>ws_conn := True\<rparr>)
      | OnConnectFails \<Rightarrow> (False, ws_close (w\<lparr>ws_conn := True\<rparr>))
      | _ \<Rightarrow> (False, w))"

text \<open>\<open>process\<close>: every message goes to the handler; the failing read closes the connection.\<close>

definition ws_process :: "(ws_msg \<Rightarrow> 'h \<Rightarrow> 'h) \<Rightarrow> ws_msg list \<Rightarrow> 'h base_ws \<Rightarrow> 'h base_ws" where
  "ws_process onMessage msgs w = ws_close (w\<lparr>ws_handler := fold onMessage msgs (ws_handler w)\<rparr>)"

fun runLoop :: "(ws_msg \<Rightarrow> 'h \<Rightarrow> 'h) \<Rightarrow> ws_round list \<Rightarrow> 'h base_ws \<Rightarrow> 'h base_ws" where
  "runLoop onMessage [] w = w"
| "runLoop onMessage (r # rs) w =
     (if r = CtxCancelled then w
      else
        (case ws_connect r w of
           (False, w) \<Rightarrow>
             runLoop onMessage rs
               (w\<lparr>ws_delays := ws_delays w @ [CalculateBackoff (ws_retry w)], ws_retry := ws_retry w + 1\<rparr>)
         | (True, w) \<Rightarrow>
             runLoop onMessage rs
               (ws_process onMessage (case r of Session msgs \<Rightarrow> msgs | _ \<Rightarrow> []) (w\<lparr>ws_retry := 0\<rparr>))))"

text \<open>\<open>Write\<close>: whether the socket accepts the message is up to the network.\<close>

datatype ws_error = WsNotConnected | WsWriteFailed

definition ws_Write :: "bool \<Rightarrow> 'h base_ws \<Rightarrow> ws_error option" where
  "ws_Write accepted w =
     (if \<not> ws_conn w then Some WsNotConnected
      else if accepted then None else Some WsWriteFailed)"

definition NewBaseWSWorker :: "'h \<Rightarrow> 'h base_ws" where
  "NewBaseWSWorker handler = \<lparr>ws_handler = handler, ws_conn = False, ws_retry = 0, ws_delays = []\<rparr>"

section \<open>What the connection loop relies on\<close>

text \<open>Offering an event: draw a number, put it into the event, send without blocking.\<close>

definition offer_event :: "market_update \<Rightarrow> 'y feed \<Rightarrow> 'y feed" where
  "offer_event e w = send_event (e\<lparr>mu_Seq := fd_seq w + 1\<rparr>) (w\<lparr>fd_seq := fd_seq w + 1\<rparr>)"

lemma offer_event_simps [simp]:
  "fd_symbols (offer_event e w) = fd_symbols w" "fd_cap (offer_event e w) = fd_cap w"
  "fd_seq (offer_event e w) = fd_seq w + 1"
  "fd_inbox (offer_event e w) = fd_inbox w @
     (if length (fd_inbox w) < fd_cap w then [MarketUpdate (e\<lparr>mu_Seq := fd_seq w + 1\<rparr>)] else [])"
  by (simp_all add: offer_event_def send_event_def)

lemma fold_offer_event:
  "(\<exists>evs. fd_inbox (fold offer_event es w) = fd_inbox w @ evs) \<and>
   (length (fd_inbox w) \<le> fd_cap w \<longrightarrow> length (fd_inbox (fold offer_event es w)) \<le> fd_cap w) \<and>
   fd_cap (fold offer_event es w) = fd_cap w"
proof (induction es arbitrary: w)
  case (Cons e es)
  from Cons [of "offer_event e w"] show ?case by (auto split: if_splits)
qed simp

text \<open>What a message quotes, as the events it becomes before they are numbered; the numbers and the inbox
  are the only things the workers share.\<close>

definition upbit_quotes :: "string list \<Rightarrow> ws_msg \<Rightarrow> market_update list" where
  "upbit_quotes symbols msg =
     (case msg of
        JsonMsg v \<Rightarrow>
          (case Unmarshal upbit_ticker_fields v zero_upbit_ticker of
             None \<Rightarrow> []
           | Some resp \<Rightarrow>
               if ut_Type resp \<noteq> ''ticker'' then []
               else [\<lparr>mu_Seq = 0, mu_Ts = ut_Timestamp resp * 1000, mu_Symbol = TrimPrefix (ut_Code resp) ''KRW-'',
                      mu_PriceMicros = ToPriceMicrosStr (ut_TradePrice resp),
                      mu_QtySats = ToQtySatsStr (ut_AccTradeVolume24h resp), mu_Exchange = ''UPBIT''\<rparr>])
      | _ \<Rightarrow> [])"

definition ticker_quote ::
  "(ticker_data \<Rightarrow> string) \<Rightarrow> string \<Rightarrow> i64 \<Rightarrow> (string \<times> string) list \<Rightarrow> ticker_data \<Rightarrow> market_update list" where
  "ticker_quote volume exchange ts symbols d =
     (let symbol = findSymbol (td_InstId d) symbols in
      if symbol = [] then []
      else [\<lparr>mu_Seq = 0, mu_Ts = ts, mu_Symbol = symbol, mu_PriceMicros = ToPriceMicrosStr (td_LastPr d),
             mu_QtySats = ToQtySatsStr (volume d), mu_Exchange = exchange\<rparr>])"

definition bitget_quotes ::
  "(ticker_data \<Rightarrow> string) \<Rightarrow> string \<Rightarrow> (string \<times> string) list \<Rightarrow> ws_msg \<Rightarrow> market_update list" where
  "bitget_quotes volume exchange symbols msg =
     (case msg of
        JsonMsg v \<Rightarrow>
          (case Unmarshal bitget_ticker_fields v zero_bitget_ticker of
             None \<Rightarrow> []
           | Some resp \<Rightarrow>
               if sa_Channel (bt_Arg resp) \<noteq> ''ticker'' \<or> bt_Data resp = [] then []
               else concat (map (ticker_quote volume exchange (bt_Ts resp * 1000) symbols) (bt_Data resp)))
      | _ \<Rightarrow> [])"

text \<open>A message handler does nothing to its feed but offer the events its messages quote.\<close>

locale message_handler =
  fixes on_message :: "ws_msg \<Rightarrow> 'y feed \<Rightarrow> 'y feed" and quotes :: "'y \<Rightarrow> ws_msg \<Rightarrow> market_update list"
  assumes offers_quotes: "on_message msg w = fold offer_event (quotes (fd_symbols w) msg) w"
begin

lemma offers: "\<exists>es. on_message msg w = fold offer_event es w"
  using offers_quotes by blast

lemma appends: "\<exists>evs. fd_inbox (on_message msg w) = fd_inbox w @ evs"
  using offers [of msg w] fold_offer_event by metis

lemma bounded: "length (fd_inbox w) \<le> fd_cap w \<Longrightarrow> length (fd_inbox (on_message msg w)) \<le> fd_cap w"
  using offers [of msg w] fold_offer_event by metis

lemma capacity: "fd_cap (on_message msg w) = fd_cap w"
  using offers [of msg w] fold_offer_event by metis

lemma fold_messages:
  "(\<exists>evs. fd_inbox (fold on_message msgs w) = fd_inbox w @ evs) \<and>
   (length (fd_inbox w) \<le> fd_cap w \<longrightarrow> length (fd_inbox (fold on_message msgs w)) \<le> fd_cap w) \<and>
   fd_cap (fold on_message msgs w) = fd_cap w"
proof (induction msgs arbitrary: w)
  case (Cons m msgs)
  obtain evs where "fd_inbox (on_message m w) = fd_inbox w @ evs" using appends by blast
  moreover obtain evs' where "fd_inbox (fold on_message msgs (on_message m w)) = fd_inbox (on_message m w) @ evs'"
    using Cons [of "on_message m w"] by blast
  ultimately have "\<exists>vs. fd_inbox (fold on_message msgs (on_message m w)) = fd_inbox w @ vs" by simp
  then show ?case using Cons [of "on_message m w"] bounded [of w m] capacity [of m w] by simp
qed simp

lemma runLoop_inbox:
  "(\<exists>evs. fd_inbox (ws_handler (runLoop on_message rs w)) = fd_inbox (ws_handler w) @ evs) \<and>
   (length (fd_inbox (ws_handler w)) \<le> fd_cap (ws_handler w) \<longrightarrow>
      length (fd_inbox (ws_handler (runLoop on_message rs w))) \<le> fd_cap (ws_handler w))"
proof (induction rs arbitrary: w)
  case (Cons r rs)
  show ?case
  proof (cases r)
    case (Session msgs)
    let ?w = "ws_process on_message msgs ((snd (ws_connect r w))\<lparr>ws_retry := 0\<rparr>)"
    have h: "ws_handler ?w = fold on_message msgs (ws_handler w)"
      by (simp add: ws_process_def ws_close_def ws_connect_def Session)
    have run: "runLoop on_message (r # rs) w = runLoop on_message rs ?w"
      by (simp add: Session ws_connect_def)
    obtain evs where "fd_inbox (ws_handler ?w) = fd_inbox (ws_handler w) @ evs"
      using fold_messages [of msgs "ws_handler w"] h by auto
    moreover obtain vs where "fd_inbox (ws_handler (runLoop on_message rs ?w)) = fd_inbox (ws_handler ?w) @ vs"
      using Cons [of ?w] by blast
    ultimately show ?thesis
      using Cons [of ?w] fold_messages [of msgs "ws_handler w"] unfolding run h by simp
  next
    case DialFails
    then show ?thesis
      using Cons [of "w\<lparr>ws_delays := ws_delays w @ [CalculateBackoff (ws_retry w)], ws_retry := ws_retry w + 1\<rparr>"]
      by (simp add: ws_connect_def)
  next
    case OnConnectFails
    then show ?thesis
      using Cons [of "w\<lparr>ws_conn := False, ws_delays := ws_delays w @ [CalculateBackoff (ws_retry w)],
          ws_retry := ws_retry w + 1\<rparr>"]
      by (simp add: ws_connect_def ws_close_def)
  qed simp
qed simp

end

lemma take_seq_simps [simp]: "take_seq w = (fd_seq w + 1, w\<lparr>fd_seq := fd_seq w + 1\<rparr>)"
  by (simp add: take_seq_def NextSeq_def)

lemma upbit_offers: "upbit_OnMessage msg w = fold offer_event (upbit_quotes (fd_symbols w) msg) w"
  by (simp add: upbit_OnMessage_def upbit_quotes_def offer_event_def split: ws_msg.splits option.splits)

lemma ticker_loop_offers:
  "ticker_loop v x ts ds w = fold offer_event (concat (map (ticker_quote v x ts (fd_symbols w)) ds)) w"
proof (induction ds arbitrary: w)
  case (Cons d ds)
  show ?case
  proof (cases "findSymbol (td_InstId d) (fd_symbols w) = []")
    case True
    then show ?thesis using Cons by (simp add: ticker_quote_def)
  next
    case False
    let ?e = "\<lparr>mu_Seq = 0, mu_Ts = ts, mu_Symbol = findSymbol (td_InstId d) (fd_symbols w),
        mu_PriceMicros = ToPriceMicrosStr (td_LastPr d), mu_QtySats = ToQtySatsStr (v d), mu_Exchange = x\<rparr>"
    have "ticker_loop v x ts (d # ds) w = ticker_loop v x ts ds (offer_event ?e w)"
      using False by (simp add: Let_def offer_event_def)
    then show ?thesis using Cons [of "offer_event ?e w"] False by (simp add: ticker_quote_def)
  qed
qed simp

lemma bitget_offers: "bitget_OnMessage v x msg w = fold offer_event (bitget_quotes v x (fd_symbols w) msg) w"
  by (simp add: bitget_OnMessage_def bitget_quotes_def ticker_loop_offers split: ws_msg.splits option.splits)

interpretation upbit: message_handler upbit_OnMessage upbit_quotes
  by unfold_locales (rule upbit_offers)

interpretation spot: message_handler spot_OnMessage "bitget_quotes td_BaseVolume ''BITGET_SPOT''"
  by unfold_locales (simp add: spot_OnMessage_def bitget_offers)

interpretation futures: message_handler futures_OnMessage "bitget_quotes td_Volume24h ''BITGET_FUTURES''"
  by unfold_locales (simp add: futures_OnMessage_def bitget_offers)

section \<open>Properties\<close>

text \<open>A feed never blocks or overfills the sequencer's inbox and never touches an event it has
  already delivered: over any sequence of connections, failures and messages, each of the three
  workers only appends events, and the inbox stays within its capacity.\<close>

lemma feeds_respect_inbox:
  assumes "length (fd_inbox (ws_handler wu)) \<le> fd_cap (ws_handler wu)"
    and "length (fd_inbox (ws_handler wb)) \<le> fd_cap (ws_handler wb)"
  shows "(\<exists>evs. fd_inbox (ws_handler (runLoop upbit_OnMessage rs wu)) = fd_inbox (ws_handler wu) @ evs) \<and>
    length (fd_inbox (ws_handler (runLoop upbit_OnMessage rs wu))) \<le> fd_cap (ws_handler wu) \<and>
    (\<exists>evs. fd_inbox (ws_handler (runLoop spot_OnMessage rs wb)) = fd_inbox (ws_handler wb) @ evs) \<and>
    length (fd_inbox (ws_handler (runLoop spot_OnMessage rs wb))) \<le> fd_cap (ws_handler wb) \<and>
    (\<exists>evs. fd_inbox (ws_handler (runLoop futures_OnMessage rs wb)) = fd_inbox (ws_handler wb) @ evs) \<and>
    length (fd_inbox (ws_handler (runLoop futures_OnMessage rs wb))) \<le> fd_cap (ws_handler wb)"
  using assms upbit.runLoop_inbox [of rs wu] spot.runLoop_inbox [of rs wb] futures.runLoop_inbox [of rs wb]
  by blast

definition example_feed :: "'y \<Rightarrow> 'y feed" where
  "example_feed symbols = \<lparr>fd_symbols = symbols, fd_seq = 0, fd_inbox = [], fd_cap = 1\<rparr>"

lemma feeds_respect_inbox_witness:
  "length (fd_inbox (ws_handler (runLoop upbit_OnMessage [DialFails, Session [Pong, NotJson]]
     (NewBaseWSWorker (example_feed [''BTC'']))))) \<le> 1"
  using feeds_respect_inbox [of "NewBaseWSWorker (example_feed [''BTC''])"
      "NewBaseWSWorker (example_feed [(''BTC'', ''BTCUSDT'')])" "[DialFails, Session [Pong, NotJson]]"]
  by (simp only: NewBaseWSWorker_def example_feed_def base_ws.simps feed.simps) simp

text \<open>From the exchange's decimal to the event, nothing is lost: an Upbit ticker message with
  decimal price and volume becomes one event with the symbol without its \<open>KRW-\<close> prefix, the
  price in millionths and the volume in hundred-millionths (digits beyond dropped), the time in
  microseconds and the next sequence number, appended to an inbox with room.\<close>

lemma upbit_ticker_becomes_event:
  assumes "digits ip" "digits fp" "fp \<noteq> []" "scaled 6 ip fp \<le> 9223372036854775807"
    and "digits iv" "digits fv" "fv \<noteq> []" "scaled 8 iv fv \<le> 9223372036854775807"
    and "length (fd_inbox w) < fd_cap w"
  shows "\<exists>e. upbit_OnMessage (JsonMsg (JObj [(''type'', JStr ''ticker''), (''code'', JStr (''KRW-'' @ symbol)),
        (''trade_price'', JNum (decimal False ip fp)), (''acc_trade_volume_24h'', JNum (decimal False iv fv)),
        (''timestamp'', json_int64 ts)])) w =
      w\<lparr>fd_seq := fd_seq w + 1, fd_inbox := fd_inbox w @ [MarketUpdate e]\<rparr> \<and>
    mu_Seq e = fd_seq w + 1 \<and> mu_Ts e = ts * 1000 \<and> mu_Symbol e = symbol \<and> mu_Exchange e = ''UPBIT'' \<and>
    sint (mu_PriceMicros e) = int (scaled 6 ip fp) \<and> sint (mu_QtySats e) = int (scaled 8 iv fv)"
proof -
  have p: "ToPriceMicrosStr (decimal False ip fp) = of_nat (scaled 6 ip fp)"
    using quant_parse_decimal [OF assms(1-3) _ assms(4), of False] by (simp add: ToPriceMicrosStr_def)
  have q: "ToQtySatsStr (decimal False iv fv) = of_nat (scaled 8 iv fv)"
    using quant_parse_decimal [OF assms(5-7) _ assms(8), of False] by (simp add: ToQtySatsStr_def)
  have u: "Unmarshal upbit_ticker_fields (JObj [(''type'', JStr ''ticker''), (''code'', JStr (''KRW-'' @ symbol)),
        (''trade_price'', JNum (decimal False ip fp)), (''acc_trade_volume_24h'', JNum (decimal False iv fv)),
        (''timestamp'', json_int64 ts)]) zero_upbit_ticker =
      Some \<lparr>ut_Type = ''ticker'', ut_Code = ''KRW-'' @ symbol, ut_TradePrice = decimal False ip fp,
        ut_AccTradeVolume24h = decimal False iv fv, ut_Timestamp = ts\<rparr>"
    by (simp add: Unmarshal_def upbit_ticker_fields_def zero_upbit_ticker_def find_field_def set_string_def set_number_def)
  show ?thesis
    using assms(9) signed_scaled(1) [OF assms(4)] signed_scaled(1) [OF assms(8)]
    unfolding upbit_OnMessage_def ws_msg.case u
    by (intro exI [of _ "\<lparr>mu_Seq = fd_seq w + 1, mu_Ts = ts * 1000, mu_Symbol = symbol,
        mu_PriceMicros = of_nat (scaled 6 ip fp), mu_QtySats = of_nat (scaled 8 iv fv), mu_Exchange = ''UPBIT''\<rparr>"])
      (simp add: send_event_def TrimPrefix_def p q)
qed

lemma upbit_ticker_becomes_event_witness:
  "\<exists>e. fd_inbox (upbit_OnMessage (JsonMsg (JObj [(''type'', JStr ''ticker''), (''code'', JStr ''KRW-BTC''),
        (''trade_price'', JNum ''95.5''), (''acc_trade_volume_24h'', JNum ''2.25''),
        (''timestamp'', json_int64 7)])) (example_feed [''BTC''])) = [MarketUpdate e] \<and>
     mu_Symbol e = ''BTC'' \<and> sint (mu_PriceMicros e) = 95500000"
proof -
  have "\<exists>e. upbit_OnMessage (JsonMsg (JObj [(''type'', JStr ''ticker''), (''code'', JStr (''KRW-'' @ ''BTC'')),
        (''trade_price'', JNum (decimal False ''95'' ''5'')), (''acc_trade_volume_24h'', JNum (decimal False ''2'' ''25'')),
        (''timestamp'', json_int64 7)])) (example_feed [''BTC'']) =
      (example_feed [''BTC''])\<lparr>fd_seq := fd_seq (example_feed [''BTC'']) + 1,
        fd_inbox := fd_inbox (example_feed [''BTC'']) @ [MarketUpdate e]\<rparr> \<and>
    mu_Seq e = fd_seq (example_feed [''BTC'']) + 1 \<and> mu_Ts e = 7 * 1000 \<and> mu_Symbol e = ''BTC'' \<and>
    mu_Exchange e = ''UPBIT'' \<and>
    sint (mu_PriceMicros e) = int (scaled 6 ''95'' ''5'') \<and> sint (mu_QtySats e) = int (scaled 8 ''2'' ''25'')"
    by (rule upbit_ticker_becomes_event)
      (simp_all add: digit_val_def scaled_def decval_def example_feed_def)
  then show ?thesis by (auto simp: decimal_def scaled_def decval_def digit_val_def example_feed_def)
qed

lemma runLoop_failures:
  "\<forall>r \<in> set rs. r = DialFails \<or> r = OnConnectFails \<Longrightarrow>
    ws_delays (runLoop h rs w) =
      ws_delays w @ map (\<lambda>i. CalculateBackoff (ws_retry w + int i)) [0..<length rs]"
proof (induction rs arbitrary: w)
  case (Cons r rs)
  let ?w = "(snd (ws_connect r w))\<lparr>ws_delays := ws_delays w @ [CalculateBackoff (ws_retry w)], ws_retry := ws_retry w + 1\<rparr>"
  have run: "runLoop h (r # rs) w = runLoop h rs ?w"
    using Cons.prems by (auto simp: ws_connect_def ws_close_def)
  have idx: "[0..<length (r # rs)] = 0 # map Suc [0..<length rs]" by (simp only: list.size add_Suc_right add_0_right map_Suc_upt upt_conv_Cons zero_less_Suc)
  show ?case
    using Cons.IH [of ?w] Cons.prems unfolding run idx by (simp add: comp_def algebra_simps)
qed simp

text \<open>Reconnection backs off and starts over: after a session, each further failed connection
  waits one second, two, four, and so on, never more than a minute.\<close>

lemma reconnect_backs_off:
  assumes "\<forall>r \<in> set rs. r = DialFails \<or> r = OnConnectFails" "i < length rs"
  shows "sint ((ws_delays (runLoop h (Session msgs # rs) w)) ! (length (ws_delays w) + i)) =
    min (60 * 1000000000) (1000000000 * 2 ^ i)"
proof -
  let ?w = "ws_process h msgs (w\<lparr>ws_conn := True, ws_retry := 0\<rparr>)"
  have run: "runLoop h (Session msgs # rs) w = runLoop h rs ?w" by (simp add: ws_connect_def)
  have "ws_retry ?w = 0" "ws_delays ?w = ws_delays w" by (simp_all add: ws_process_def ws_close_def)
  then have "ws_delays (runLoop h (Session msgs # rs) w) ! (length (ws_delays w) + i) = CalculateBackoff (int i)"
    using runLoop_failures [OF assms(1), of h ?w] assms(2) unfolding run by (simp add: nth_append)
  then show ?thesis by (simp add: CalculateBackoff_exact)
qed

lemma reconnect_backs_off_witness:
  "sint (ws_delays (runLoop upbit_OnMessage [Session [], DialFails, OnConnectFails]
     (NewBaseWSWorker (example_feed []))) ! 1) = 2000000000"
  using reconnect_backs_off [of "[DialFails, OnConnectFails]" 1 upbit_OnMessage "[]" "NewBaseWSWorker (example_feed [])"]
  by (simp add: NewBaseWSWorker_def)

text \<open>A number in exponent notation is misread: JSON allows it and \<open>json.Number\<close> accepts it,
  but the fixed-point parser stops at the exponent, so a volume of \<open>1.5e-7\<close> (15 units of
  \<open>10^-8\<close>) is taken for exactly one.\<close>

lemma exponent_is_misread:
  "isValidNumber ''1.5e-7'' \<and> sint (ToQtySatsStr ''1.5e-7'') = 100000000"
proof -
  have "ParseInt ''5e-7'' = (0, Some ErrSyntax)" "ParseInt ''1'' = (1, None)"
    by (simp_all add: ParseInt_def ParseUint_def digit_val_def Let_def MaxUint64_def)
  then have "ToQtySatsStr ''1.5e-7'' = 100000000"
    by (simp add: ToQtySatsStr_def quant_parseFixedPoint_def Let_def SplitN2_def times10_eq)
  moreover have "isValidNumber ''1.5e-7''"
    by (simp add: isValidNumber_def starts_digit_def drop_digits_def digit_val_def Let_def)
  ultimately show ?thesis by simp
qed

end
