(* ===== verification/Http.thy ===== *)
theory Http
  imports Json
begin

text \<open>
  What the REST clients see of \<open>net/http\<close>: a request as it is handed to the HTTP client, and
  a response as its status and its body, which can fail to be read, can be bytes that are not
  JSON, or a JSON value.
\<close>

record request =
  rq_method :: string
  rq_url :: string
  rq_headers :: "string \<rightharpoonup> string"
  rq_body :: "string option"

datatype http_body = ReadFails | BodyNotJson | BodyJson json

record http_response =
  hr_StatusCode :: int
  hr_Body :: http_body

end
