(* ===== verification/Exchange_Rate.thy ===== *)
theory Exchange_Rate
  imports Feeds Http
begin

text \<open>
  The USD/KRW exchange rate gateway (\<open>internal/infra/exchange_rate.go\<close>): a poller that asks a
  rate API over HTTP, up to three times with a backoff, and sends the rate to the sequencer's
  inbox as a market update. What an attempt meets is an argument: whether the URL makes a
  request, the answer of the HTTP client, and the clock. The client's settings take the place
  of the symbols of the other gateways.
\<close>

section \<open>The client\<close>

record rate_settings =
  rs_pollInterval :: i64
  rs_apiURL :: string

type_synonym rate_client = "rate_settings feed"

definition NewExchangeRateClient :: "event list \<Rightarrow> nat \<Rightarrow> u64 \<Rightarrow> rate_client" where
  "NewExchangeRateClient inbox cap seq =
     \<lparr>fd_symbols = \<lparr>rs_pollInterval = 60 * 1000000000, rs_apiURL = ''https://query1.finance.yahoo.com/v8/finance/chart/KRW=X''\<rparr>,
      fd_seq = seq, fd_inbox = inbox, fd_cap = cap\<rparr>"

definition NewExchangeRateClientWithConfig :: "event list \<Rightarrow> nat \<Rightarrow> u64 \<Rightarrow> string \<Rightarrow> i64 \<Rightarrow> rate_client" where
  "NewExchangeRateClientWithConfig inbox cap seq apiURL pollIntervalSec =
     (let client = NewExchangeRateClient inbox cap seq;
          s = fd_symbols client;
          s = (if apiURL \<noteq> [] then s\<lparr>rs_apiURL := apiURL\<rparr> else s);
          s = (if 0 <s pollIntervalSec then s\<lparr>rs_pollInterval := pollIntervalSec * 1000000000\<rparr> else s)
      in client\<lparr>fd_symbols := s\<rparr>)"

section \<open>The response\<close>

record rate_meta =
  rm_Currency :: string
  rm_Symbol :: string
  rm_RegularMarketPrice :: string
  rm_PreviousClose :: string

record rate_result =
  rr_Meta :: rate_meta

record rate_api_error =
  re_Code :: string
  re_Description :: string

record rate_chart =
  rc_Result :: "rate_result list"
  rc_Error :: "rate_api_error option"

record rate_api_response =
  ra_Chart :: rate_chart

definition zero_rate_result :: rate_result where
  "zero_rate_result =
     \<lparr>rr_Meta = \<lparr>rm_Currency = [], rm_Symbol = [], rm_RegularMarketPrice = [], rm_PreviousClose = []\<rparr>\<rparr>"

definition zero_rate_response :: rate_api_response where
  "zero_rate_response = \<lparr>ra_Chart = \<lparr>rc_Result = [], rc_Error = None\<rparr>\<rparr>"

definition rate_meta_fields :: "rate_meta field list" where
  "rate_meta_fields =
     [(''currency'', set_string (\<lambda>x. rm_Currency_update (\<lambda>_. x))),
      (''symbol'', set_string (\<lambda>x. rm_Symbol_update (\<lambda>_. x))),
      (''regularMarketPrice'', set_number (\<lambda>x. rm_RegularMarketPrice_update (\<lambda>_. x))),
      (''previousClose'', set_number (\<lambda>x. rm_PreviousClose_update (\<lambda>_. x)))]"

definition rate_result_fields :: "rate_result field list" where
  "rate_result_fields = [(''meta'', set_struct rate_meta_fields rr_Meta (\<lambda>x. rr_Meta_update (\<lambda>_. x)))]"

definition rate_api_error_fields :: "rate_api_error field list" where
  "rate_api_error_fields =
     [(''code'', set_string (\<lambda>x. re_Code_update (\<lambda>_. x))),
      (''description'', set_string (\<lambda>x. re_Description_update (\<lambda>_. x)))]"

text \<open>A pointer to a struct: \<open>null\<close> makes it nil, a value is decoded into the struct it points to,
  a new one if it is nil.\<close>

definition set_error :: "json \<Rightarrow> rate_chart \<Rightarrow> rate_chart option" where
  "set_error v r =
     (if v = JNull then Some (r\<lparr>rc_Error := None\<rparr>)
      else
        let e = (case rc_Error r of None \<Rightarrow> \<lparr>re_Code = [], re_Description = []\<rparr> | Some e \<Rightarrow> e) in
        map_option (\<lambda>e. r\<lparr>rc_Error := Some e\<rparr>) (Unmarshal rate_api_error_fields v e))"

definition rate_chart_fields :: "rate_chart field list" where
  "rate_chart_fields =
     [(''result'', set_structs rate_result_fields zero_rate_result (\<lambda>x. rc_Result_update (\<lambda>_. x))),
      (''error'', set_error)]"

definition rate_response_fields :: "rate_api_response field list" where
  "rate_response_fields = [(''chart'', set_struct rate_chart_fields ra_Chart (\<lambda>x. ra_Chart_update (\<lambda>_. x)))]"

section \<open>Fetching\<close>

datatype rate_error =
    RateBadRequest
  | RateTransport
  | RateStatus int
  | RateReadBody
  | RateNotJson
  | RateApiError string string
  | RateEmpty

record rate_attempt =
  at_url_ok :: bool
  at_http :: "string \<Rightarrow> http_response option"
  at_nowMicro :: i64

text \<open>The part of \<open>doFetch\<close> that reads the answer: the text of the price or an error.\<close>

definition rate_price :: "http_response \<Rightarrow> rate_error + string" where
  "rate_price resp =
     (if hr_StatusCode resp \<noteq> 200 then Inl (RateStatus (hr_StatusCode resp))
      else
        (case hr_Body resp of
           ReadFails \<Rightarrow> Inl RateReadBody
         | BodyNotJson \<Rightarrow> Inl RateNotJson
         | BodyJson v \<Rightarrow>
             (case Unmarshal rate_response_fields v zero_rate_response of
                None \<Rightarrow> Inl RateNotJson
              | Some r \<Rightarrow>
                  (case rc_Error (ra_Chart r) of
                     Some e \<Rightarrow> Inl (RateApiError (re_Code e) (re_Description e))
                   | None \<Rightarrow>
                       (case rc_Result (ra_Chart r) of
                          [] \<Rightarrow> Inl RateEmpty
                        | q # _ \<Rightarrow> Inr (rm_RegularMarketPrice (rr_Meta q)))))))"

definition doFetch :: "rate_attempt \<Rightarrow> rate_client \<Rightarrow> rate_error option \<times> rate_client" where
  "doFetch a c =
     (if \<not> at_url_ok a then (Some RateBadRequest, c)
      else
        (case at_http a (rs_apiURL (fd_symbols c)) of
           None \<Rightarrow> (Some RateTransport, c)
         | Some resp \<Rightarrow>
             (case rate_price resp of
                Inl e \<Rightarrow> (Some e, c)
              | Inr priceStr \<Rightarrow>
                  (case take_seq c of (seq, c) \<Rightarrow>
                     (None, send_event
                        \<lparr>mu_Seq = seq, mu_Ts = at_nowMicro a, mu_Symbol = ''USD/KRW'',
                         mu_PriceMicros = ToPriceMicrosStr priceStr, mu_QtySats = QtyScale,
                         mu_Exchange = ''FX''\<rparr> c)))))"

text \<open>The retry loop from attempt \<open>i\<close>: the delays slept, whether it returned nil, and the client.
  \<open>att i\<close> is what attempt \<open>i\<close> meets.\<close>

function fetch_loop ::
  "(nat \<Rightarrow> rate_attempt) \<Rightarrow> nat \<Rightarrow> rate_client \<Rightarrow> i64 list \<times> bool \<times> rate_client" where
  "fetch_loop att i c =
     (if i < 3 then
        (let delay = (if 0 < i then [CalculateBackoff (int i)] else []) in
         case doFetch (att i) c of
           (None, c) \<Rightarrow> (delay, True, c)
         | (Some _, c) \<Rightarrow> (case fetch_loop att (i + 1) c of (ds, ok, c) \<Rightarrow> (delay @ ds, ok, c)))
      else ([], False, c))"
  by pat_completeness auto
termination
  by (relation "measure (\<lambda>(_, i, _). 3 - i)") auto

declare fetch_loop.simps [simp del]

definition fetchRate :: "(nat \<Rightarrow> rate_attempt) \<Rightarrow> rate_client \<Rightarrow> i64 list \<times> bool \<times> rate_client" where
  "fetchRate att c = fetch_loop att 0 c"

text \<open>\<open>Start\<close>: one fetch at once and one per tick, each error ignored; the ticks end when the
  context is cancelled.\<close>

fun poll :: "(nat \<Rightarrow> rate_attempt) list \<Rightarrow> rate_client \<Rightarrow> rate_client" where
  "poll [] c = c"
| "poll (att # ticks) c = poll ticks (snd (snd (fetchRate att c)))"

definition Start_rate :: "(nat \<Rightarrow> rate_attempt) \<Rightarrow> (nat \<Rightarrow> rate_attempt) list \<Rightarrow> rate_client \<Rightarrow> rate_client" where
  "Start_rate att ticks c = poll ticks (snd (snd (fetchRate att c)))"

section \<open>Properties\<close>

definition attempt_price :: "rate_client \<Rightarrow> rate_attempt \<Rightarrow> string option" where
  "attempt_price c a =
     (if at_url_ok a then
        (case at_http a (rs_apiURL (fd_symbols c)) of
           None \<Rightarrow> None
         | Some resp \<Rightarrow> (case rate_price resp of Inl _ \<Rightarrow> None | Inr p \<Rightarrow> Some p))
      else None)"

definition rate_event :: "rate_client \<Rightarrow> rate_attempt \<Rightarrow> string \<Rightarrow> market_update" where
  "rate_event c a p =
     \<lparr>mu_Seq = fd_seq c + 1, mu_Ts = at_nowMicro a, mu_Symbol = ''USD/KRW'',
      mu_PriceMicros = ToPriceMicrosStr p, mu_QtySats = QtyScale, mu_Exchange = ''FX''\<rparr>"

text \<open>What an attempt quotes, as the event it becomes before it is numbered.\<close>

definition rate_quotes :: "rate_settings \<Rightarrow> rate_attempt \<Rightarrow> market_update list" where
  "rate_quotes settings a =
     (if at_url_ok a then
        (case at_http a (rs_apiURL settings) of
           None \<Rightarrow> []
         | Some resp \<Rightarrow>
             (case rate_price resp of
                Inl _ \<Rightarrow> []
              | Inr p \<Rightarrow> [\<lparr>mu_Seq = 0, mu_Ts = at_nowMicro a, mu_Symbol = ''USD/KRW'', mu_PriceMicros = ToPriceMicrosStr p,
                   mu_QtySats = QtyScale, mu_Exchange = ''FX''\<rparr>]))
      else [])"

lemma doFetch_quotes:
  "snd (doFetch a c) = fold offer_event (rate_quotes (fd_symbols c) a) c" "fst (doFetch a c) = None \<longleftrightarrow> rate_quotes (fd_symbols c) a \<noteq> []"
  by (simp_all add: doFetch_def rate_quotes_def offer_event_def split: option.splits sum.splits)

lemma doFetch_fails: "attempt_price c a = None \<Longrightarrow> \<exists>e. doFetch a c = (Some e, c)"
  by (auto simp: attempt_price_def doFetch_def split: if_splits option.splits sum.splits)

lemma doFetch_succeeds:
  "attempt_price c a = Some p \<Longrightarrow>
    doFetch a c = (None, send_event (rate_event c a p) (c\<lparr>fd_seq := fd_seq c + 1\<rparr>))"
  by (auto simp: attempt_price_def doFetch_def rate_event_def split: if_splits option.splits sum.splits)

lemma fetchRate_unfold:
  "fetchRate att c =
     (case attempt_price c (att 0) of
        Some p \<Rightarrow> ([], True, send_event (rate_event c (att 0) p) (c\<lparr>fd_seq := fd_seq c + 1\<rparr>))
      | None \<Rightarrow>
          (case attempt_price c (att 1) of
             Some p \<Rightarrow> ([CalculateBackoff 1], True, send_event (rate_event c (att 1) p) (c\<lparr>fd_seq := fd_seq c + 1\<rparr>))
           | None \<Rightarrow>
               (case attempt_price c (att 2) of
                  Some p \<Rightarrow> ([CalculateBackoff 1, CalculateBackoff 2], True,
                    send_event (rate_event c (att 2) p) (c\<lparr>fd_seq := fd_seq c + 1\<rparr>))
                | None \<Rightarrow> ([CalculateBackoff 1, CalculateBackoff 2], False, c))))"
proof -
  have "fetch_loop att 3 c = ([], False, c)" by (subst fetch_loop.simps) simp
  then have two: "fetch_loop att 2 c = (case attempt_price c (att 2) of
      Some p \<Rightarrow> ([CalculateBackoff 2], True, send_event (rate_event c (att 2) p) (c\<lparr>fd_seq := fd_seq c + 1\<rparr>))
    | None \<Rightarrow> ([CalculateBackoff 2], False, c))"
    using doFetch_fails [of c "att 2"] doFetch_succeeds [of c "att 2"]
    by (subst fetch_loop.simps) (auto simp: Let_def split: option.splits)
  have one: "fetch_loop att 1 c = (case attempt_price c (att 1) of
      Some p \<Rightarrow> ([CalculateBackoff 1], True, send_event (rate_event c (att 1) p) (c\<lparr>fd_seq := fd_seq c + 1\<rparr>))
    | None \<Rightarrow> (case fetch_loop att 2 c of (ds, ok, c) \<Rightarrow> (CalculateBackoff 1 # ds, ok, c)))"
    using doFetch_fails [of c "att 1"] doFetch_succeeds [of c "att 1"]
    by (subst fetch_loop.simps) (auto simp: Let_def numeral_2_eq_2 split: option.splits)
  show ?thesis
    using doFetch_fails [of c "att 0"] doFetch_succeeds [of c "att 0"] unfolding fetchRate_def
    by (subst fetch_loop.simps) (auto simp: Let_def one [simplified] two split: option.splits)
qed

text \<open>C34. A poll of the exchange rate ends after at most three attempts, separated by exactly the delays
  of the backoff, two and four seconds: it reports success exactly when one of the three attempts
  gets a price; then the attempts stop with the first such one, exactly one event with its price
  goes to the inbox (or is dropped if the inbox is full) and one sequence number is used;
  otherwise both delays were slept and nothing changes.\<close>

theorem rate_poll_ends:
  assumes "fetchRate att c = (delays, ok, c')"
  shows "(ok \<longleftrightarrow> (\<exists>i < 3. attempt_price c (att i) \<noteq> None)) \<and>
    (\<not> ok \<longrightarrow> delays = [CalculateBackoff 1, CalculateBackoff 2] \<and> c' = c) \<and>
    (ok \<longrightarrow> (\<exists>i p. i < 3 \<and> attempt_price c (att i) = Some p \<and> (\<forall>j < i. attempt_price c (att j) = None) \<and>
      delays = map (\<lambda>j. CalculateBackoff (int j)) [1..<Suc i] \<and>
      c' = c\<lparr>fd_seq := fd_seq c + 1,
        fd_inbox := fd_inbox c @ (if length (fd_inbox c) < fd_cap c then [MarketUpdate (rate_event c (att i) p)] else [])\<rparr>)) \<and>
    map sint delays = take (length delays) [2000000000, 4000000000]"
proof -
  have three: "(\<exists>i < 3. P i) \<longleftrightarrow> P 0 \<or> P 1 \<or> P (2 :: nat)" for P
    by (auto simp: numeral_3_eq_3 less_Suc_eq numeral_2_eq_2)
  have bo: "sint (CalculateBackoff 1) = 2000000000" "sint (CalculateBackoff 2) = 4000000000"
    using CalculateBackoff_exact [of 1] CalculateBackoff_exact [of 2] by simp_all
  have send: "send_event e (c\<lparr>fd_seq := fd_seq c + 1\<rparr>) = c\<lparr>fd_seq := fd_seq c + 1,
      fd_inbox := fd_inbox c @ (if length (fd_inbox c) < fd_cap c then [MarketUpdate e] else [])\<rparr>" for e
    by (simp add: send_event_def)
  consider (zero) p where "attempt_price c (att 0) = Some p"
    | (one) p where "attempt_price c (att 0) = None" "attempt_price c (att 1) = Some p"
    | (two) p where "attempt_price c (att 0) = None" "attempt_price c (att 1) = None" "attempt_price c (att 2) = Some p"
    | (none) "attempt_price c (att 0) = None" "attempt_price c (att 1) = None" "attempt_price c (att 2) = None"
    by (metis not_None_eq)
  then show ?thesis
  proof cases
    case zero
    then show ?thesis using assms unfolding fetchRate_unfold send three
      by (auto intro!: exI [of _ 0])
  next
    case one
    then show ?thesis using assms unfolding fetchRate_unfold send three
      by (auto simp: bo upt_conv_Cons intro!: exI [of _ 1])
  next
    case two
    then have "\<forall>j < 2. attempt_price c (att j) = None" by (auto simp: less_2_cases_iff)
    then show ?thesis using assms two unfolding fetchRate_unfold send three
      by (auto simp: bo upt_conv_Cons intro!: exI [of _ 2])
  next
    case none
    then show ?thesis using assms unfolding fetchRate_unfold three by (auto simp: bo)
  qed
qed

definition rate_answer :: "string \<Rightarrow> json" where
  "rate_answer lit = JObj [(''chart'', JObj [(''result'', JArr [JObj [(''meta'',
     JObj [(''currency'', JStr ''KRW''), (''regularMarketPrice'', JNum lit)])]]), (''error'', JNull)])]"

lemma rate_price_answer: "rate_price \<lparr>hr_StatusCode = 200, hr_Body = BodyJson (rate_answer lit)\<rparr> = Inr lit"
  by (simp add: rate_price_def rate_answer_def Unmarshal_def rate_response_fields_def rate_chart_fields_def
      rate_result_fields_def rate_meta_fields_def zero_rate_response_def zero_rate_result_def find_field_def
      set_struct_def set_structs_def set_string_def set_number_def set_error_def Let_def)

text \<open>What two attempts meet in the examples: the first gets no answer, the others the rate.\<close>

definition example_attempts :: "nat \<Rightarrow> rate_attempt" where
  "example_attempts i =
     \<lparr>at_url_ok = True,
      at_http = (\<lambda>_. if i = 0 then None
        else Some \<lparr>hr_StatusCode = 200, hr_Body = BodyJson (rate_answer ''1350.25'')\<rparr>), at_nowMicro = 9\<rparr>"

theorem rate_poll_ends_witness:
  "\<exists>c' e. fetchRate example_attempts (NewExchangeRateClient [] 5 0) = ([CalculateBackoff 1], True, c') \<and>
     fd_inbox c' = [MarketUpdate e] \<and> mu_Symbol e = ''USD/KRW''"
proof -
  let ?c = "NewExchangeRateClient [] 5 0"
  have a: "attempt_price ?c (example_attempts 0) = None" "attempt_price ?c (example_attempts 1) = Some ''1350.25''"
    by (simp_all add: attempt_price_def example_attempts_def rate_price_answer)
  obtain c' where f: "fetchRate example_attempts ?c = ([CalculateBackoff 1], True, c')"
    unfolding fetchRate_unfold a by simp
  have "fd_inbox ?c = []" "fd_cap ?c = 5" by (simp_all add: NewExchangeRateClient_def)
  moreover obtain i p where "c' = ?c\<lparr>fd_seq := fd_seq ?c + 1, fd_inbox := fd_inbox ?c @
      (if length (fd_inbox ?c) < fd_cap ?c then [MarketUpdate (rate_event ?c (example_attempts i) p)] else [])\<rparr>"
    using rate_poll_ends [OF f] by blast
  ultimately show ?thesis using f
    by (intro exI [of _ c'] exI [of _ "rate_event ?c (example_attempts i) p"]) (simp add: rate_event_def)
qed

end
