(* ===== verification/Application.thy ===== *)
theory Application
  imports Sma_Engine Exchange_Rate
begin

text \<open>
  The running application (\<open>cmd/app/main.go\<close>): the gateways share one counter and the inbox of
  the sequencer, which runs in its own goroutine; after a crash the process is started again on
  the same database. A step of the application is one atomic action of one goroutine: a gateway
  draws a number, a gateway's non-blocking send is accepted or dropped, the sequencer takes the
  next event and processes it; or a restart. A run is any interleaving of such steps.
\<close>

section \<open>State and steps\<close>

record 'st application =
  ap_inbox :: "event list"
  ap_cap :: nat
  ap_nextSeq :: u64
  ap_engine :: "'st sequencer"

text \<open>\<open>main\<close> up to the start of the sequencer: an error of the recovery exits the process.\<close>

definition boot ::
  "'st on_market \<Rightarrow> string list \<Rightarrow> bool \<Rightarrow> db_fault \<Rightarrow> event_store \<Rightarrow> 'st \<Rightarrow> 'st application option" where
  "boot om order lastFault loadFault store strat =
     (case RecoverFromWAL om order lastFault loadFault (NewSequencer (Some store) (Some strat) True) of
        Done None s \<Rightarrow> Some \<lparr>ap_inbox = [], ap_cap = 1024, ap_nextSeq = 1, ap_engine = s\<rparr>
      | _ \<Rightarrow> None)"

datatype app_label = Drew | Accepted market_update | Dropped market_update | Took event | Restarted

inductive app_step ::
  "'st on_market \<Rightarrow> string list \<Rightarrow> 'st \<Rightarrow> 'st application \<Rightarrow> app_label \<Rightarrow> 'st application \<Rightarrow> bool"
  for om order strat where
  drew: "app_step om order strat a Drew (a\<lparr>ap_nextSeq := ap_nextSeq a + 1\<rparr>)"
| accepted: "length (ap_inbox a) < ap_cap a \<Longrightarrow>
    app_step om order strat a (Accepted e) (a\<lparr>ap_inbox := ap_inbox a @ [MarketUpdate e]\<rparr>)"
| dropped: "\<not> length (ap_inbox a) < ap_cap a \<Longrightarrow> app_step om order strat a (Dropped e) a"
| took: "ap_inbox a = ev # rest \<Longrightarrow> processEvent om False ev (ap_engine a) = Done r s \<Longrightarrow>
    app_step om order strat a (Took ev) (a\<lparr>ap_inbox := rest, ap_engine := s\<rparr>)"
| restarted: "sq_store (ap_engine a) = Some store \<Longrightarrow> boot om order False NoFault store strat = Some b \<Longrightarrow>
    app_step om order strat a Restarted b"

inductive_cases app_stepE: "app_step om order strat a l b"

inductive app_run ::
  "'st on_market \<Rightarrow> string list \<Rightarrow> 'st \<Rightarrow> 'st application \<Rightarrow> app_label list \<Rightarrow> 'st application \<Rightarrow> bool"
  for om order strat where
  stop: "app_run om order strat a [] a"
| step: "app_run om order strat a ls b \<Longrightarrow> app_step om order strat b l c \<Longrightarrow> app_run om order strat a (ls @ [l]) c"

lemma app_run_trans:
  "app_run om order strat b ms c \<Longrightarrow> app_run om order strat a ls b \<Longrightarrow> app_run om order strat a (ls @ ms) c"
proof (induction rule: app_run.induct)
  case (step b ms d l c)
  then show ?case using app_run.step [of om order strat a "ls @ ms" d l c] by simp
qed simp

text \<open>The events the sequencer processed, and the queue that the sends and receives leave since the
  last restart.\<close>

fun processed :: "app_label list \<Rightarrow> (bool \<times> event) list" where
  "processed [] = []"
| "processed (l # ls) = (case l of Took ev \<Rightarrow> [(False, ev)] | _ \<Rightarrow> []) @ processed ls"

definition queue_step :: "app_label \<Rightarrow> event list \<Rightarrow> event list" where
  "queue_step l q =
     (case l of
        Accepted e \<Rightarrow> q @ [MarketUpdate e]
      | Took _ \<Rightarrow> tl q
      | Restarted \<Rightarrow> []
      | _ \<Rightarrow> q)"

lemma processed_append [simp]: "processed (ls @ ms) = processed ls @ processed ms"
  by (induction ls) auto

lemma process_all_append:
  "process_all om (xs @ ys) s = and_then (process_all om xs s) (\<lambda>_ s. process_all om ys s)"
proof (induction xs arbitrary: s)
  case (Cons fe xs)
  obtain f ev where "fe = (f, ev)" by (cases fe)
  then show ?case using Cons by (cases "processEvent om f ev s") simp_all
qed simp

section \<open>Gateways act by steps\<close>

text \<open>A gateway works on its own view of the shared counter and inbox.\<close>

definition with_gateway :: "('y feed \<Rightarrow> 'y feed) \<Rightarrow> 'y \<Rightarrow> 'st application \<Rightarrow> 'st application" where
  "with_gateway g y a =
     (let w = g \<lparr>fd_symbols = y, fd_seq = ap_nextSeq a, fd_inbox = ap_inbox a, fd_cap = ap_cap a\<rparr>
      in a\<lparr>ap_inbox := fd_inbox w, ap_nextSeq := fd_seq w\<rparr>)"

definition gateway_label :: "app_label \<Rightarrow> bool" where
  "gateway_label l \<longleftrightarrow> (case l of Took _ \<Rightarrow> False | Restarted \<Rightarrow> False | _ \<Rightarrow> True)"

lemma with_gateway_offers:
  "\<exists>ls. app_run om order strat a ls (with_gateway (fold offer_event es) y a) \<and> list_all gateway_label ls"
proof (induction es arbitrary: a)
  case Nil
  show ?case by (intro exI [of _ "[]"]) (simp add: with_gateway_def app_run.stop)
next
  case (Cons e es)
  let ?e = "e\<lparr>mu_Seq := ap_nextSeq a + 1\<rparr>"
  let ?w = "\<lparr>fd_symbols = y, fd_seq = ap_nextSeq a, fd_inbox = ap_inbox a, fd_cap = ap_cap a\<rparr>"
  let ?b = "a\<lparr>ap_nextSeq := ap_nextSeq a + 1\<rparr>"
  let ?full = "\<not> length (ap_inbox a) < ap_cap a"
  let ?c = "if ?full then ?b else ?b\<lparr>ap_inbox := ap_inbox a @ [MarketUpdate ?e]\<rparr>"
  let ?l = "if ?full then Dropped ?e else Accepted ?e"
  have "app_step om order strat ?b ?l ?c"
    using app_step.accepted [of ?b om order strat ?e] app_step.dropped [of ?b om order strat ?e] by simp
  then have run: "app_run om order strat a ([] @ [Drew] @ [?l]) ?c"
    using app_run.step [OF app_run.step [OF app_run.stop app_step.drew]] by fastforce
  have w: "offer_event e ?w =
      \<lparr>fd_symbols = y, fd_seq = ap_nextSeq ?c, fd_inbox = ap_inbox ?c, fd_cap = ap_cap ?c\<rparr>"
    by (simp add: offer_event_def send_event_def)
  have "with_gateway (fold offer_event (e # es)) y a = with_gateway (fold offer_event es) y ?c"
    unfolding with_gateway_def fold_simps comp_apply w by (simp add: Let_def)
  moreover obtain ls where "app_run om order strat ?c ls (with_gateway (fold offer_event es) y ?c)"
    "list_all gateway_label ls" using Cons by blast
  moreover have "list_all gateway_label ([] @ [Drew] @ [?l])" by (simp add: gateway_label_def)
  ultimately show ?case using app_run_trans [OF _ run]
    by (metis list_all_append)
qed

lemma with_gateway_run:
  assumes "\<And>w. \<exists>es. g w = fold offer_event es w"
  shows "\<exists>ls. app_run om order strat a ls (with_gateway g y a) \<and> list_all gateway_label ls"
proof -
  let ?w = "\<lparr>fd_symbols = y, fd_seq = ap_nextSeq a, fd_inbox = ap_inbox a, fd_cap = ap_cap a\<rparr>"
  obtain es where "g ?w = fold offer_event es ?w" using assms by blast
  then have "with_gateway g y a = with_gateway (fold offer_event es) y a" by (simp add: with_gateway_def)
  then show ?thesis using with_gateway_offers [of om order strat a es y] by simp
qed

lemma fetchRate_offers: "\<exists>es. snd (snd (fetchRate att c)) = fold offer_event es c"
proof -
  have "snd (snd (fetchRate att c)) = c \<or>
      (\<exists>x p. snd (snd (fetchRate att c)) = send_event (rate_event c x p) (c\<lparr>fd_seq := fd_seq c + 1\<rparr>))"
    unfolding fetchRate_unfold by (auto split: option.splits)
  then show ?thesis
  proof (elim disjE exE)
    assume "snd (snd (fetchRate att c)) = c"
    then show ?thesis by (intro exI [of _ "[]"]) simp
  next
    fix x p assume "snd (snd (fetchRate att c)) = send_event (rate_event c x p) (c\<lparr>fd_seq := fd_seq c + 1\<rparr>)"
    then show ?thesis by (intro exI [of _ "[rate_event c x p]"]) (simp add: offer_event_def rate_event_def)
  qed
qed

text \<open>Every gateway acts only by steps of the application: what a message does to the shared counter
  and inbox, for each of the three WebSocket workers and for a poll of the exchange rate, is a
  run of draws, accepted and dropped sends; none of them touches the sequencer.\<close>

lemma gateways_act_by_steps:
  "(\<exists>ls. app_run om order strat a ls (with_gateway (upbit_OnMessage msg) us a) \<and> list_all gateway_label ls) \<and>
   (\<exists>ls. app_run om order strat a ls (with_gateway (spot_OnMessage msg) bs a) \<and> list_all gateway_label ls) \<and>
   (\<exists>ls. app_run om order strat a ls (with_gateway (futures_OnMessage msg) bs a) \<and> list_all gateway_label ls) \<and>
   (\<exists>ls. app_run om order strat a ls (with_gateway (\<lambda>c. snd (snd (fetchRate att c))) rs a) \<and> list_all gateway_label ls)"
  using with_gateway_run [of "upbit_OnMessage msg", OF upbit.offers]
    with_gateway_run [of "spot_OnMessage msg", OF spot.offers]
    with_gateway_run [of "futures_OnMessage msg", OF futures.offers]
    with_gateway_run [of "\<lambda>c. snd (snd (fetchRate att c))", OF fetchRate_offers]
  by (intro conjI)

section \<open>What a run preserves\<close>

text \<open>The invariant: the sequencer is where processing the events taken so far, over all restarts,
  leads a new sequencer on the database as it was at first; the inbox is the queue.\<close>

definition app_inv ::
  "'st on_market \<Rightarrow> 'st \<Rightarrow> event_store \<Rightarrow> app_label list \<Rightarrow> 'st application \<Rightarrow> bool" where
  "app_inv om strat store ls a \<longleftrightarrow>
     process_all om (processed ls) (NewSequencer (Some store) (Some strat) True) = Done () (ap_engine a) \<and>
     ap_inbox a = fold queue_step ls [] \<and> length (ap_inbox a) \<le> ap_cap a \<and> ap_cap a = 1024"

lemma boot_of_run:
  assumes "process_all om evs (NewSequencer (Some store) (Some strat) True) = Done () s" "es_events store = []"
    and "\<forall>(f, ev) \<in> set evs. event_well_encoded ev" "sq_store s = Some st"
  shows "boot om order False NoFault st strat = Some \<lparr>ap_inbox = [], ap_cap = 1024, ap_nextSeq = 1, ap_engine = s\<rparr>"
  using recovery_of_run [OF assms(1-3), of order] assms(4) by (simp add: boot_def)

lemma app_step_inv:
  assumes "app_step om order strat a l b" "app_inv om strat store ls a" "es_events store = []"
    and "\<forall>(f, ev) \<in> set (processed ls). event_well_encoded ev"
  shows "app_inv om strat store (ls @ [l]) b"
  using assms
proof cases
  case (took ev rest r s)
  then have "fold queue_step ls [] = ev # rest" using assms(2) by (simp add: app_inv_def)
  then show ?thesis using assms(2) took by (simp add: app_inv_def process_all_append queue_step_def)
next
  case (restarted st)
  then show ?thesis
    using assms(2) boot_of_run [OF _ assms(3,4) restarted(2), of om strat order] by (auto simp: app_inv_def queue_step_def)
qed (use assms(2) in \<open>auto simp: app_inv_def queue_step_def\<close>)

lemma app_run_inv:
  assumes "app_run om order strat a ls b" "app_inv om strat store [] a" "es_events store = []"
    and "\<forall>(f, ev) \<in> set (processed ls). event_well_encoded ev"
  shows "app_inv om strat store ls b"
  using assms
proof (induction rule: app_run.induct)
  case (step a ls b l c)
  then show ?case using app_step_inv [of om order strat b l c store ls] by auto
qed simp

lemma boot_inv:
  "boot om order False NoFault store strat = Some a \<Longrightarrow> es_events store = [] \<Longrightarrow> app_inv om strat store [] a"
  using boot_of_run [of om "[]" store strat "NewSequencer (Some store) (Some strat) True" store order]
  by (auto simp: app_inv_def)

section \<open>Properties\<close>

text \<open>C3. The application loses nothing it has taken in: whatever gateways send and however often the
  process is restarted, the events processed form one gap-free log in the order they left the
  inbox, numbered \<open>1, 2, 3, \<dots>\<close> across restarts; the state in memory is exactly the result of
  processing that log; and the inbox is first-in first-out and never exceeds 1024 events.\<close>

theorem application_log_is_history:
  assumes "boot om order False NoFault store strat = Some a" "es_events store = []"
    and "app_run om order strat a ls b" "\<forall>(f, ev) \<in> set (processed ls). event_well_encoded ev"
  shows "\<exists>st. sq_store (ap_engine b) = Some st \<and>
    es_events st = map event_row_of (stamped 1 (processed ls)) \<and>
    map (\<lambda>r. sint (row_id r)) (es_events st) = [1..int (length (processed ls))] \<and>
    process_all om (processed ls) (NewSequencer (Some store) (Some strat) True) = Done () (ap_engine b) \<and>
    ap_inbox b = fold queue_step ls [] \<and> length (ap_inbox b) \<le> 1024"
proof -
  have inv: "app_inv om strat store ls b" by (rule app_run_inv [OF assms(3) boot_inv [OF assms(1,2)] assms(2,4)])
  then have run: "process_all om (processed ls) (NewSequencer (Some store) (Some strat) True) = Done () (ap_engine b)"
    by (simp add: app_inv_def)
  have "wal_ok 1 store" using fresh_log_ok [of store] assms(2) by (simp add: fresh_log_def)
  then obtain st where "sq_store (ap_engine b) = Some st" "wal_ok (sq_nextSeq (ap_engine b)) st"
    "es_events st = map event_row_of (stamped 1 (processed ls))"
    "uint (sq_nextSeq (ap_engine b)) = 1 + int (length (processed ls))"
    using process_all_log [OF run, of store] assms(2) by auto
  then show ?thesis using inv by (auto simp: app_inv_def wal_ok_def)
qed

text \<open>What is in the database when the process dies in the middle of an event that was logged is what is
  there after the event.\<close>

lemma persisted_store:
  assumes "persist False (with_seq (sq_nextSeq s) ev) s = Done () p" "processEvent om False ev s = Done r t"
  shows "sq_store t = sq_store p"
proof -
  obtain u where "dispatch om (with_seq (sq_nextSeq s) ev) p = Done () u" "sq_store t = sq_store u"
    using assms by (auto simp: processEvent_def Let_def outcome_simps)
  then show ?thesis using dispatch_keeps [of om "with_seq (sq_nextSeq s) ev" p] by simp
qed

text \<open>C7. A crash costs at most the inbox: starting again on the database that a run left succeeds and
  restores the sequencer as it was, with an empty inbox; and when the process dies in the middle
  of an event, after the event was logged, the restart has the full effect of the event.\<close>

theorem crash_loses_only_inbox:
  assumes "boot om order False NoFault store strat = Some a" "es_events store = []"
    and "app_run om order strat a ls b" "\<forall>(f, ev) \<in> set (processed ls). event_well_encoded ev"
    and "sq_store (ap_engine b) = Some st"
  shows "boot om order False NoFault st strat =
      Some \<lparr>ap_inbox = [], ap_cap = 1024, ap_nextSeq = 1, ap_engine = ap_engine b\<rparr> \<and>
    (\<forall>ev p st' r s. persist False (with_seq (sq_nextSeq (ap_engine b)) ev) (ap_engine b) = Done () p \<and> sq_store p = Some st' \<and>
       event_well_encoded ev \<and> processEvent om False ev (ap_engine b) = Done r s \<longrightarrow>
       boot om order False NoFault st' strat = Some \<lparr>ap_inbox = [], ap_cap = 1024, ap_nextSeq = 1, ap_engine = s\<rparr>)"
proof -
  have "app_inv om strat store ls b" by (rule app_run_inv [OF assms(3) boot_inv [OF assms(1,2)] assms(2,4)])
  then have run: "process_all om (processed ls) (NewSequencer (Some store) (Some strat) True) = Done () (ap_engine b)"
    by (simp add: app_inv_def)
  have "boot om order False NoFault st' strat = Some \<lparr>ap_inbox = [], ap_cap = 1024, ap_nextSeq = 1, ap_engine = s\<rparr>"
    if p: "persist False (with_seq (sq_nextSeq (ap_engine b)) ev) (ap_engine b) = Done () p" "sq_store p = Some st'"
      "event_well_encoded ev" "processEvent om False ev (ap_engine b) = Done r s" for ev p st' r s
  proof -
    have "process_all om (processed ls @ [(False, ev)]) (NewSequencer (Some store) (Some strat) True) = Done () s"
      using run p(4) by (simp add: process_all_append)
    then show ?thesis
      by (rule boot_of_run [OF _ assms(2)]) (use assms(4) p(2,3) persisted_store [OF p(1,4)] in auto)
  qed
  then show ?thesis using boot_of_run [OF run assms(2,4,5)] by blast
qed

section \<open>Progress\<close>

lemma app_run_one: "app_step om order strat a l b \<Longrightarrow> app_run om order strat a [l] b"
  using app_run.step [OF app_run.stop] by fastforce

lemma took_all:
  "ap_inbox a = q \<Longrightarrow> process_all om (map (Pair False) q) (ap_engine a) = Done () s \<Longrightarrow>
    app_run om order strat a (map Took q) (a\<lparr>ap_inbox := [], ap_engine := s\<rparr>)"
proof (induction q arbitrary: a)
  case Nil
  then have "a\<lparr>ap_inbox := [], ap_engine := s\<rparr> = a" by simp
  then show ?case using app_run.stop [of om order strat a] by simp
next
  case (Cons ev rest)
  from Cons.prems(2) obtain r s1 where p: "processEvent om False ev (ap_engine a) = Done r s1"
    and q: "process_all om (map (Pair False) rest) s1 = Done () s"
    by (auto simp: outcome_simps)
  let ?b = "a\<lparr>ap_inbox := rest, ap_engine := s1\<rparr>"
  have one: "app_run om order strat a [Took ev] ?b"
    by (rule app_run_one [OF app_step.took [OF Cons.prems(1) p]])
  have "app_run om order strat ?b (map Took rest) (?b\<lparr>ap_inbox := [], ap_engine := s\<rparr>)"
    using Cons.IH [of ?b] q by simp
  from app_run_trans [OF this one] show ?case by simp
qed

lemma event_prices_append: "event_prices symbol (xs @ ys) = event_prices symbol xs @ event_prices symbol ys"
proof (induction xs)
  case (Cons fe xs)
  then show ?case by (simp add: event_prices_Cons [of symbol fe "xs @ ys"] event_prices_Cons [of symbol fe xs] del: event_prices.simps(2))
qed simp

text \<open>C8. The inbox can always be drained: in every state the application with the crossover strategy
  reaches on a sound feed, the sequencer processes everything in the inbox without a panic, one
  event per step.\<close>

theorem inbox_drains:
  assumes "0 < S" "S < L" "in_i64 (int L)" "NewSMACrossStrategy symbol (int S) (int L) = Inr strat"
    and "boot OnMarketUpdate order False NoFault store strat = Some a" "es_events store = []"
    and "app_run OnMarketUpdate order strat a ls b" "\<forall>(f, ev) \<in> set (processed ls). event_well_encoded ev"
    and "\<forall>p \<in> set (event_prices symbol (processed ls @ map (Pair False) (ap_inbox b))). price_ok L p"
    and "int (length (processed ls) + length (ap_inbox b)) < 9223372036854775808"
  shows "\<exists>c. app_run OnMarketUpdate order strat b (map Took (ap_inbox b)) c \<and> ap_inbox c = []"
proof -
  let ?rest = "map (Pair False) (ap_inbox b)"
  have "app_inv OnMarketUpdate strat store ls b"
    by (rule app_run_inv [OF assms(7) boot_inv [OF assms(5,6)] assms(6,8)])
  then have run: "process_all OnMarketUpdate (processed ls) (NewSequencer (Some store) (Some strat) True) = Done () (ap_engine b)"
    by (simp add: app_inv_def)
  have nf: "\<forall>(f, ev) \<in> set (processed ls @ ?rest). \<not> f"
    by (induction ls) (auto split: app_label.splits)
  obtain s where "process_all OnMarketUpdate (processed ls @ ?rest) (NewSequencer (Some store) (Some strat) True) = Done () s"
    using sma_engine_runs [OF sma_boot_engine_inv [OF assms(1-4,6)] _ _ nf] assms(9,10) by auto
  then have "process_all OnMarketUpdate ?rest (ap_engine b) = Done () s"
    using run by (simp add: process_all_append)
  from took_all [OF refl this] show ?thesis by fastforce
qed


definition btc_update :: market_update where
  "btc_update = \<lparr>mu_Seq = 9, mu_Ts = 1, mu_Symbol = ''BTC'', mu_PriceMicros = 95000000, mu_QtySats = 7, mu_Exchange = ''UPBIT''\<rparr>"

text \<open>The example: an event is accepted, processed, the process is restarted, another event is
  accepted.\<close>

definition example_labels :: "app_label list" where
  "example_labels = [Accepted btc_update, Took (MarketUpdate btc_update), Restarted, Accepted btc_update]"

lemma btc_update_facts:
  "event_well_encoded (MarketUpdate btc_update)" "event_prices ''BTC'' [(False, MarketUpdate btc_update)] = [95000000]"
  "price_ok 5 95000000"
  by (simp_all add: btc_update_def ascii_well_encoded byte_in_def price_ok_def)

lemma example_app:
  "\<exists>strat a b. NewSMACrossStrategy ''BTC'' (int 3) (int 5) = Inr strat \<and>
    boot OnMarketUpdate [] False NoFault empty_store strat = Some a \<and>
    app_run OnMarketUpdate [] strat a example_labels b"
proof -
  obtain strat where strat: "NewSMACrossStrategy ''BTC'' (int 3) (int 5) = Inr strat"
    by (simp add: NewSMACrossStrategy_def)
  let ?s = "NewSequencer (Some empty_store) (Some strat) True"
  let ?e = "MarketUpdate btc_update"
  let ?a = "\<lparr>ap_inbox = [], ap_cap = 1024, ap_nextSeq = 1, ap_engine = ?s\<rparr>"
  have em: "es_events empty_store = []" by (simp add: empty_store_def)
  have a: "boot OnMarketUpdate [] False NoFault empty_store strat = Some ?a"
    using boot_of_run [of OnMarketUpdate "[]" empty_store strat ?s empty_store] em by simp
  have inv: "sma_engine_inv 3 5 ''BTC'' ?s []"
    by (rule sma_boot_engine_inv [OF _ _ _ strat em]) (simp_all add: in_i64_def)
  have ok: "\<forall>p \<in> set ([] @ event_prices ''BTC'' [(False, ?e)]). price_ok 5 p"
    by (simp only: btc_update_facts append.simps) (simp add: btc_update_facts)
  obtain r s1 where s1: "processEvent OnMarketUpdate False ?e ?s = Done r s1"
    "sma_engine_inv 3 5 ''BTC'' s1 ([] @ event_prices ''BTC'' [(False, ?e)])"
    using sma_engine_step [OF inv ok] by auto
  then obtain st where st: "sq_store s1 = Some st" by (auto simp: sma_engine_inv_def)
  have "process_all OnMarketUpdate [(False, ?e)] ?s = Done () s1" using s1(1) by simp
  from boot_of_run [OF this em _ st, of "[]"]
  have re: "boot OnMarketUpdate [] False NoFault st strat = Some \<lparr>ap_inbox = [], ap_cap = 1024, ap_nextSeq = 1, ap_engine = s1\<rparr>"
    using btc_update_facts(1) by simp
  have "app_run OnMarketUpdate [] strat ?a ([] @ [Accepted btc_update]) (?a\<lparr>ap_inbox := [?e]\<rparr>)"
    using app_run.step [OF app_run.stop app_step.accepted [of ?a OnMarketUpdate "[]" strat btc_update]] by simp
  then have "app_run OnMarketUpdate [] strat ?a (([] @ [Accepted btc_update]) @ [Took ?e]) (?a\<lparr>ap_engine := s1\<rparr>)"
    using app_run.step app_step.took [of "?a\<lparr>ap_inbox := [?e]\<rparr>" ?e "[]" OnMarketUpdate r s1 "[]" strat] s1(1) by fastforce
  then have "app_run OnMarketUpdate [] strat ?a ((([] @ [Accepted btc_update]) @ [Took ?e]) @ [Restarted])
      \<lparr>ap_inbox = [], ap_cap = 1024, ap_nextSeq = 1, ap_engine = s1\<rparr>"
    using app_run.step app_step.restarted [of "?a\<lparr>ap_engine := s1\<rparr>" st OnMarketUpdate "[]" strat] re st by fastforce
  from app_run.step [OF this app_step.accepted [where e = btc_update]]
  show ?thesis using strat a by (fastforce simp: example_labels_def)
qed

lemma example_processed: "processed example_labels = [(False, MarketUpdate btc_update)]"
  by (simp add: example_labels_def)

theorem application_log_is_history_witness:
  "\<exists>strat a b st. boot OnMarketUpdate [] False NoFault empty_store strat = Some a \<and>
    app_run OnMarketUpdate [] strat a example_labels b \<and> sq_store (ap_engine b) = Some st \<and>
    map (\<lambda>r. sint (row_id r)) (es_events st) = [1] \<and> ap_inbox b = [MarketUpdate btc_update]"
proof -
  obtain strat a b where e: "boot OnMarketUpdate [] False NoFault empty_store strat = Some a"
    "app_run OnMarketUpdate [] strat a example_labels b" using example_app by blast
  have "es_events empty_store = []" by (simp add: empty_store_def)
  from application_log_is_history [OF e(1) this e(2)] obtain st where "sq_store (ap_engine b) = Some st"
    "map (\<lambda>r. sint (row_id r)) (es_events st) = [1..int (length (processed example_labels))]"
    "ap_inbox b = fold queue_step example_labels []"
    using btc_update_facts(1) by (auto simp: example_processed)
  then show ?thesis using e
    by (intro exI [of _ strat] exI [of _ a] exI [of _ b] exI [of _ st])
      (simp add: example_processed example_labels_def queue_step_def)
qed

theorem crash_loses_only_inbox_witness:
  "\<exists>strat a b st. app_run OnMarketUpdate [] strat a example_labels b \<and> sq_store (ap_engine b) = Some st \<and>
    boot OnMarketUpdate [] False NoFault st strat =
      Some \<lparr>ap_inbox = [], ap_cap = 1024, ap_nextSeq = 1, ap_engine = ap_engine b\<rparr>"
proof -
  obtain strat a b where e: "boot OnMarketUpdate [] False NoFault empty_store strat = Some a"
    "app_run OnMarketUpdate [] strat a example_labels b" using example_app by blast
  have em: "es_events empty_store = []" by (simp add: empty_store_def)
  have enc: "\<forall>(f, ev) \<in> set (processed example_labels). event_well_encoded ev"
    using btc_update_facts(1) by (simp add: example_processed)
  have "app_inv OnMarketUpdate strat empty_store example_labels b"
    by (rule app_run_inv [OF e(2) boot_inv [OF e(1) em] em enc])
  then have run: "process_all OnMarketUpdate (processed example_labels) (NewSequencer (Some empty_store) (Some strat) True)
      = Done () (ap_engine b)" by (simp add: app_inv_def)
  have "wal_ok 1 empty_store" using fresh_log_ok [of empty_store] em by (simp add: fresh_log_def)
  then obtain st where st: "sq_store (ap_engine b) = Some st"
    using process_all_log [OF run, of empty_store] by auto
  then show ?thesis using crash_loses_only_inbox [OF e(1) em e(2) enc st] e(2) by blast
qed

theorem inbox_drains_witness:
  "\<exists>strat a b c. app_run OnMarketUpdate [] strat a example_labels b \<and>
    app_run OnMarketUpdate [] strat b [Took (MarketUpdate btc_update)] c \<and> ap_inbox c = []"
proof -
  obtain strat a b where e: "NewSMACrossStrategy ''BTC'' (int 3) (int 5) = Inr strat"
    "boot OnMarketUpdate [] False NoFault empty_store strat = Some a"
    "app_run OnMarketUpdate [] strat a example_labels b" using example_app by blast
  have em: "es_events empty_store = []" by (simp add: empty_store_def)
  have enc: "\<forall>(f, ev) \<in> set (processed example_labels). event_well_encoded ev"
    using btc_update_facts(1) by (simp add: example_processed)
  have "app_inv OnMarketUpdate strat empty_store example_labels b"
    by (rule app_run_inv [OF e(3) boot_inv [OF e(2) em] em enc])
  then have q: "ap_inbox b = [MarketUpdate btc_update]"
    by (simp add: app_inv_def example_labels_def queue_step_def)
  have pr: "\<forall>p \<in> set (event_prices ''BTC'' (processed example_labels @ map (Pair False) (ap_inbox b))). price_ok 5 p"
    unfolding q example_processed event_prices_append by (simp add: btc_update_facts del: event_prices.simps)
  obtain c where "app_run OnMarketUpdate [] strat b (map Took (ap_inbox b)) c" "ap_inbox c = []"
    using inbox_drains [OF _ _ _ e(1,2) em e(3) enc pr] by (auto simp: in_i64_def q example_processed)
  then show ?thesis using e(3) by (auto simp: q)
qed

section \<open>The market table is well typed\<close>

lemma dispatch_typed:
  assumes "markets_ok s"
  shows "markets_ok (final (dispatch om ev s))"
proof (cases ev)
  case (MarketUpdate e)
  let ?m = "updated_market e s"
  let ?s = "s\<lparr>sq_markets := (sq_markets s)(mu_Symbol e \<mapsto> ?m)\<rparr>"
  have "ms_Symbol ?m = mu_Symbol e"
    using assms by (auto simp: markets_ok_def updated_market_def zero_market_state_def split: option.splits)
  then have "markets_ok ?s" using assms by (simp add: markets_ok_def)
  moreover have "sq_markets (final (run_strategy om ?m ?s)) = sq_markets ?s" using run_strategy_keeps [of om ?m ?s] by simp
  moreover have "sq_markets (final (handleMarketUpdate om e s)) = sq_markets (final (run_strategy om ?m ?s))"
    by (cases "run_strategy om ?m ?s") (simp_all add: handleMarketUpdate_def Let_def)
  ultimately show ?thesis using MarketUpdate by (simp add: markets_ok_def)
qed (use assms in simp)

lemma processEvent_typed: "processEvent om fault ev s = Done r t \<Longrightarrow> markets_ok s \<Longrightarrow> markets_ok t"
proof -
  let ?ev = "with_seq (sq_nextSeq s) ev"
  assume p: "processEvent om fault ev s = Done r t" and s: "markets_ok s"
  then obtain u v where "persist fault ?ev s = Done () u" "dispatch om ?ev u = Done () v" "sq_markets t = sq_markets v"
    by (auto simp: processEvent_def Let_def outcome_simps)
  moreover have "markets_ok u" if "persist fault ?ev s = Done () u" for u
    using that s by (auto simp: persist_def markets_ok_def split: option.splits prod.splits)
  ultimately show ?thesis using dispatch_typed [of u om ?ev] by (simp add: markets_ok_def)
qed

lemma replay_all_typed: "replay_all om evs s = Done () t \<Longrightarrow> markets_ok s \<Longrightarrow> markets_ok t"
proof (induction evs arbitrary: s)
  case (Cons ev evs)
  then obtain u where u: "ReplayEvent om ev s = Done () u" "replay_all om evs u = Done () t" by (auto simp: outcome_simps)
  then obtain v where "dispatch om ev s = Done () v" "sq_markets u = sq_markets v"
    by (auto simp: ReplayEvent_def outcome_simps split: if_splits)
  then have "markets_ok u" using dispatch_typed [OF Cons.prems(2), of om ev] by (simp add: markets_ok_def)
  then show ?case using Cons.IH u(2) by blast
qed simp

lemma boot_typed: "boot om order f lf store strat = Some a \<Longrightarrow> markets_ok (ap_engine a)"
proof -
  assume "boot om order f lf store strat = Some a"
  then have r: "RecoverFromWAL om order f lf (NewSequencer (Some store) (Some strat) True) = Done None (ap_engine a)"
    by (auto simp: boot_def split: outcome.splits option.splits)
  have n: "markets_ok (NewSequencer (Some store) (Some strat) True)" by (simp add: markets_ok_def NewSequencer_def)
  then show ?thesis using r replay_all_typed [OF _ n]
    by (auto simp: RecoverFromWAL_def NewSequencer_def outcome_simps split: option.splits sum.splits if_splits)
qed

text \<open>C37. The market table is well typed in every state of the application: whatever the gateways send and
  however often the process restarts, on any database, a market state is stored under its own symbol.\<close>

theorem markets_keyed_by_symbol:
  assumes "boot om order lastFault loadFault store strat = Some a" "app_run om order strat a ls b"
    and "sq_markets (ap_engine b) symbol = Some m"
  shows "ms_Symbol m = symbol"
proof -
  have "markets_ok (ap_engine b)"
    using assms(2,1)
  proof (induction rule: app_run.induct)
    case (stop a)
    then show ?case by (rule boot_typed)
  next
    case (step a ls b l c)
    then have "markets_ok (ap_engine b)" by blast
    with step(2) show ?case
      by cases (auto intro: processEvent_typed boot_typed)
  qed
  then show ?thesis using assms(3) by (simp add: markets_ok_def)
qed

theorem markets_keyed_by_symbol_witness:
  "\<exists>strat a b m. app_run OnMarketUpdate [] strat a example_labels b \<and> sq_markets (ap_engine b) ''BTC'' = Some m \<and> ms_Symbol m = ''BTC''"
proof -
  obtain strat a b where e: "boot OnMarketUpdate [] False NoFault empty_store strat = Some a"
    "app_run OnMarketUpdate [] strat a example_labels b" using example_app by blast
  have em: "es_events empty_store = []" by (simp add: empty_store_def)
  have enc: "\<forall>(f, ev) \<in> set (processed example_labels). event_well_encoded ev"
    using btc_update_facts(1) by (simp add: example_processed)
  let ?s = "NewSequencer (Some empty_store) (Some strat) True"
  have "app_inv OnMarketUpdate strat empty_store example_labels b"
    by (rule app_run_inv [OF e(2) boot_inv [OF e(1) em] em enc])
  then have run: "process_all OnMarketUpdate [(False, MarketUpdate btc_update)] ?s = Done () (ap_engine b)"
    by (simp only: app_inv_def example_processed)
  have ok: "markets_ok ?s" by (simp add: markets_ok_def)
  have "mu_Symbol btc_update = ''BTC''" by (simp add: btc_update_def)
  with process_all_markets [OF run ok, of "''BTC''"] have "sq_markets (ap_engine b) ''BTC'' \<noteq> None" by simp
  then show ?thesis using markets_keyed_by_symbol [OF e] e(2) by blast
qed

section \<open>Halts\<close>

text \<open>C9. What a halt means for the next start. When processing an event panics, the loop writes its dump and the
  process dies. If the event had not reached the log, the next start restores the engine as it was
  before the event; if it had, the log is longer by one row and no start on it ever succeeds again.\<close>

theorem halt_and_restart:
  assumes "boot om order False NoFault store strat = Some a" "es_events store = []"
    and "app_run om order strat a ls b" "\<forall>(f, ev) \<in> set (processed ls). event_well_encoded ev"
    and "processEvent om fault ev (ap_engine b) = Panicked p s" "event_well_encoded ev"
  shows "Run om order [Received fault ev] (ap_engine b) = (Halted (DumpState order s), Panicked (HALTED p) s) \<and>
    (\<exists>st st'. sq_store (ap_engine b) = Some st \<and> sq_store s = Some st' \<and>
       (if es_events st' = es_events st
        then boot om order False NoFault st' strat = Some \<lparr>ap_inbox = [], ap_cap = 1024, ap_nextSeq = 1, ap_engine = ap_engine b\<rparr>
        else length (es_events st') = length (es_events st) + 1 \<and> boot om order False NoFault st' strat = None))"
proof -
  let ?e = "with_seq (sq_nextSeq (ap_engine b)) ev"
  have "app_inv om strat store ls b" by (rule app_run_inv [OF assms(3) boot_inv [OF assms(1,2)] assms(2,4)])
  then have run: "process_all om (processed ls) (NewSequencer (Some store) (Some strat) True) = Done () (ap_engine b)"
    by (simp add: app_inv_def)
  have w: "wal_ok (sq_nextSeq (NewSequencer (Some store) (Some strat) True)) store"
    using assms(2) fresh_log_ok [of store] by (simp add: fresh_log_def)
  obtain st where st: "sq_store (ap_engine b) = Some st" using process_all_log [OF run _ w] by auto
  obtain e st1 where save: "SaveEvent fault ?e st = (e, st1)" by (cases "SaveEvent fault ?e st")
  have "\<exists>st'. sq_store s = Some st' \<and> (if es_events st' = es_events st
      then boot om order False NoFault st' strat = Some \<lparr>ap_inbox = [], ap_cap = 1024, ap_nextSeq = 1, ap_engine = ap_engine b\<rparr>
      else length (es_events st') = length (es_events st) + 1 \<and> boot om order False NoFault st' strat = None)"
  proof (cases e)
    case (Some x)
    then have "s = ap_engine b" using assms(5) save persistence_failure_changes_nothing [OF st, of fault ev x] by simp
    then show ?thesis using st boot_of_run [OF run assms(2,4) st] by simp
  next
    case None
    then have f: "fst (SaveEvent fault ?e st) = None" by (simp add: save)
    then obtain st' where st': "SaveEvent fault ?e st = (None, st')" "sq_store s = Some st'"
      using processEvent_Panicked [OF st assms(5) f, of None] by blast
    then have "length (es_events st') = length (es_events st) + 1" by (auto simp: SaveEvent_ok_iff)
    moreover have "boot om order False NoFault st' strat = None"
      using logged_panic_recovery [OF run assms(2,4,6,5) st f, of order] st'(2) by (simp add: boot_def)
    ultimately show ?thesis using st'(2) by auto
  qed
  then show ?thesis using st assms(5) by auto
qed

theorem halt_and_restart_witness:
  "\<exists>a s st'. boot OnMarketUpdate [] False NoFault empty_store poison_strategy = Some a \<and>
    processEvent OnMarketUpdate False (example_event 0 5) (ap_engine a) = Panicked CORE_SAFE_DIV_BY_ZERO s \<and>
    sq_store s = Some st' \<and> boot OnMarketUpdate [] False NoFault st' poison_strategy = None"
proof -
  let ?s = "NewSequencer (Some empty_store) (Some poison_strategy) True"
  let ?a = "\<lparr>ap_inbox = [], ap_cap = 1024, ap_nextSeq = 1, ap_engine = ?s\<rparr>"
  have em: "es_events empty_store = []" by (simp add: empty_store_def)
  have a: "boot OnMarketUpdate [] False NoFault empty_store poison_strategy = Some ?a"
    using boot_of_run [of OnMarketUpdate "[]" empty_store poison_strategy ?s empty_store] em by simp
  obtain s where s: "processEvent OnMarketUpdate False (example_event 0 5) (ap_engine ?a) = Panicked CORE_SAFE_DIV_BY_ZERO s"
    using poison_panics by auto
  have "event_well_encoded (example_event 0 5)" by (simp add: example_event_def zero_market_update_def ascii_well_encoded byte_in_def)
  from halt_and_restart [OF a em app_run.stop _ s this] obtain st' where st': "sq_store s = Some st'"
    "if es_events st' = [] then boot OnMarketUpdate [] False NoFault st' poison_strategy = Some ?a
     else boot OnMarketUpdate [] False NoFault st' poison_strategy = None"
    using em by (auto split: if_splits)
  obtain st1 where "SaveEvent False (with_seq 1 (example_event 0 5)) empty_store = (None, st1)" "es_events st1 \<noteq> []"
    by (simp add: example_event_def empty_store_def SaveEvent_def bind_uint64_def word_le_def)
  then have "es_events st' \<noteq> []"
    using processEvent_Panicked [of ?s empty_store OnMarketUpdate False "example_event 0 5" _ s None] s st'(1) by auto
  then show ?thesis using a s st' by auto
qed

end
