(* ===== verification/Workspace.thy ===== *)
theory Workspace
  imports Strconv
begin

text \<open>
  Paths and the instance lock (\<open>internal/infra/paths.go\<close>), with what they use of
  \<open>path/filepath\<close> on Unix; the file uses \<open>syscall.Flock\<close>, which only Unix has, so the paths are
  Unix paths also in the branch for Windows. The operating system's answers (which files
  exist, the environment) are arguments. The lock is a state machine over the files, inodes and
  descriptors of the processes that try to start.
\<close>

section \<open>Unix paths\<close>

fun intercalate :: "string \<Rightarrow> string list \<Rightarrow> string" where
  "intercalate sep [] = []"
| "intercalate sep [x] = x"
| "intercalate sep (x # y # xs) = x @ sep @ intercalate sep (y # xs)"

definition path_elems :: "string \<Rightarrow> string list" where
  "path_elems p = filter (\<lambda>e. e \<noteq> [] \<and> e \<noteq> ''.'') (Split CHR ''/'' p)"

text \<open>One element against the cleaned elements so far, the last one first.\<close>

definition clean_step :: "bool \<Rightarrow> string \<Rightarrow> string list \<Rightarrow> string list" where
  "clean_step rooted e out =
     (if e = ''..'' then
        (case out of
           x # xs \<Rightarrow> if x \<noteq> ''..'' then xs else e # out
         | [] \<Rightarrow> if rooted then [] else [e])
      else e # out)"

definition Clean :: "string \<Rightarrow> string" where
  "Clean p =
     (let rooted = (p \<noteq> [] \<and> hd p = CHR ''/'');
          out = rev (fold (clean_step rooted) (path_elems p) [])
      in if out = [] then (if rooted then ''/'' else ''.'')
         else (if rooted then ''/'' else []) @ intercalate ''/'' out)"

definition Join :: "string list \<Rightarrow> string" where
  "Join elems =
     (case dropWhile (\<lambda>e. e = []) elems of [] \<Rightarrow> [] | es \<Rightarrow> Clean (intercalate ''/'' es))"

section \<open>Directories\<close>

definition AppName :: string where
  "AppName = ''crypto-go''"

text \<open>\<open>os.UserHomeDir\<close> is the variable \<open>HOME\<close>, empty with an error that is ignored when it is not
  set.\<close>

definition GetWorkspaceDir :: "string \<Rightarrow> (string \<Rightarrow> bool) \<Rightarrow> (string \<Rightarrow> string) \<Rightarrow> string" where
  "GetWorkspaceDir goos exists getenv =
     (let localDir = ''_workspace'' in
      if exists localDir then localDir
      else if goos = ''windows'' then
        (let baseDir = getenv ''APPDATA'';
             baseDir = (if baseDir = [] then Join [getenv ''USERPROFILE'', ''AppData'', ''Roaming''] else baseDir)
         in Join [baseDir, AppName])
      else if goos = ''darwin'' then
        Join [Join [getenv ''HOME'', ''Library'', ''Application Support''], AppName]
      else if goos = ''linux'' then
        (let dataHome = getenv ''XDG_DATA_HOME'';
             baseDir = (if dataHome \<noteq> [] then dataHome else Join [getenv ''HOME'', ''.local'', ''share''])
         in Join [baseDir, AppName])
      else localDir)"

text \<open>\<open>configRoot\<close> is what \<open>os.UserConfigDir\<close> answers.\<close>

definition ResolveConfigPath :: "(string \<Rightarrow> bool) \<Rightarrow> string option \<Rightarrow> string" where
  "ResolveConfigPath exists configRoot =
     (let defaultPath = Join [''configs'', ''config.yaml''] in
      if exists defaultPath then defaultPath
      else
        (case configRoot of
           Some root \<Rightarrow>
             let osPath = Join [root, AppName, ''config.yaml''] in
             if exists osPath then osPath else defaultPath
         | None \<Rightarrow> defaultPath))"

text \<open>The database of a trading mode (\<open>internal/app/bootstrap.go\<close>, \<open>Initialize\<close>). Modes are ASCII
  text, on which \<open>strings.ToLower\<close> changes only the letters A to Z.\<close>

definition ascii_lower :: "char \<Rightarrow> char" where
  "ascii_lower c = (let k = of_char c :: nat in if 65 \<le> k \<and> k \<le> 90 then char_of (k + 32) else c)"

definition ToLower :: "string \<Rightarrow> string" where
  "ToLower s = map ascii_lower s"

definition mode_dir :: "string \<Rightarrow> string" where
  "mode_dir tradingMode = (let mode = ToLower tradingMode in if mode = [] then ''paper'' else mode)"

definition db_path :: "string \<Rightarrow> string \<Rightarrow> string" where
  "db_path workDir tradingMode = Join [Join [workDir, ''data'', mode_dir tradingMode], ''events.db'']"

section \<open>The instance lock\<close>

text \<open>Lock files as inodes behind their paths, the open descriptors with their inodes, and the descriptor
  that holds the \<open>flock\<close> of an inode: the lock belongs to the descriptor and not to the process.
  A descriptor has the process and the path it was opened with. \<open>lk_admitted\<close> records the
  descriptors through which \<open>CreateLockFile\<close> has let in a process that still runs; that such a
  process also holds the lock is a claim about it, not part of its meaning.\<close>

type_synonym pid = nat
type_synonym inode = nat
type_synonym descriptor = nat

record lock_os =
  lk_path :: "string \<rightharpoonup> inode"
  lk_inodes :: inode
  lk_fds :: descriptor
  lk_fd :: "descriptor \<rightharpoonup> inode"
  lk_owner :: "descriptor \<Rightarrow> pid"
  lk_opened :: "descriptor \<Rightarrow> string"
  lk_held :: "inode \<rightharpoonup> descriptor"
  lk_admitted :: "descriptor set"

definition initial_os :: lock_os where
  "initial_os =
     \<lparr>lk_path = Map.empty, lk_inodes = 0, lk_fds = 0, lk_fd = Map.empty, lk_owner = (\<lambda>_. 0), lk_opened = (\<lambda>_. []),
      lk_held = Map.empty, lk_admitted = {}\<rparr>"

text \<open>\<open>os.OpenFile(lockPath, O_CREATE|O_RDWR)\<close> gives a new descriptor.\<close>

definition open_lock :: "pid \<Rightarrow> string \<Rightarrow> lock_os \<Rightarrow> descriptor \<times> lock_os" where
  "open_lock p path s =
     (let d = lk_fds s; i = (case lk_path s path of Some i \<Rightarrow> i | None \<Rightarrow> lk_inodes s) in
      (d, s\<lparr>lk_path := (lk_path s)(path \<mapsto> i),
            lk_inodes := (if lk_path s path = None then lk_inodes s + 1 else lk_inodes s),
            lk_fds := d + 1, lk_fd := (lk_fd s)(d \<mapsto> i), lk_owner := (lk_owner s)(d := p),
            lk_opened := (lk_opened s)(d := path)\<rparr>))"

text \<open>\<open>f.Close()\<close>: a lock held through the descriptor is released.\<close>

definition close_lock :: "descriptor \<Rightarrow> lock_os \<Rightarrow> lock_os" where
  "close_lock d s =
     s\<lparr>lk_fd := (lk_fd s)(d := None),
       lk_held := (\<lambda>i. if lk_held s i = Some d then None else lk_held s i)\<rparr>"

text \<open>\<open>lockFile\<close>: an exclusive, non-blocking \<open>flock\<close>; on failure \<open>CreateLockFile\<close> closes the file.\<close>

definition lockFile :: "descriptor \<Rightarrow> lock_os \<Rightarrow> bool \<times> lock_os" where
  "lockFile d s =
     (case lk_fd s d of
        None \<Rightarrow> (False, s)
      | Some i \<Rightarrow>
          (case lk_held s i of
             Some e \<Rightarrow> if e = d then (True, s) else (False, s)
           | None \<Rightarrow> (True, s\<lparr>lk_held := (lk_held s)(i \<mapsto> d)\<rparr>)))"

definition try_lock :: "descriptor \<Rightarrow> lock_os \<Rightarrow> bool \<times> lock_os" where
  "try_lock d s =
     (case lockFile d s of
        (True, s) \<Rightarrow> (True, s\<lparr>lk_admitted := insert d (lk_admitted s)\<rparr>)
      | (False, s) \<Rightarrow> (False, close_lock d s))"

text \<open>The two calls of the closer that \<open>CreateLockFile\<close> returns are \<open>close_lock\<close> and
  \<open>os.Remove(lockPath)\<close>.\<close>

definition remove_lock :: "string \<Rightarrow> lock_os \<Rightarrow> lock_os" where
  "remove_lock path s = s\<lparr>lk_path := (lk_path s)(path := None)\<rparr>"

text \<open>The end of a process, a crash included: all its descriptors are closed.\<close>

definition exit_process :: "pid \<Rightarrow> lock_os \<Rightarrow> lock_os" where
  "exit_process p s =
     s\<lparr>lk_fd := (\<lambda>d. if lk_owner s d = p then None else lk_fd s d),
       lk_held := (\<lambda>i. case lk_held s i of Some d \<Rightarrow> if lk_owner s d = p then None else Some d | None \<Rightarrow> None),
       lk_admitted := {d \<in> lk_admitted s. lk_owner s d \<noteq> p}\<rparr>"

text \<open>The system calls of the processes, one at a time. \<open>Closes\<close> is the closer's \<open>f.Close()\<close>, or the
  garbage collector's: \<open>Initialize\<close> throws the closer away, so nothing refers to the file any
  more and it is closed while the process runs on.\<close>

datatype lock_label = Opens pid string | Tries descriptor | Closes descriptor | Removes string | Exits pid

definition lock_act :: "lock_label \<Rightarrow> lock_os \<Rightarrow> lock_os" where
  "lock_act l s =
     (case l of
        Opens p path \<Rightarrow> snd (open_lock p path s)
      | Tries d \<Rightarrow> snd (try_lock d s)
      | Closes d \<Rightarrow> close_lock d s
      | Removes path \<Rightarrow> remove_lock path s
      | Exits p \<Rightarrow> exit_process p s)"

text \<open>A process holds the lock of a path: it has an open descriptor of the file that is there, and the
  descriptor holds the file's lock.\<close>

definition holds_by :: "descriptor \<Rightarrow> string \<Rightarrow> lock_os \<Rightarrow> bool" where
  "holds_by d path s \<longleftrightarrow> d < lk_fds s \<and> (\<exists>i. lk_path s path = Some i \<and> lk_fd s d = Some i \<and> lk_held s i = Some d)"

definition holds_lock :: "pid \<Rightarrow> string \<Rightarrow> lock_os \<Rightarrow> bool" where
  "holds_lock p path s \<longleftrightarrow> (\<exists>d < lk_fds s. lk_owner s d = p \<and> holds_by d path s)"

section \<open>Properties\<close>

lemma Split_not_Nil [simp]: "Split sep s \<noteq> []"
  by (induction s) (auto split: list.splits)

lemma Split_append_sep: "Split sep (a @ sep # b) = Split sep a @ Split sep b"
proof (induction a)
  case (Cons c a)
  show ?case
  proof (cases "c = sep")
    case False
    obtain p ps where "Split sep a = p # ps" by (cases "Split sep a") auto
    then show ?thesis using Cons False by simp
  qed (use Cons in simp)
qed simp

text \<open>A plain path element: a name that is not empty, has no slash and is not a dot name.\<close>

definition plain :: "string \<Rightarrow> bool" where
  "plain e \<longleftrightarrow> e \<noteq> [] \<and> CHR ''/'' \<notin> set e \<and> e \<noteq> ''.'' \<and> e \<noteq> ''..''"

lemma path_elems_plain: "plain e \<Longrightarrow> path_elems (w @ CHR ''/'' # e) = path_elems w @ [e]"
  by (simp add: path_elems_def Split_append_sep plain_def)

lemma intercalate_snoc: "xs \<noteq> [] \<Longrightarrow> intercalate sep (xs @ [y]) = intercalate sep xs @ sep @ y"
  by (induction sep xs rule: intercalate.induct) auto

lemma Clean_plain:
  assumes "plain e" "w \<noteq> []"
  shows "Clean (w @ CHR ''/'' # e) =
    (if Clean w = ''.'' then e else if Clean w = ''/'' then ''/'' @ e else Clean w @ ''/'' @ e)"
proof -
  let ?rooted = "hd w = CHR ''/''"
  let ?out = "fold (clean_step ?rooted) (path_elems w) []"
  have out: "fold (clean_step ?rooted) (path_elems (w @ CHR ''/'' # e)) [] = e # ?out"
    using assms(1) by (simp add: path_elems_plain clean_step_def plain_def)
  have sub: "set (fold (clean_step r) es out) \<subseteq> set es \<union> set out" for r es out
  proof (induction es arbitrary: out)
    case (Cons e es)
    have "set (clean_step r e out) \<subseteq> insert e (set out)" by (auto simp: clean_step_def split: list.splits)
    then show ?case using Cons [of "clean_step r e out"] by auto
  qed simp
  have good: "x \<noteq> [] \<and> x \<noteq> ''.''" if "x \<in> set ?out" for x
    using subsetD [OF sub that] by (simp add: path_elems_def)
  have ns: "CHR ''/'' \<notin> set x" if "x \<in> set ?out" for x
  proof -
    have "CHR ''/'' \<notin> set y" if "y \<in> set (Split CHR ''/'' w)" for y
      using that by (induction w arbitrary: y) (auto split: list.splits if_splits)
    then show ?thesis using subsetD [OF sub that] by (auto simp: path_elems_def)
  qed
  show ?thesis
  proof (cases "?out = []")
    case True
    then show ?thesis using assms(2) out by (simp add: Clean_def Let_def)
  next
    case False
    have ne: "rev ?out \<noteq> []" using False by simp
    obtain x xs where x: "rev ?out = x # xs" using ne by (cases "rev ?out") auto
    have xg: "x \<noteq> []" "x \<noteq> ''.''" "CHR ''/'' \<notin> set x" using good ns x by (metis list.set_intros(1) set_rev)+
    have i: "intercalate ''/'' (x # xs) \<noteq> ''.''" "intercalate ''/'' (x # xs) \<noteq> []"
      "hd (intercalate ''/'' (x # xs)) \<noteq> CHR ''/''"
      using xg by (cases xs; cases x; auto)+
    have w: "Clean w = (if ?rooted then ''/'' else []) @ intercalate ''/'' (rev ?out)"
      using assms(2) False by (simp add: Clean_def Let_def)
    have "Clean w \<noteq> ''.''" "Clean w \<noteq> ''/''" using i x w by (auto simp: Cons_eq_append_conv)
    moreover have "Clean (w @ CHR ''/'' # e) = (if ?rooted then ''/'' else []) @ intercalate ''/'' (rev ?out @ [e])"
      using assms(2) out by (simp add: Clean_def Let_def)
    ultimately show ?thesis using w by (simp add: intercalate_snoc [OF ne])
  qed
qed

lemma Clean_not_Nil [simp]: "Clean p \<noteq> []"
proof -
  have ne: "intercalate sep xs \<noteq> []" if "xs \<noteq> []" "\<forall>x \<in> set xs. x \<noteq> []" for sep xs
    using that by (cases xs; cases "tl xs") auto
  have sub: "\<forall>x \<in> set (fold (clean_step r) es out). x \<noteq> []"
    if "\<forall>x \<in> set es. x \<noteq> []" "\<forall>x \<in> set out. x \<noteq> []" for r es out
    using that
  proof (induction es arbitrary: out)
    case (Cons e es)
    have "\<forall>x \<in> set (clean_step r e out). x \<noteq> []" using Cons.prems by (auto simp: clean_step_def split: list.splits)
    then show ?case using Cons by simp
  qed simp
  have "\<forall>x \<in> set (path_elems p). x \<noteq> []" by (simp add: path_elems_def)
  then have "\<forall>x \<in> set (rev (fold (clean_step r) (path_elems p) [])). x \<noteq> []" for r
    using sub [of "path_elems p" "[]"] by simp
  then show ?thesis using ne by (simp add: Clean_def Let_def)
qed

lemma Clean_plain_inject:
  assumes "plain a" "plain b" "w \<noteq> []" "Clean (w @ CHR ''/'' # a) = Clean (w @ CHR ''/'' # b)"
  shows "a = b"
  using assms(4) unfolding Clean_plain [OF assms(1,3)] Clean_plain [OF assms(2,3)] by (auto split: if_splits)

text \<open>Trading modes do not share data: under one workspace directory two trading modes use the same
  event database exactly when they are the same mode up to the case of letters, the empty mode
  counting as \<open>paper\<close>.\<close>

lemma modes_use_separate_databases:
  assumes "workDir \<noteq> []" "plain (mode_dir m)" "plain (mode_dir n)"
  shows "db_path workDir m = db_path workDir n \<longleftrightarrow> mode_dir m = mode_dir n"
proof
  let ?c = "Clean (workDir @ ''/data'')"
  let ?x = "\<lambda>m. Clean (workDir @ ''/data/'' @ mode_dir m)"
  have ev: "plain ''events.db''" "plain ''data''" by (simp_all add: plain_def)
  have db: "db_path workDir k = Clean (?x k @ CHR ''/'' # ''events.db'')" for k
    using assms(1) Clean_not_Nil [of "workDir @ ''/data/'' @ mode_dir k"] by (simp add: db_path_def Join_def)
  have x: "?x k = Clean ((workDir @ ''/data'') @ CHR ''/'' # mode_dir k)" for k by simp
  assume "db_path workDir m = db_path workDir n"
  moreover have "Clean (?x k) \<noteq> ''.'' \<and> Clean (?x k) \<noteq> ''/'' \<and> (\<forall>j. plain (mode_dir j) \<longrightarrow> Clean (?x k) = Clean (?x j) \<longrightarrow> mode_dir k = mode_dir j)"
    if k: "plain (mode_dir k)" for k
  proof -
    have r: "?x j = (if ?c = ''.'' then mode_dir j else if ?c = ''/'' then ''/'' @ mode_dir j else ?c @ ''/'' @ mode_dir j)"
      if "plain (mode_dir j)" for j
      unfolding x by (rule Clean_plain [OF that]) simp
    have c: "?c \<noteq> ''.''" "?c \<noteq> ''/''"
      using Clean_plain [OF ev(2) assms(1)] by (auto split: if_splits)
    then have r: "?x j = ?c @ CHR ''/'' # mode_dir j" if "plain (mode_dir j)" for j using r [OF that] by simp
    have "Clean (?x k) \<noteq> ''.'' \<and> Clean (?x k) \<noteq> ''/''"
      unfolding r [OF k] Clean_plain [OF k Clean_not_Nil] using k by (auto simp: plain_def append_eq_Cons_conv)
    moreover have "mode_dir k = mode_dir j" if "plain (mode_dir j)" "Clean (?x k) = Clean (?x j)" for j
      by (rule Clean_plain_inject [OF k that(1) Clean_not_Nil, of "workDir @ ''/data''"])
        (use that r [OF k] r [OF that(1)] in simp)
    ultimately show ?thesis by blast
  qed
  ultimately show "mode_dir m = mode_dir n"
    using assms(2,3) unfolding db Clean_plain [OF ev(1) Clean_not_Nil] by simp
qed (simp add: db_path_def)

lemma modes_use_separate_databases_witness:
  "db_path ''_workspace'' ''PAPER'' \<noteq> db_path ''_workspace'' ''REAL'' \<and> db_path ''_workspace'' [] = db_path ''_workspace'' ''Paper''"
proof -
  have m: "mode_dir ''PAPER'' = ''paper''" "mode_dir ''REAL'' = ''real''" "mode_dir [] = ''paper''" "mode_dir ''Paper'' = ''paper''"
    by (simp_all add: mode_dir_def ToLower_def ascii_lower_def Let_def char_of_def bit_0)
  have p: "plain ''paper''" "plain ''real''" by (simp_all add: plain_def)
  show ?thesis
    using modes_use_separate_databases [of "''_workspace''" "''PAPER''" "''REAL''"]
      modes_use_separate_databases [of "''_workspace''" "[]" "''Paper''"]
    by (simp add: m p)
qed

text \<open>Only one process holds the lock of a path.\<close>

lemma holds_lock_unique: "holds_lock p path s \<Longrightarrow> holds_lock q path s \<Longrightarrow> p = q"
  by (auto simp: holds_lock_def holds_by_def)

definition undisturbed :: "lock_label \<Rightarrow> bool" where
  "undisturbed l \<longleftrightarrow> (case l of Closes _ \<Rightarrow> False | Removes _ \<Rightarrow> False | _ \<Rightarrow> True)"

text \<open>An attempt to lock changes the lock of its own descriptor only.\<close>

lemma try_lock_cases:
  obtains (no_file) "lk_fd s d = None" "try_lock d s = (False, close_lock d s)"
  | (busy) i e where "lk_fd s d = Some i" "lk_held s i = Some e" "e \<noteq> d" "try_lock d s = (False, close_lock d s)"
  | (free) i where "lk_fd s d = Some i" "lk_held s i = None \<or> lk_held s i = Some d"
      "try_lock d s = (True, s\<lparr>lk_held := (lk_held s)(i \<mapsto> d), lk_admitted := insert d (lk_admitted s)\<rparr>)"
proof (cases "lk_fd s d")
  case None
  then show thesis using no_file by (simp add: try_lock_def lockFile_def)
next
  case (Some i)
  show thesis
  proof (cases "lk_held s i = None \<or> lk_held s i = Some d")
    case True
    then have "lk_held s i = Some d \<Longrightarrow> (lk_held s)(i \<mapsto> d) = lk_held s" by auto
    then have "try_lock d s = (True, s\<lparr>lk_held := (lk_held s)(i \<mapsto> d), lk_admitted := insert d (lk_admitted s)\<rparr>)"
      using True Some by (cases "lk_held s i") (simp_all add: try_lock_def lockFile_def)
    then show thesis using free Some True by blast
  next
    case False
    then obtain e where "lk_held s i = Some e" "e \<noteq> d" by auto
    then show thesis using busy [of i e] Some by (simp add: try_lock_def lockFile_def)
  qed
qed

text \<open>A lock stays where it is until its process closes or removes the file or ends.\<close>

lemma lock_act_holds:
  assumes "holds_by d path s" "undisturbed l" "l \<noteq> Exits (lk_owner s d)"
  shows "holds_by d path (lock_act l s) \<and> lk_owner (lock_act l s) d = lk_owner s d"
proof -
  obtain i where i: "d < lk_fds s" "lk_path s path = Some i" "lk_fd s d = Some i" "lk_held s i = Some d"
    using assms(1) by (auto simp: holds_by_def)
  have close: "holds_by d path (close_lock e s) \<and> lk_owner (close_lock e s) d = lk_owner s d" if "e \<noteq> d" for e
    using i that by (simp add: holds_by_def close_lock_def)
  show ?thesis
  proof (cases l)
    case (Opens p other)
    then show ?thesis using i by (auto simp: holds_by_def lock_act_def open_lock_def Let_def)
  next
    case (Tries e)
    show ?thesis
    proof (cases rule: try_lock_cases [of s e])
      case no_file
      then have "e \<noteq> d" using i(3) by auto
      then show ?thesis using close no_file Tries by (simp add: lock_act_def)
    next
      case (busy j e')
      then have "e \<noteq> d" using i(3,4) by auto
      then show ?thesis using close busy Tries by (simp add: lock_act_def)
    next
      case (free j)
      then have "j = i \<Longrightarrow> e = d" using i(4) by auto
      then show ?thesis using free i Tries by (auto simp: lock_act_def holds_by_def)
    qed
  next
    case (Exits p)
    then show ?thesis using i assms(3) by (simp add: holds_by_def lock_act_def exit_process_def)
  qed (use assms(2) in \<open>simp_all add: undisturbed_def\<close>)
qed

lemma lock_run_holds:
  "holds_by d path s \<Longrightarrow> list_all undisturbed ls \<Longrightarrow> Exits (lk_owner s d) \<notin> set ls \<Longrightarrow>
   holds_by d path (fold lock_act ls s) \<and> lk_owner (fold lock_act ls s) d = lk_owner s d"
proof (induction ls arbitrary: s)
  case (Cons l ls)
  then show ?case using lock_act_holds [of d path s l] Cons.IH [of "lock_act l s"] by auto
qed simp

text \<open>As long as no file is closed or removed: every descriptor is of the file at its path, and whoever
  was let in holds the lock.\<close>

definition lock_inv :: "lock_os \<Rightarrow> bool" where
  "lock_inv s \<longleftrightarrow>
     (\<forall>d i. lk_fd s d = Some i \<longrightarrow> d < lk_fds s \<and> lk_path s (lk_opened s d) = Some i) \<and>
     (\<forall>d \<in> lk_admitted s. holds_by d (lk_opened s d) s)"

lemma lock_act_files:
  assumes "lock_inv s" "undisturbed l" "lk_fd (lock_act l s) d = Some i"
  shows "d < lk_fds (lock_act l s) \<and> lk_path (lock_act l s) (lk_opened (lock_act l s) d) = Some i"
proof (cases l)
  case (Opens p path)
  then show ?thesis using assms(1,3) by (auto simp: lock_inv_def lock_act_def open_lock_def Let_def less_Suc_eq split: if_splits option.splits)
next
  case (Tries e)
  show ?thesis using assms(1,3) Tries
    by (cases rule: try_lock_cases [of s e]) (auto simp: lock_inv_def lock_act_def close_lock_def split: if_splits)
next
  case (Exits p)
  then show ?thesis using assms(1,3) by (auto simp: lock_inv_def lock_act_def exit_process_def split: if_splits)
qed (use assms(2) in \<open>simp_all add: undisturbed_def\<close>)

lemma lock_act_admitted:
  assumes "lock_inv s" "undisturbed l" "d \<in> lk_admitted (lock_act l s)"
  shows "holds_by d (lk_opened (lock_act l s) d) (lock_act l s)"
proof -
  have old: "holds_by d (lk_opened s d) (lock_act l s)" if "d \<in> lk_admitted s" "l \<noteq> Exits (lk_owner s d)"
    using lock_act_holds [OF _ assms(2) that(2)] assms(1) that(1) by (auto simp: lock_inv_def)
  have less: "d < lk_fds s" if "d \<in> lk_admitted s" using assms(1) that by (auto simp: lock_inv_def holds_by_def)
  show ?thesis
  proof (cases l)
    case (Opens p path)
    then have "d \<in> lk_admitted s" using assms(3) by (simp add: lock_act_def open_lock_def Let_def)
    then show ?thesis using old less Opens by (simp add: lock_act_def open_lock_def Let_def)
  next
    case (Tries e)
    show ?thesis
    proof (cases rule: try_lock_cases [of s e])
      case (free i)
      show ?thesis
      proof (cases "e = d")
        case True
        then show ?thesis using free Tries assms(1) by (auto simp: lock_act_def holds_by_def lock_inv_def)
      next
        case False
        then show ?thesis using free Tries assms(3) old by (simp add: lock_act_def)
      qed
    qed (use Tries assms(3) old in \<open>simp_all add: lock_act_def close_lock_def\<close>)
  next
    case (Exits p)
    then show ?thesis using assms(3) old by (simp add: lock_act_def exit_process_def)
  qed (use assms(2) in \<open>simp_all add: undisturbed_def\<close>)
qed

lemma lock_run_inv: "lock_inv s \<Longrightarrow> list_all undisturbed ls \<Longrightarrow> lock_inv (fold lock_act ls s)"
proof (induction ls arbitrary: s)
  case (Cons l ls)
  then have "lock_inv (lock_act l s)"
    using lock_act_files [of s l] lock_act_admitted [of s l] unfolding lock_inv_def [of "lock_act l s"] by simp
  then show ?case using Cons by simp
qed simp

text \<open>Only one instance runs on a workspace: however processes open the lock file, try to lock it, fail,
  exit or crash, \<open>CreateLockFile\<close> has let in at most one of those that run, as long as no process
  closes or removes the file before it exits.\<close>

lemma instance_lock_exclusive:
  assumes "list_all undisturbed ls" "s = fold lock_act ls initial_os"
    and "d \<in> lk_admitted s" "e \<in> lk_admitted s" "lk_opened s d = lk_opened s e"
  shows "d = e"
proof -
  have "lock_inv initial_os" by (simp add: lock_inv_def initial_os_def)
  then have "lock_inv s" using lock_run_inv assms(1,2) by blast
  then have "holds_by d (lk_opened s d) s" "holds_by e (lk_opened s d) s" using assms(3-5) by (auto simp: lock_inv_def)
  then show ?thesis by (auto simp: holds_by_def)
qed

lemmas lock_eval = lock_act_def open_lock_def close_lock_def try_lock_def lockFile_def remove_lock_def exit_process_def
  initial_os_def Let_def

text \<open>The closer that \<open>CreateLockFile\<close> returns breaks this: it removes the file after releasing the
  lock, so a process that opened the file before and locked it in between keeps running while a
  third one locks a new file. The descriptors are numbered as they are opened.\<close>

lemma lock_removal_admits_two:
  "let s = fold lock_act [Opens 1 f, Tries 0, Opens 2 f, Closes 0, Tries 1, Removes f, Exits 1, Opens 3 f, Tries 2] initial_os
   in {1, 2} \<subseteq> lk_admitted s \<and> lk_owner s 1 = 2 \<and> lk_owner s 2 = 3 \<and> lk_opened s 1 = f \<and> lk_opened s 2 = f"
  by (simp add: lock_eval)

text \<open>So does the garbage collector: once it has closed the file a second process starts beside the
  first.\<close>

lemma lock_collected_admits_two:
  "let s = fold lock_act [Opens 1 f, Tries 0, Closes 0, Opens 2 f, Tries 1] initial_os
   in {0, 1} \<subseteq> lk_admitted s \<and> lk_owner s 0 = 1 \<and> lk_owner s 1 = 2 \<and> lk_opened s 0 = f \<and> lk_opened s 1 = f"
  by (simp add: lock_eval)

end
