(* ===== verification/Snapshot.thy ===== *)
theory Snapshot
  imports Event_Store Domain "HOL-Library.AList" "HOL-Library.Char_ord" "HOL-Library.List_Lexorder" "HOL-Library.Multiset"
begin

text \<open>
  \<open>internal/storage/snapshot.go\<close>: saving the market states under a sequence number, loading the
  newest snapshot, removing old ones. The directory is the list of its entries in the order of
  \<open>os.ReadDir\<close>, by name; a file holds a JSON value or bytes that are not JSON. Whether an
  operation of the file system fails is an argument. A Go map is the list of its entries; a
  nil map is the empty one.
\<close>

section \<open>Data\<close>

record snapshot =
  sn_Seq :: u64
  sn_TsUnix :: i64
  sn_Markets :: "(string \<times> market_state option) list"

datatype node = SubDir | File payload

type_synonym directory = "(string \<times> node) list"

datatype snapshot_error =
    FailedToCreateDir
  | FailedToWriteSnapshot
  | FailedToReadDir
  | FailedToReadSnapshot
  | FailedToUnmarshalSnapshot

text \<open>What goes wrong while saving: the directory cannot be made, or writing fails and leaves the
  file untouched or with other content.\<close>

datatype save_fault = MkdirFails | WriteFails "payload option"

section \<open>JSON form\<close>

text \<open>An \<open>int64\<close> with the option \<open>,string\<close> is written as a quoted number.\<close>

definition json_quoted_int64 :: "i64 \<Rightarrow> json" where
  "json_quoted_int64 x = JStr (fmt_d (sint x))"

definition set_quoted_int64 :: "(i64 \<Rightarrow> 'r \<Rightarrow> 'r) \<Rightarrow> json \<Rightarrow> 'r \<Rightarrow> 'r option" where
  "set_quoted_int64 upd v r =
     (case v of
        JNull \<Rightarrow> Some r
      | JStr s \<Rightarrow>
          if s = ''null'' then Some r
          else if s \<noteq> [] \<and> (hd s = CHR ''-'' \<or> digit_val (hd s) \<noteq> None)
          then (case ParseInt s of (x, None) \<Rightarrow> Some (upd x r) | (_, Some _) \<Rightarrow> None)
          else None
      | _ \<Rightarrow> None)"

definition Marshal_market_state :: "market_state \<Rightarrow> json" where
  "Marshal_market_state m =
     JObj [(''price'', json_quoted_int64 (ms_PriceMicros m)), (''qty'', json_quoted_int64 (ms_TotalQtySats m)),
           (''last_update'', json_quoted_int64 (ms_LastUpdateUnixM m)), (''symbol'', json_string (ms_Symbol m))]"

definition market_state_fields :: "market_state field list" where
  "market_state_fields =
     [(''price'', set_quoted_int64 (\<lambda>x. ms_PriceMicros_update (\<lambda>_. x))),
      (''qty'', set_quoted_int64 (\<lambda>x. ms_TotalQtySats_update (\<lambda>_. x))),
      (''last_update'', set_quoted_int64 (\<lambda>x. ms_LastUpdateUnixM_update (\<lambda>_. x))),
      (''symbol'', set_string (\<lambda>x. ms_Symbol_update (\<lambda>_. x)))]"

definition null_market_state :: market_state where
  "null_market_state = \<lparr>ms_PriceMicros = 0, ms_TotalQtySats = 0, ms_LastUpdateUnixM = 0, ms_Symbol = []\<rparr>"

text \<open>A map is written with its keys sorted; a nil pointer is \<open>null\<close>.\<close>

definition Marshal_snapshot :: "snapshot \<Rightarrow> json" where
  "Marshal_snapshot snap =
     JObj [(''seq'', json_uint64 (sn_Seq snap)), (''ts'', json_int64 (sn_TsUnix snap)),
           (''markets'', JObj (map (\<lambda>(k, m). (coerce_utf8 k,
               case m of None \<Rightarrow> JNull | Some m \<Rightarrow> Marshal_market_state m)) (sort_key fst (sn_Markets snap))))]"

fun decode_markets ::
  "(string \<times> json) list \<Rightarrow> (string \<times> market_state option) list \<Rightarrow> (string \<times> market_state option) list option" where
  "decode_markets [] acc = Some acc"
| "decode_markets ((k, v) # ms) acc =
     (case v of
        JNull \<Rightarrow> decode_markets ms (AList.update k None acc)
      | _ \<Rightarrow>
          (case Unmarshal market_state_fields v null_market_state of
             None \<Rightarrow> None
           | Some m \<Rightarrow> decode_markets ms (AList.update k (Some m) acc)))"

definition set_markets :: "json \<Rightarrow> snapshot \<Rightarrow> snapshot option" where
  "set_markets v r =
     (case v of
        JNull \<Rightarrow> Some (r\<lparr>sn_Markets := []\<rparr>)
      | JObj ms \<Rightarrow> map_option (\<lambda>mk. r\<lparr>sn_Markets := mk\<rparr>) (decode_markets ms (sn_Markets r))
      | _ \<Rightarrow> None)"

definition snapshot_fields :: "snapshot field list" where
  "snapshot_fields =
     [(''seq'', set_uint64 (\<lambda>x. sn_Seq_update (\<lambda>_. x))), (''ts'', set_int64 (\<lambda>x. sn_TsUnix_update (\<lambda>_. x))),
      (''markets'', set_markets)]"

section \<open>File names\<close>

text \<open>\<open>fmt.Sscanf(name, "snapshot_%d_%d.json", &seq, &ts)\<close>: a verb skips Unicode space (given by its
  UTF-8 encodings; a newline is an error), then takes the longest run of digits, for a signed
  number after an optional sign; text after the format is not looked at.\<close>

definition space_encodings :: "string list" where
  "space_encodings = map (map char_of)
     ([[9], [11], [12], [13], [32], [194, 133], [194, 160], [225, 154, 128]]
      @ map (\<lambda>k. [226, 128, 128 + k]) [0..<11]
      @ [[226, 128, 168], [226, 128, 169], [226, 128, 175], [226, 129, 159], [227, 128, 128 :: nat]])"

definition space_at :: "string \<Rightarrow> nat" where
  "space_at s =
     (case find (\<lambda>e. take (length e) s = e) space_encodings of None \<Rightarrow> 0 | Some e \<Rightarrow> length e)"

function SkipSpace :: "string \<Rightarrow> string" where
  "SkipSpace s = (if space_at s = 0 \<or> s = [] then s else SkipSpace (drop (space_at s) s))"
  by pat_completeness auto
termination
  by (relation "measure length") auto

declare SkipSpace.simps [simp del]

definition scan_digits :: "string \<Rightarrow> string \<times> string" where
  "scan_digits s =
     (takeWhile (\<lambda>c. digit_val c \<noteq> None) s, dropWhile (\<lambda>c. digit_val c \<noteq> None) s)"

definition scanUint :: "string \<Rightarrow> (u64 \<times> string) option" where
  "scanUint s =
     (case scan_digits (SkipSpace s) of (tok, rest) \<Rightarrow>
        (case ParseUint tok of (x, None) \<Rightarrow> Some (of_nat x, rest) | (_, Some _) \<Rightarrow> None))"

definition scanInt :: "string \<Rightarrow> (i64 \<times> string) option" where
  "scanInt s =
     (let s = SkipSpace s;
          sign = (if s \<noteq> [] \<and> (hd s = CHR ''+'' \<or> hd s = CHR ''-'') then [hd s] else []);
          s = (if sign = [] then s else tl s)
      in case scan_digits s of (tok, rest) \<Rightarrow>
           if tok = [] then None
           else (case ParseInt (sign @ tok) of (x, None) \<Rightarrow> Some (x, rest) | (_, Some _) \<Rightarrow> None))"

definition scan_literal :: "string \<Rightarrow> string \<Rightarrow> string option" where
  "scan_literal lit s = (if take (length lit) s = lit then Some (drop (length lit) s) else None)"

definition snapshot_name_scan :: "string \<Rightarrow> (u64 \<times> i64) option" where
  "snapshot_name_scan name =
     Option.bind (scan_literal ''snapshot_'' name) (\<lambda>s.
     Option.bind (scanUint s) (\<lambda>(seq, s).
     Option.bind (scan_literal ''_'' s) (\<lambda>s.
     Option.bind (scanInt s) (\<lambda>(ts, s).
     map_option (\<lambda>_. (seq, ts)) (scan_literal ''.json'' s)))))"

definition snapshot_filename :: "snapshot \<Rightarrow> string" where
  "snapshot_filename snap =
     ''snapshot_'' @ dec (unat (sn_Seq snap)) @ ''_'' @ fmt_d (sint (sn_TsUnix snap)) @ ''.json''"

section \<open>Operations\<close>

text \<open>\<open>os.WriteFile\<close> on the directory, which stays ordered by name.\<close>

fun put_file :: "string \<Rightarrow> payload \<Rightarrow> directory \<Rightarrow> directory" where
  "put_file name p [] = [(name, File p)]"
| "put_file name p ((n, x) # es) =
     (if n = name then (name, File p) # es
      else if name < n then (name, File p) # (n, x) # es
      else (n, x) # put_file name p es)"

definition Save :: "save_fault option \<Rightarrow> snapshot \<Rightarrow> directory option \<Rightarrow> snapshot_error option \<times> directory option" where
  "Save fault snap d =
     (if fault = Some MkdirFails then (Some FailedToCreateDir, d)
      else
        let es = (case d of None \<Rightarrow> [] | Some es \<Rightarrow> es); name = snapshot_filename snap in
        if map_of es name = Some SubDir then (Some FailedToWriteSnapshot, Some es)
        else
          (case fault of
             Some (WriteFails None) \<Rightarrow> (Some FailedToWriteSnapshot, Some es)
           | Some (WriteFails (Some p)) \<Rightarrow> (Some FailedToWriteSnapshot, Some (put_file name p es))
           | _ \<Rightarrow> (None, Some (put_file name (Json (Marshal_snapshot snap)) es))))"

text \<open>The loop of \<open>LoadLatest\<close> over the entries.\<close>

fun find_latest :: "directory \<Rightarrow> string option \<Rightarrow> u64 \<Rightarrow> string option" where
  "find_latest [] latestPath latestSeq = latestPath"
| "find_latest ((name, x) # es) latestPath latestSeq =
     (if x = SubDir then find_latest es latestPath latestSeq
      else
        (case snapshot_name_scan name of
           None \<Rightarrow> find_latest es latestPath latestSeq
         | Some (seq, ts) \<Rightarrow>
             if latestSeq < seq then find_latest es (Some name) seq
             else find_latest es latestPath latestSeq))"

definition read_snapshot :: "bool \<Rightarrow> string \<Rightarrow> directory \<Rightarrow> snapshot_error + snapshot option" where
  "read_snapshot fault name es =
     (case map_of es name of
        Some (File p) \<Rightarrow>
          if fault then Inl FailedToReadSnapshot
          else
            (case decode_payload snapshot_fields \<lparr>sn_Seq = 0, sn_TsUnix = 0, sn_Markets = []\<rparr> p of
               None \<Rightarrow> Inl FailedToUnmarshalSnapshot
             | Some snap \<Rightarrow> Inr (Some snap))
      | _ \<Rightarrow> Inl FailedToReadSnapshot)"

definition LoadLatest :: "bool \<Rightarrow> bool \<Rightarrow> directory option \<Rightarrow> snapshot_error + snapshot option" where
  "LoadLatest dirFault fileFault d =
     (case d of
        None \<Rightarrow> Inr None
      | Some es \<Rightarrow>
          if dirFault then Inl FailedToReadDir
          else
            (case find_latest es None 0 of
               None \<Rightarrow> Inr None
             | Some name \<Rightarrow> read_snapshot fileFault name es))"

text \<open>The deep copy of the markets; \<open>ts\<close> is \<open>time.Now().Unix()\<close>.\<close>

definition CreateSnapshot :: "i64 \<Rightarrow> u64 \<Rightarrow> (string \<times> market_state) list \<Rightarrow> snapshot" where
  "CreateSnapshot ts seq markets =
     \<lparr>sn_Seq = seq, sn_TsUnix = ts, sn_Markets = map (\<lambda>(k, v). (k, Some v)) markets\<rparr>"

fun snap_files :: "directory \<Rightarrow> (string \<times> u64) list" where
  "snap_files [] = []"
| "snap_files ((name, x) # es) =
     (if x = SubDir then snap_files es
      else
        (case snapshot_name_scan name of
           None \<Rightarrow> snap_files es
         | Some (seq, ts) \<Rightarrow> (name, seq) # snap_files es))"

text \<open>The two nested loops of the sort.\<close>

definition sort_inner :: "nat \<Rightarrow> (string \<times> u64) list \<Rightarrow> (string \<times> u64) list" where
  "sort_inner i files =
     fold (\<lambda>j fs. if snd (fs ! i) < snd (fs ! j) then fs[i := fs ! j, j := fs ! i] else fs)
       [i + 1..<length files] files"

definition sort_outer :: "(string \<times> u64) list \<Rightarrow> (string \<times> u64) list" where
  "sort_outer files = fold sort_inner [0..<length files] files"

text \<open>The removal loop; \<open>fails name\<close> says whether \<open>os.Remove\<close> fails, which is only logged.\<close>

function remove_from ::
  "(string \<Rightarrow> bool) \<Rightarrow> int \<Rightarrow> (string \<times> u64) list \<Rightarrow> directory \<Rightarrow> (directory, unit) outcome" where
  "remove_from fails i files es =
     (if i < int (length files) then
        (case index_get files i of
           Inl p \<Rightarrow> Panicked p es
         | Inr (name, seq) \<Rightarrow>
             remove_from fails (i + 1) files (if fails name then es else filter (\<lambda>e. fst e \<noteq> name) es))
      else Done () es)"
  by pat_completeness auto
termination
  by (relation "measure (\<lambda>(_, i, files, _). nat (int (length files) - i))") auto

declare remove_from.simps [simp del]

definition Cleanup ::
  "bool \<Rightarrow> (string \<Rightarrow> bool) \<Rightarrow> int \<Rightarrow> directory option \<Rightarrow> (directory option, snapshot_error option) outcome" where
  "Cleanup dirFault fails keepCount d =
     (case d of
        None \<Rightarrow> Done (Some FailedToReadDir) d
      | Some es \<Rightarrow>
          if dirFault then Done (Some FailedToReadDir) d
          else
            let files = snap_files es in
            if int (length files) \<le> keepCount then Done None d
            else
              (case remove_from fails keepCount (sort_outer files) es of
                 Panicked p es \<Rightarrow> Panicked p (Some es)
               | Done _ es \<Rightarrow> Done None (Some es)))"

section \<open>File names read back\<close>

lemma byte_ne_digit: "digit_val c = Some d \<Longrightarrow> c = char_of (48 + d) \<and> d < 10"
  by (auto simp: digit_val_def Let_def split: if_splits)

lemma space_at_digit [simp]: "digit_val c \<noteq> None \<Longrightarrow> space_at (c # s) = 0"
proof -
  assume "digit_val c \<noteq> None"
  then have c: "48 \<le> (of_char c :: nat)" "of_char c \<le> (57 :: nat)"
    by (auto simp: digit_val_def Let_def split: if_splits)
  have "c \<noteq> hd e" "e \<noteq> []" if "e \<in> set space_encodings" for e
    using that c by (auto simp: space_encodings_def of_char_of)
  then have "find (\<lambda>e. take (length e) (c # s) = e) space_encodings = None"
    by (force simp: find_None_iff take_Cons split: nat.splits)
  then show ?thesis by (simp add: space_at_def)
qed

lemma space_at_minus [simp]: "space_at (CHR ''-'' # s) = 0"
proof -
  have "CHR ''-'' \<noteq> hd e" "e \<noteq> []" if "e \<in> set space_encodings" for e
    using that by (auto simp: space_encodings_def char_of_def bit_0)
  then have "find (\<lambda>e. take (length e) (CHR ''-'' # s) = e) space_encodings = None"
    by (force simp: find_None_iff take_Cons split: nat.splits)
  then show ?thesis by (simp add: space_at_def)
qed

lemma SkipSpace_none: "space_at s = 0 \<Longrightarrow> SkipSpace s = s"
  by (subst SkipSpace.simps) simp

lemma SkipSpace_dec [simp]: "SkipSpace (dec n @ s) = dec n @ s"
proof -
  obtain c cs where "dec n = c # cs" by (cases "dec n") auto
  moreover have "digit_val c \<noteq> None" using digits_dec [of n] calculation by auto
  ultimately show ?thesis by (simp add: SkipSpace_none)
qed

lemma scan_digits_dec [simp]:
  assumes "s = [] \<or> digit_val (hd s) = None"
  shows "scan_digits (dec n @ s) = (dec n, s)"
proof -
  have d: "\<forall>c \<in> set (dec n). digit_val c \<noteq> None" using digits_dec [of n] by auto
  have "takeWhile (\<lambda>c. digit_val c \<noteq> None) s = []" "dropWhile (\<lambda>c. digit_val c \<noteq> None) s = s"
    using assms by (cases s; auto)+
  with d show ?thesis by (simp add: scan_digits_def takeWhile_append dropWhile_append)
qed

lemma scanUint_dec: "s = [] \<or> digit_val (hd s) = None \<Longrightarrow> scanUint (dec (unat (x :: u64)) @ s) = Some (x, s)"
  by (simp add: scanUint_def ParseUint_dec)

lemma scanInt_fmt_d:
  assumes "s = [] \<or> digit_val (hd s) = None"
  shows "scanInt (fmt_d (sint (x :: i64)) @ s) = Some (x, s)"
proof (cases "sint x < 0")
  case True
  then show ?thesis
    using assms ParseInt_fmt_d [of x] by (simp add: scanInt_def fmt_d_def SkipSpace_none Let_def)
next
  case False
  obtain c cs where c: "dec (nat (sint x)) = c # cs" by (cases "dec (nat (sint x))") auto
  have "hd (dec (nat (sint x))) \<noteq> CHR ''+''" "hd (dec (nat (sint x))) \<noteq> CHR ''-''"
    using digits_hd [OF digits_dec dec_not_Nil, of "nat (sint x)"] by auto
  then show ?thesis
    using False assms ParseInt_fmt_d [of x] by (simp add: scanInt_def fmt_d_def Let_def hd_append)
qed

lemma snapshot_name_scan_filename:
  "snapshot_name_scan (snapshot_filename snap) = Some (sn_Seq snap, sn_TsUnix snap)"
proof -
  have "digit_val CHR ''_'' = None" by (simp add: digit_val_def Let_def)
  then show ?thesis
    by (simp add: snapshot_name_scan_def snapshot_filename_def scan_literal_def scanUint_dec scanInt_fmt_d)
qed

section \<open>The directory\<close>

abbreviation names :: "directory \<Rightarrow> string list" where
  "names es \<equiv> map fst es"

lemma set_put_file:
  assumes "sorted_wrt (<) (names es)"
  shows "set (put_file n p es) = insert (n, File p) {e \<in> set es. fst e \<noteq> n}"
  using assms
proof (induction n p es rule: put_file.induct)
  case (2 name p n x es)
  have lt: "n < fst e" if "e \<in> set es" for e using 2(2) that by auto
  consider "n = name" | "n \<noteq> name" "name < n" | "n \<noteq> name" "\<not> name < n" by blast
  then show ?case
  proof cases
    case 1
    then have "fst e \<noteq> name" if "e \<in> set es" for e using lt [OF that] by simp
    then have "{e \<in> set ((n, x) # es). fst e \<noteq> name} = set es" using 1 by auto
    then show ?thesis using 1 by (simp only: put_file.simps list.set if_True refl)
  next
    case 2
    then have "fst e \<noteq> name" if "e \<in> set es" for e using lt [OF that] by auto
    then have "{e \<in> set ((n, x) # es). fst e \<noteq> name} = set ((n, x) # es)" using 2 by auto
    then show ?thesis using 2 by (simp only: put_file.simps list.set if_True if_False refl)
  next
    case 3
    then show ?thesis using "2.IH" "2.prems" by auto
  qed
qed simp

lemma map_of_put_file:
  "sorted_wrt (<) (names es) \<Longrightarrow> map_of (put_file n p es) = (map_of es)(n \<mapsto> File p)"
proof (induction n p es rule: put_file.induct)
  case (2 name p n x es)
  show ?case
  proof (cases "name < n")
    case True
    then have "name \<notin> set (names es)" using 2(2) by force
    then show ?thesis using True by auto
  next
    case False
    then show ?thesis using 2 by auto
  qed
qed auto

lemma sorted_put_file:
  "sorted_wrt (<) (names es) \<Longrightarrow> sorted_wrt (<) (names (put_file n p es))"
proof (induction n p es rule: put_file.induct)
  case (2 name p n x es)
  then have "sorted_wrt (<) (names es)" by simp
  with 2 show ?case by (auto simp: set_put_file)
qed auto

lemma snap_files_iff:
  "(n, q) \<in> set (snap_files es) \<longleftrightarrow>
    (\<exists>p ts. (n, File p) \<in> set es \<and> snapshot_name_scan n = Some (q, ts))"
proof (induction es rule: snap_files.induct)
  case (2 name x es)
  then show ?case by (cases x) (auto split: option.splits)
qed simp

fun latest_file :: "(string \<times> u64) list \<Rightarrow> string option \<Rightarrow> u64 \<Rightarrow> string option" where
  "latest_file [] p s = p"
| "latest_file ((n, q) # fs) p s = (if s < q then latest_file fs (Some n) q else latest_file fs p s)"

lemma find_latest_files: "find_latest es p s = latest_file (snap_files es) p s"
  by (induction es p s rule: find_latest.induct) (auto split: option.splits)

lemma latest_file_cases:
  "(\<forall>f \<in> set fs. snd f \<le> s) \<and> latest_file fs p s = p \<or>
   (\<exists>f \<in> set fs. s < snd f \<and> latest_file fs p s = Some (fst f) \<and> (\<forall>g \<in> set fs. snd g \<le> snd f))"
proof (induction fs arbitrary: p s)
  case (Cons f fs)
  obtain n q where f: "f = (n, q)" by (cases f)
  show ?case
  proof (cases "s < q")
    case True
    from Cons [of q "Some n"] show ?thesis
    proof
      assume "(\<forall>f \<in> set fs. snd f \<le> q) \<and> latest_file fs (Some n) q = Some n"
      then show ?thesis using True f by (intro disjI2 bexI [of _ f]) auto
    next
      assume "\<exists>f \<in> set fs. q < snd f \<and> latest_file fs (Some n) q = Some (fst f) \<and> (\<forall>g \<in> set fs. snd g \<le> snd f)"
      then obtain g where "g \<in> set fs" "q < snd g" "latest_file fs (Some n) q = Some (fst g)"
        "\<forall>h \<in> set fs. snd h \<le> snd g" by blast
      then show ?thesis using True f by (intro disjI2 bexI [of _ g]) auto
    qed
  next
    case False
    then have "q \<le> s" by simp
    from Cons [of s p] show ?thesis
    proof
      assume "\<exists>f \<in> set fs. s < snd f \<and> latest_file fs p s = Some (fst f) \<and> (\<forall>g \<in> set fs. snd g \<le> snd f)"
      then obtain g where "g \<in> set fs" "s < snd g" "latest_file fs p s = Some (fst g)"
        "\<forall>h \<in> set fs. snd h \<le> snd g" by blast
      then show ?thesis using False f \<open>q \<le> s\<close> by (intro disjI2 bexI [of _ g]) auto
    qed (use False f in auto)
  qed
qed simp

section \<open>JSON form reads back\<close>

lemma set_quoted_int64_json [simp]: "set_quoted_int64 upd (json_quoted_int64 x) r = Some (upd x r)"
proof -
  let ?s = "fmt_d (sint x)"
  have s: "?s \<noteq> []" "hd ?s = CHR ''-'' \<or> digit_val (hd ?s) \<noteq> None"
    using digits_dec [of "nat (sint x)"] by (auto simp: fmt_d_def dest: hd_in_set intro: list.set_sel(1))
  moreover have "?s \<noteq> ''null''" using s(2) by (auto simp: digit_val_def Let_def)
  ultimately show ?thesis
    by (simp add: set_quoted_int64_def json_quoted_int64_def ParseInt_fmt_d)
qed

lemma Unmarshal_market_state:
  "Unmarshal market_state_fields (Marshal_market_state m) null_market_state
     = Some (m\<lparr>ms_Symbol := coerce_utf8 (ms_Symbol m)\<rparr>)"
  by (simp add: Unmarshal_def market_state_fields_def null_market_state_def Marshal_market_state_def find_field_def)

definition markets_well_encoded :: "(string \<times> market_state option) list \<Rightarrow> bool" where
  "markets_well_encoded mk \<longleftrightarrow>
     (\<forall>(k, m) \<in> set mk. well_encoded k \<and> (\<forall>x. m = Some x \<longrightarrow> well_encoded (ms_Symbol x)))"

lemma decode_markets_Marshal:
  "markets_well_encoded mk \<Longrightarrow>
    decode_markets (map (\<lambda>(k, m). (coerce_utf8 k, case m of None \<Rightarrow> JNull | Some m \<Rightarrow> Marshal_market_state m)) mk) acc
      = Some (fold (\<lambda>(k, m). AList.update k m) mk acc)"
proof (induction mk arbitrary: acc)
  case (Cons km mk)
  obtain k m where km: "km = (k, m)" by (cases km)
  show ?case
  proof (cases m)
    case None
    then show ?thesis using Cons km by (simp add: markets_well_encoded_def)
  next
    case (Some x)
    have "Unmarshal market_state_fields (Marshal_market_state x) null_market_state = Some x"
      using Cons.prems km Some by (simp add: Unmarshal_market_state markets_well_encoded_def)
    moreover obtain ms where "Marshal_market_state x = JObj ms" by (simp add: Marshal_market_state_def)
    ultimately show ?thesis using Cons km Some by (simp add: markets_well_encoded_def)
  qed
qed simp

lemma map_of_fold_update:
  "distinct (map fst xs) \<Longrightarrow> map_of (fold (\<lambda>(k, m). AList.update k m) xs acc) = map_of acc ++ map_of xs"
proof (induction xs arbitrary: acc)
  case (Cons x xs)
  obtain k m where x: "x = (k, m)" by (cases x)
  have "map_of xs k = None" using Cons.prems x by (simp add: map_of_eq_None_iff)
  then show ?case using Cons x by (auto simp: AList.update_conv' map_add_def split: option.splits)
qed simp

lemma map_of_sort_key_fst:
  fixes xs :: "('k :: linorder \<times> 'v) list"
  assumes "distinct (map fst xs)"
  shows "map_of (sort_key fst xs) = map_of xs"
proof
  have "distinct (map fst (sort_key fst xs))"
    using assms by (simp add: distinct_map)
  then show "map_of (sort_key fst xs) k = map_of xs k" for k
    using assms by (cases "map_of xs k") (simp_all, metis fst_conv map_of_eq_None_iff set_map set_sort)
qed

lemma Unmarshal_snapshot:
  assumes "markets_well_encoded (sn_Markets snap)" "distinct (map fst (sn_Markets snap))"
  shows "\<exists>mk. Unmarshal snapshot_fields (Marshal_snapshot snap) \<lparr>sn_Seq = 0, sn_TsUnix = 0, sn_Markets = []\<rparr>
      = Some (snap\<lparr>sn_Markets := mk\<rparr>) \<and> map_of mk = map_of (sn_Markets snap)"
proof -
  let ?xs = "sort_key fst (sn_Markets snap)"
  have "markets_well_encoded ?xs" using assms(1) by (simp add: markets_well_encoded_def)
  note dec = decode_markets_Marshal [OF this, of "[]"]
  have "map_of (fold (\<lambda>(k, m). AList.update k m) ?xs []) = map_of (sn_Markets snap)"
    using assms(2) by (subst map_of_fold_update) (simp_all add: map_of_sort_key_fst distinct_map)
  then show ?thesis
    by (intro exI [of _ "fold (\<lambda>(k, m). AList.update k m) ?xs []"])
      (simp add: Unmarshal_def snapshot_fields_def Marshal_snapshot_def find_field_def set_markets_def dec)
qed

section \<open>The sort\<close>

abbreviation exchange :: "nat \<Rightarrow> nat \<Rightarrow> (string \<times> u64) list \<Rightarrow> (string \<times> u64) list" where
  "exchange i j fs \<equiv> (if snd (fs ! i) < snd (fs ! j) then fs[i := fs ! j, j := fs ! i] else fs)"

lemma exchange_max:
  assumes "i < m" "m < length fs" "\<forall>j. i \<le> j \<and> j < m \<longrightarrow> snd (fs ! j) \<le> snd (fs ! i)"
  shows "\<forall>j. i \<le> j \<and> j < Suc m \<longrightarrow> snd (exchange i m fs ! j) \<le> snd (exchange i m fs ! i)"
proof (cases "snd (fs ! i) < snd (fs ! m)")
  case True
  have nth: "fs[i := fs ! m, m := fs ! i] ! j = (if j = i then fs ! m else if j = m then fs ! i else fs ! j)"
    if "j < length fs" for j
    using that assms(1,2) by (simp add: nth_list_update)
  have "snd (fs[i := fs ! m, m := fs ! i] ! j) \<le> snd (fs ! m)" if "i \<le> j" "j < Suc m" for j
  proof (cases "j = i \<or> j = m")
    case False
    then have "snd (fs ! j) \<le> snd (fs ! i)" using assms(3) that by simp
    then show ?thesis using nth [of j] that assms(2) True False by simp
  qed (use nth [of j] that assms(2) True in auto)
  then show ?thesis using True nth [of i] assms(1,2) by simp
next
  case False
  then show ?thesis using assms(3) by (auto simp: less_Suc_eq not_less)
qed

lemma sort_inner_upto:
  assumes "i < length fs" "m \<le> length fs" "i < m"
  defines "gs \<equiv> fold (\<lambda>j fs. exchange i j fs) [i + 1..<m] fs"
  shows "mset gs = mset fs" "take i gs = take i fs" "\<forall>j. i \<le> j \<and> j < m \<longrightarrow> snd (gs ! j) \<le> snd (gs ! i)"
  using assms(2,3) unfolding gs_def
proof (induction m)
  case (Suc m)
  let ?g = "fold (\<lambda>j fs. exchange i j fs) [i + 1..<m] fs"
  { case 1 show ?case
    proof (cases "i < m")
      case True
      then have "mset ?g = mset fs" using Suc 1 by simp
      moreover from this have "length ?g = length fs" by (rule mset_eq_length)
      ultimately show ?thesis using True 1 assms(1) by (simp add: mset_swap)
    qed (use 1 in auto) }
  { case 2 show ?case
    proof (cases "i < m")
      case True
      then show ?thesis using Suc 2 by simp
    qed (use 2 in auto) }
  { case 3 show ?case
    proof (cases "i < m")
      case True
      then have ms: "mset ?g = mset fs" and le: "\<forall>j. i \<le> j \<and> j < m \<longrightarrow> snd (?g ! j) \<le> snd (?g ! i)"
        using Suc 3 by simp_all
      have "m < length ?g" using 3 mset_eq_length [OF ms] by simp
      note mx = exchange_max [OF True this le]
      have eq: "fold (\<lambda>j fs. exchange i j fs) [i + 1..<Suc m] fs = exchange i m ?g" using True by simp
      show ?thesis unfolding eq by (rule mx)
    next
      case False
      show ?thesis
      proof (intro allI impI, elim conjE)
        fix j assume "i \<le> j" "j < Suc m"
        then have "j = i" using False by simp
        then show "snd (fold (exchange i) [i + 1..<Suc m] fs ! j) \<le> snd (fold (exchange i) [i + 1..<Suc m] fs ! i)"
          by simp
      qed
    qed }
qed auto

lemma sort_inner_props:
  assumes "i < length fs"
  shows "mset (sort_inner i fs) = mset fs" "take i (sort_inner i fs) = take i fs"
    and "\<forall>j. i \<le> j \<and> j < length fs \<longrightarrow> snd (sort_inner i fs ! j) \<le> snd (sort_inner i fs ! i)"
  using sort_inner_upto [OF assms order.refl assms] by (simp_all add: sort_inner_def)

abbreviation seq_ge :: "string \<times> u64 \<Rightarrow> string \<times> u64 \<Rightarrow> bool" where
  "seq_ge a b \<equiv> snd b \<le> snd a"

lemma sort_inner_split:
  assumes "m < length fs"
  shows "take (Suc m) (sort_inner m fs) = take m fs @ [sort_inner m fs ! m]"
    and "mset (drop m (sort_inner m fs)) = mset (drop m fs)"
    and "\<forall>y \<in> set (drop (Suc m) (sort_inner m fs)). seq_ge (sort_inner m fs ! m) y"
proof -
  let ?h = "sort_inner m fs"
  have len: "length ?h = length fs" using sort_inner_props(1) [OF assms] by (metis mset_eq_length)
  show "take (Suc m) ?h = take m fs @ [?h ! m]"
    using sort_inner_props(2) [OF assms] assms len by (simp add: take_Suc_conv_app_nth)
  have "mset (take m ?h) + mset (drop m ?h) = mset (take m fs) + mset (drop m fs)"
    using sort_inner_props(1) [OF assms] by (simp flip: mset_append)
  then show "mset (drop m ?h) = mset (drop m fs)" using sort_inner_props(2) [OF assms] by simp
  show "\<forall>y \<in> set (drop (Suc m) ?h). seq_ge (?h ! m) y"
  proof
    fix y assume "y \<in> set (drop (Suc m) ?h)"
    then obtain k where "k < length fs - Suc m" "y = ?h ! (Suc m + k)"
      using len by (auto simp: in_set_conv_nth)
    then show "seq_ge (?h ! m) y" using sort_inner_props(3) [OF assms] by simp
  qed
qed

lemma sort_outer_upto:
  assumes "m \<le> length fs"
  defines "gs \<equiv> fold sort_inner [0..<m] fs"
  shows "mset gs = mset fs \<and> sorted_wrt seq_ge (take m gs) \<and>
    (\<forall>x \<in> set (take m gs). \<forall>y \<in> set (drop m gs). seq_ge x y)"
  using assms(1) unfolding gs_def
proof (induction m)
  case (Suc m)
  let ?g = "fold sort_inner [0..<m] fs"
  let ?h = "sort_inner m ?g"
  have g: "mset ?g = mset fs" "sorted_wrt seq_ge (take m ?g)"
    "\<forall>x \<in> set (take m ?g). \<forall>y \<in> set (drop m ?g). seq_ge x y"
    using Suc by simp_all
  have m: "m < length ?g" using g(1) Suc.prems by (metis Suc_le_lessD mset_eq_length)
  note h = sort_inner_split [OF m] sort_inner_props(1) [OF m]
  have len: "length ?h = length ?g" using h(4) by (metis mset_eq_length)
  have dr: "set (drop m ?h) = set (drop m ?g)" using h(2) by (rule mset_eq_setD)
  have "?h ! m \<in> set (drop m ?h)" using m len by (metis Cons_nth_drop_Suc list.set_intros(1))
  moreover have "set (drop (Suc m) ?h) \<subseteq> set (drop m ?h)" by (simp add: set_drop_subset_set_drop)
  ultimately show ?case using g h dr by (auto simp: sorted_wrt_append)
qed simp

lemma sort_outer_props: "mset (sort_outer fs) = mset fs" "sorted_wrt seq_ge (sort_outer fs)"
proof -
  have "mset (sort_outer fs) = mset fs \<and> sorted_wrt seq_ge (take (length fs) (sort_outer fs))"
    using sort_outer_upto [of "length fs" fs] by (simp add: sort_outer_def)
  then show "mset (sort_outer fs) = mset fs" "sorted_wrt seq_ge (sort_outer fs)"
    by (auto simp: take_all [OF mset_eq_length [THEN eq_imp_le]])
qed

section \<open>Removing old snapshots\<close>

lemma remove_from_eq:
  "remove_from fails (int k) files es =
     Done () (filter (\<lambda>e. fst e \<notin> fst ` set (drop k files) \<or> fails (fst e)) es)"
proof (induction "length files - k" arbitrary: k es)
  case 0
  then show ?case by (subst remove_from.simps) simp
next
  case (Suc l)
  then have k: "k < length files" by simp
  obtain n q where f: "files ! k = (n, q)" by (cases "files ! k")
  have d: "fst ` set (drop k files) = insert n (fst ` set (drop (Suc k) files))"
    using k f by (subst Cons_nth_drop_Suc [symmetric]) auto
  have "remove_from fails (int k) files es =
      remove_from fails (int (Suc k)) files (if fails n then es else filter (\<lambda>e. fst e \<noteq> n) es)"
    using k f by (subst remove_from.simps) (simp add: index_get_def add.commute)
  also have "\<dots> = Done () (filter (\<lambda>e. fst e \<notin> fst ` set (drop (Suc k) files) \<or> fails (fst e))
      (if fails n then es else filter (\<lambda>e. fst e \<noteq> n) es))"
    using Suc.hyps by (intro Suc.hyps(1)) simp
  also have "filter (\<lambda>e. fst e \<notin> fst ` set (drop (Suc k) files) \<or> fails (fst e))
      (if fails n then es else filter (\<lambda>e. fst e \<noteq> n) es) =
    filter (\<lambda>e. fst e \<notin> fst ` set (drop k files) \<or> fails (fst e)) es"
    unfolding d by (auto intro!: filter_cong)
  finally show ?case .
qed

lemma snap_files_filter: "snap_files (filter (\<lambda>e. P (fst e)) es) = filter (\<lambda>f. P (fst f)) (snap_files es)"
  by (induction es rule: snap_files.induct) (auto split: option.splits)

lemma fst_snap_files: "fst ` set (snap_files es) \<subseteq> set (names es)"
proof
  fix n assume "n \<in> fst ` set (snap_files es)"
  then obtain q where "(n, q) \<in> set (snap_files es)" by force
  then show "n \<in> set (names es)" by (force simp: snap_files_iff)
qed

lemma distinct_snap_files: "distinct (names es) \<Longrightarrow> distinct (map fst (snap_files es))"
proof (induction es rule: snap_files.induct)
  case (2 name x es)
  then show ?case using fst_snap_files [of es] by (auto split: option.splits)
qed simp

definition removed_names :: "int \<Rightarrow> directory \<Rightarrow> string set" where
  "removed_names keepCount es = fst ` set (drop (nat keepCount) (sort_outer (snap_files es)))"

lemma Cleanup_eq:
  assumes "0 \<le> keepCount"
  shows "Cleanup False fails keepCount (Some es) =
    Done None (Some (filter (\<lambda>e. fst e \<notin> removed_names keepCount es \<or> fails (fst e)) es))"
proof (cases "int (length (snap_files es)) \<le> keepCount")
  case True
  have "length (sort_outer (snap_files es)) = length (snap_files es)"
    using sort_outer_props(1) by (rule mset_eq_length)
  then have "removed_names keepCount es = {}" using True by (simp add: removed_names_def)
  then show ?thesis using True by (simp add: Cleanup_def)
next
  case False
  then show ?thesis
    using assms remove_from_eq [of fails "nat keepCount" "sort_outer (snap_files es)" es]
    by (simp add: Cleanup_def removed_names_def)
qed

lemma distinct_take_filter:
  assumes "distinct (map fst xs)"
  shows "filter (\<lambda>f. fst f \<notin> fst ` set (drop k xs)) xs = take k xs"
proof -
  have "distinct (map fst (take k xs @ drop k xs))" using assms by simp
  then have "fst ` set (take k xs) \<inter> fst ` set (drop k xs) = {}" by (simp only: map_append distinct_append) auto
  then have "filter (\<lambda>f. fst f \<notin> fst ` set (drop k xs)) (take k xs @ drop k xs) = take k xs"
    by (subst filter_append) (auto simp: filter_empty_conv intro!: filter_True)
  then show ?thesis by simp
qed

lemma kept_snap_files:
  assumes "distinct (names es)"
  shows "mset (filter (\<lambda>f. fst f \<notin> removed_names k es) (snap_files es)) =
    mset (take (nat k) (sort_outer (snap_files es)))"
proof -
  let ?s = "sort_outer (snap_files es)"
  have "distinct (map fst ?s)"
    using distinct_snap_files [OF assms] sort_outer_props(1) [of "snap_files es"]
    by (metis mset_eq_imp_distinct_iff mset_map)
  then have "filter (\<lambda>f. fst f \<notin> removed_names k es) ?s = take (nat k) ?s"
    by (simp add: removed_names_def distinct_take_filter)
  moreover have "mset (filter (\<lambda>f. fst f \<notin> removed_names k es) (snap_files es)) =
      mset (filter (\<lambda>f. fst f \<notin> removed_names k es) ?s)"
    by (simp add: sort_outer_props(1))
  ultimately show ?thesis by simp
qed

lemma removed_older:
  assumes "distinct (names es)"
    and "f \<in> set (snap_files es)" "fst f \<in> removed_names k es"
    and "g \<in> set (snap_files es)" "fst g \<notin> removed_names k es"
  shows "snd f \<le> snd g"
proof -
  let ?s = "sort_outer (snap_files es)"
  have kept: "set (take (nat k) ?s) = {f \<in> set (snap_files es). fst f \<notin> removed_names k es}"
    using mset_eq_setD [OF kept_snap_files [OF assms(1), of k]] by simp
  have st: "set ?s = set (snap_files es)" using sort_outer_props(1) by (rule mset_eq_setD)
  have "g \<in> set (take (nat k) ?s)"
    using kept assms(4,5) by simp
  moreover have "f \<in> set (drop (nat k) ?s)"
  proof (rule ccontr)
    assume "f \<notin> set (drop (nat k) ?s)"
    then have "f \<in> set (take (nat k) ?s)" using assms(2) st by (metis Un_iff append_take_drop_id set_append)
    then show False
      using kept assms(3) by simp
  qed
  moreover have "sorted_wrt seq_ge (take (nat k) ?s @ drop (nat k) ?s)" using sort_outer_props(2) by simp
  ultimately show ?thesis by (simp only: sorted_wrt_append)
qed

section \<open>Properties\<close>

lemma read_snapshot_filter:
  "P name \<Longrightarrow> read_snapshot ff name (filter (\<lambda>e. P (fst e)) es) = read_snapshot ff name es"
proof -
  assume P: "P name"
  then have "map_of (filter (\<lambda>e. P (fst e)) es) name = map_of es name"
    by (induction es) auto
  then show ?thesis by (simp add: read_snapshot_def)
qed

lemma latest_file_unique:
  assumes "f \<in> set fs" "0 < snd f" "\<forall>g \<in> set fs. snd g \<le> snd f" "distinct (map snd fs)"
  shows "latest_file fs None 0 = Some (fst f)"
proof -
  obtain g where "g \<in> set fs" "latest_file fs None 0 = Some (fst g)" "\<forall>h \<in> set fs. snd h \<le> snd g"
    using latest_file_cases [of fs 0 None] assms(1,2) by fastforce
  moreover from this have "snd g = snd f" using assms(1,3) by (metis order.antisym)
  ultimately show ?thesis using assms(1,4) by (metis distinct_map inj_onD)
qed

text \<open>C24. A saved snapshot is the one loaded back: when its sequence number is positive and above that of
  every snapshot file in the directory, \<open>LoadLatest\<close> after \<open>Save\<close> returns it, with the same
  sequence number, timestamp and market states.\<close>

theorem snapshot_save_then_load:
  assumes "sorted_wrt (<) (names es)" "\<forall>(n, q) \<in> set (snap_files es). q < sn_Seq snap" "0 < sn_Seq snap"
    and "markets_well_encoded (sn_Markets snap)" "distinct (map fst (sn_Markets snap))"
    and "Save None snap (Some es) = (None, d)"
  shows "\<exists>r. LoadLatest False False d = Inr (Some r) \<and> sn_Seq r = sn_Seq snap \<and>
    sn_TsUnix r = sn_TsUnix snap \<and> map_of (sn_Markets r) = map_of (sn_Markets snap)"
proof -
  let ?n = "snapshot_filename snap"
  let ?p = "Json (Marshal_snapshot snap)"
  let ?es = "put_file ?n ?p es"
  have d: "d = Some ?es" using assms(6) by (auto simp: Save_def Let_def split: if_splits)
  have sf: "(n, q) \<in> set (snap_files ?es) \<longleftrightarrow> (n, q) = (?n, sn_Seq snap) \<or> (n, q) \<in> set (snap_files es) \<and> n \<noteq> ?n"
    for n q
    by (auto simp: snap_files_iff set_put_file [OF assms(1)] snapshot_name_scan_filename)
  from latest_file_cases [of "snap_files ?es" 0 None]
  obtain f where f: "f \<in> set (snap_files ?es)" "find_latest ?es None 0 = Some (fst f)"
      "\<forall>g \<in> set (snap_files ?es). snd g \<le> snd f"
    using sf [of ?n "sn_Seq snap"] assms(3) unfolding find_latest_files by fastforce
  have "sn_Seq snap \<le> snd f" using f(3) sf [of ?n "sn_Seq snap"] by fastforce
  then have "f \<notin> set (snap_files es)" using assms(2) by auto
  then have "f = (?n, sn_Seq snap)" using f(1) sf [of "fst f" "snd f"] by simp
  with f(2) have "find_latest ?es None 0 = Some ?n" by simp
  then show ?thesis
    using Unmarshal_snapshot [OF assms(4,5)]
    by (auto simp: d LoadLatest_def read_snapshot_def map_of_put_file [OF assms(1)] decode_payload_def)
qed

text \<open>C25. \<open>Cleanup\<close> keeps the newest snapshots: it leaves exactly the requested number of snapshot files,
  none of them older than one it removed, and touches no other entry of the directory.\<close>

theorem cleanup_keeps_newest:
  assumes "sorted_wrt (<) (names es)" "0 \<le> keepCount"
  shows "\<exists>es'. Cleanup False (\<lambda>_. False) keepCount (Some es) = Done None (Some es') \<and>
    length (snap_files es') = min (nat keepCount) (length (snap_files es)) \<and>
    set (snap_files es') \<subseteq> set (snap_files es) \<and>
    (\<forall>f \<in> set (snap_files es) - set (snap_files es'). \<forall>g \<in> set (snap_files es'). snd f \<le> snd g) \<and>
    filter (\<lambda>e. fst e \<notin> fst ` set (snap_files es)) es' = filter (\<lambda>e. fst e \<notin> fst ` set (snap_files es)) es"
proof -
  let ?R = "removed_names keepCount es"
  let ?es = "filter (\<lambda>e. fst e \<notin> ?R) es"
  have dis: "distinct (names es)" using assms(1) by (simp add: strict_sorted_iff)
  have sf: "snap_files ?es = filter (\<lambda>f. fst f \<notin> ?R) (snap_files es)" by (rule snap_files_filter)
  have len: "length (sort_outer (snap_files es)) = length (snap_files es)"
    using sort_outer_props(1) by (rule mset_eq_length)
  have "length (snap_files ?es) = min (nat keepCount) (length (snap_files es))"
    using mset_eq_length [OF kept_snap_files [OF dis, of keepCount]] len by (simp add: sf min.commute)
  moreover have "\<forall>f \<in> set (snap_files es) - set (snap_files ?es). \<forall>g \<in> set (snap_files ?es). snd f \<le> snd g"
    using removed_older [OF dis] by (auto simp: sf)
  moreover have "?R \<subseteq> fst ` set (snap_files es)"
    using mset_eq_setD [OF sort_outer_props(1), of "snap_files es"] set_drop_subset
    by (fastforce simp: removed_names_def)
  then have "filter (\<lambda>e. fst e \<notin> fst ` set (snap_files es)) ?es = filter (\<lambda>e. fst e \<notin> fst ` set (snap_files es)) es"
    by (auto intro!: filter_cong)
  ultimately show ?thesis
    using Cleanup_eq [OF assms(2), of "\<lambda>_. False" es] by (intro exI [of _ ?es]) (auto simp: sf)
qed

text \<open>Cleaning up never changes what is recovered: with at least one snapshot kept and distinct
  sequence numbers, \<open>LoadLatest\<close> answers the same before and after \<open>Cleanup\<close>, whatever removals
  fail.\<close>

lemma cleanup_preserves_latest:
  assumes "sorted_wrt (<) (names es)" "1 \<le> keepCount" "distinct (map snd (snap_files es))"
  shows "\<exists>es'. Cleanup False fails keepCount (Some es) = Done None (Some es') \<and>
    LoadLatest False ff (Some es') = LoadLatest False ff (Some es)"
proof -
  let ?R = "removed_names keepCount es"
  let ?P = "\<lambda>n. n \<notin> ?R \<or> fails n"
  define rest where "rest = filter (\<lambda>e. ?P (fst e)) es"
  have dis: "distinct (names es)" using assms(1) by (simp add: strict_sorted_iff)
  have sf: "snap_files rest = filter (\<lambda>f. ?P (fst f)) (snap_files es)"
    unfolding rest_def by (rule snap_files_filter)
  have "LoadLatest False ff (Some rest) = LoadLatest False ff (Some es)"
  proof (cases "\<forall>f \<in> set (snap_files es). snd f \<le> 0")
    case True
    then have "\<forall>f \<in> set (snap_files rest). snd f \<le> 0" unfolding sf by simp
    with True have "find_latest es None 0 = None" "find_latest rest None 0 = None"
      using latest_file_cases [of "snap_files es" 0 None] latest_file_cases [of "snap_files rest" 0 None]
      by (auto simp: find_latest_files)
    then show ?thesis by (simp add: LoadLatest_def)
  next
    case False
    then obtain f where f: "f \<in> set (snap_files es)" "0 < snd f" "\<forall>g \<in> set (snap_files es). snd g \<le> snd f"
      using latest_file_cases [of "snap_files es" 0 None] by (auto simp: not_le)
    have keep: "fst f \<notin> ?R"
    proof
      assume R: "fst f \<in> ?R"
      have "length (filter (\<lambda>f. fst f \<notin> ?R) (snap_files es)) = length (take (nat keepCount) (sort_outer (snap_files es)))"
        by (rule mset_eq_length) (rule kept_snap_files [OF dis])
      moreover have "sort_outer (snap_files es) \<noteq> []"
        using f(1) sort_outer_props(1) [of "snap_files es"] by auto
      ultimately have "filter (\<lambda>f. fst f \<notin> ?R) (snap_files es) \<noteq> []"
        using assms(2) by (auto simp: min_def split: if_splits)
      then obtain g where g: "g \<in> set (snap_files es)" "fst g \<notin> ?R" by (auto simp: filter_empty_conv)
      then have "snd f = snd g" using removed_older [OF dis f(1) R g] f(3) by force
      then show False using assms(3) f(1) g R by (metis distinct_map inj_onD)
    qed
    have "find_latest es None 0 = Some (fst f)"
      unfolding find_latest_files by (rule latest_file_unique [OF f assms(3)])
    moreover have "distinct (map snd (snap_files rest))" using assms(3) by (simp add: sf distinct_map_filter)
    then have "find_latest rest None 0 = Some (fst f)"
      unfolding find_latest_files by (intro latest_file_unique) (use f keep in \<open>auto simp: sf\<close>)
    ultimately show ?thesis
      using read_snapshot_filter [of ?P "fst f" ff es, folded rest_def] keep by (simp add: LoadLatest_def)
  qed
  then show ?thesis using Cleanup_eq [of keepCount fails es] assms(2) by (intro exI [of _ rest]) (simp add: rest_def)
qed

definition two_snapshots :: directory where
  "two_snapshots = [(''notes.txt'', File Malformed), (''snapshot_1_0.json'', File Malformed), (''snapshot_2_0.json'', File Malformed)]"

lemma two_snapshots_facts:
  "sorted_wrt (<) (names two_snapshots)"
  "snap_files two_snapshots = [(''snapshot_1_0.json'', 1), (''snapshot_2_0.json'', 2)]"
proof -
  show "sorted_wrt (<) (names two_snapshots)"
    by (simp add: two_snapshots_def less_char_def)
  have n: "''snapshot_1_0.json'' = snapshot_filename \<lparr>sn_Seq = 1, sn_TsUnix = 0, sn_Markets = []\<rparr>"
    "''snapshot_2_0.json'' = snapshot_filename \<lparr>sn_Seq = 2, sn_TsUnix = 0, sn_Markets = []\<rparr>"
    by (simp_all add: snapshot_filename_def fmt_d_def dec.simps digit_char_def char_of_def bit_0)
  have "snapshot_name_scan ''snapshot_1_0.json'' = Some (1, 0)" "snapshot_name_scan ''snapshot_2_0.json'' = Some (2, 0)"
    unfolding n snapshot_name_scan_filename by simp_all
  moreover have "snapshot_name_scan ''notes.txt'' = None"
    by (simp add: snapshot_name_scan_def scan_literal_def)
  ultimately show "snap_files two_snapshots = [(''snapshot_1_0.json'', 1), (''snapshot_2_0.json'', 2)]"
    by (simp add: two_snapshots_def)
qed

definition example_snapshot :: snapshot where
  "example_snapshot = CreateSnapshot 1700000000 7
     [(''BTC'', \<lparr>ms_PriceMicros = 5, ms_TotalQtySats = 6, ms_LastUpdateUnixM = 7, ms_Symbol = ''BTC''\<rparr>)]"

theorem snapshot_save_then_load_witness:
  "\<exists>r. LoadLatest False False (snd (Save None example_snapshot (Some two_snapshots))) = Inr (Some r) \<and> sn_Seq r = 7 \<and>
    map_option (map_option ms_PriceMicros) (map_of (sn_Markets r) ''BTC'') = Some (Some 5)"
proof -
  have "snapshot_filename example_snapshot \<noteq> n" if "n \<in> set (names two_snapshots)" for n
  proof
    assume "snapshot_filename example_snapshot = n"
    then have "snapshot_name_scan n = Some (7, 1700000000)"
      using snapshot_name_scan_filename [of example_snapshot] by (simp add: example_snapshot_def CreateSnapshot_def)
    then have "(n, 7) \<in> set (snap_files two_snapshots)"
      using that by (subst snap_files_iff) (auto simp: two_snapshots_def)
    then show False by (simp add: two_snapshots_facts)
  qed
  then have "Save None example_snapshot (Some two_snapshots) =
      (None, snd (Save None example_snapshot (Some two_snapshots)))"
    by (simp add: Save_def Let_def two_snapshots_def)
  from snapshot_save_then_load [OF two_snapshots_facts(1) _ _ _ _ this]
  show ?thesis
    by (auto simp: two_snapshots_facts example_snapshot_def CreateSnapshot_def markets_well_encoded_def byte_in_def)
qed

theorem cleanup_keeps_newest_witness:
  "\<exists>es'. Cleanup False (\<lambda>_. False) 1 (Some two_snapshots) = Done None (Some es') \<and>
    snap_files es' = [(''snapshot_2_0.json'', 2)]"
proof -
  obtain es' where es: "Cleanup False (\<lambda>_. False) 1 (Some two_snapshots) = Done None (Some es')"
    "length (snap_files es') = 1" "set (snap_files es') \<subseteq> set (snap_files two_snapshots)"
    "\<forall>f \<in> set (snap_files two_snapshots) - set (snap_files es'). \<forall>g \<in> set (snap_files es'). snd f \<le> snd g"
    using cleanup_keeps_newest [OF two_snapshots_facts(1), of 1] by (auto simp: two_snapshots_facts)
  then obtain f where "snap_files es' = [f]" by (cases "snap_files es'") auto
  then show ?thesis using es by (auto simp: two_snapshots_facts word_le_def)
qed

lemma cleanup_preserves_latest_witness:
  "\<exists>es'. Cleanup False (\<lambda>_. True) 1 (Some two_snapshots) = Done None (Some es') \<and>
    LoadLatest False False (Some es') = Inl FailedToUnmarshalSnapshot"
proof -
  have "LoadLatest False False (Some two_snapshots) = Inl FailedToUnmarshalSnapshot"
    by (simp add: LoadLatest_def find_latest_files two_snapshots_facts)
      (simp add: read_snapshot_def two_snapshots_def decode_payload_def)
  then show ?thesis
    using cleanup_preserves_latest [OF two_snapshots_facts(1), of 1 "\<lambda>_. True" False]
    by (simp add: two_snapshots_facts)
qed

text \<open>A negative count passes the length check and indexes the list of files before its first
  element.\<close>

lemma cleanup_negative_panics:
  "keepCount < 0 \<Longrightarrow> Cleanup False fails keepCount (Some es) = Panicked INDEX_OUT_OF_RANGE (Some es)"
  by (simp add: Cleanup_def Let_def) (subst remove_from.simps, simp add: index_get_def)

text \<open>A snapshot taken before the first event, with sequence number 0, is saved but never loaded.\<close>

lemma snapshot_zero_never_loaded:
  "\<forall>(n, q) \<in> set (snap_files es). q = 0 \<Longrightarrow> LoadLatest False ff (Some es) = Inr None"
  using latest_file_cases [of "snap_files es" 0 None] by (auto simp: LoadLatest_def find_latest_files)

end
