(* ===== verification/Assets.thy ===== *)
theory Assets
  imports Workspace Snapshot "HOL-Library.Countable"
begin

text \<open>
  The icon cache (\<open>internal/infra/icon_downloader.go\<close>) and the asset synchronisation of the start-up
  (\<open>internal/app/bootstrap.go\<close>, \<open>SyncAssets\<close>, with \<open>internal/domain/coin_info.go\<close>), and the settings record of \<open>app_config.go\<close>. The HTTP client,
  the image library and the bytes of JSON are arguments; the file system is the list of the
  icon files. The goroutines of \<open>SyncAssets\<close> are threads of a step relation: each step is one
  access to the semaphore or the event store, or one call of \<open>DownloadIcon\<close>, which is taken as
  a whole although it looks for the file, downloads and saves one after the other.
\<close>

section \<open>Icons\<close>

definition is_alnum :: "char \<Rightarrow> bool" where
  "is_alnum c \<longleftrightarrow> byte_in 97 122 c \<or> byte_in 65 90 c \<or> byte_in 48 57 c"

definition sanitizeSymbol :: "string \<Rightarrow> string" where
  "sanitizeSymbol symbol = filter is_alnum symbol"

definition ToUpper :: "string \<Rightarrow> string" where
  "ToUpper s = map (\<lambda>c. if byte_in 97 122 c then char_of (of_char c - 32 :: nat) else c) s"

text \<open>What a download meets: whether the URL makes a request, the status of the answer and whether its
  body is an image, and for a path whether saving succeeds and whether a file is there
  afterwards.\<close>

record icon_env =
  ie_url_ok :: "string \<Rightarrow> bool"
  ie_http :: "string \<Rightarrow> (int \<times> bool) option"
  ie_save :: "string \<Rightarrow> bool \<times> bool"

datatype icon_error =
    InvalidSymbol string
  | IconBadRequest
  | IconTransport
  | BadStatus int
  | IconDecodeFailed
  | IconSaveFailed

definition getAssetsPath :: "string \<Rightarrow> (string \<Rightarrow> bool) \<Rightarrow> (string \<Rightarrow> string) \<Rightarrow> string" where
  "getAssetsPath goos exists getenv = Join [GetWorkspaceDir goos exists getenv, ''data'', ''icons'']"

definition DownloadIcon ::
  "icon_env \<Rightarrow> string \<Rightarrow> string \<Rightarrow> string list \<Rightarrow> (icon_error + string) \<times> string list" where
  "DownloadIcon E basePath symbol fs =
     (let safeSymbol = sanitizeSymbol symbol in
      if safeSymbol = [] then (Inl (InvalidSymbol symbol), fs)
      else
        let filePath = Join [basePath, ToLower safeSymbol @ ''.png''] in
        if filePath \<in> set fs then (Inr filePath, fs)
        else
          let url = ''https://static.upbit.com/logos/'' @ ToUpper symbol @ ''.png'' in
          if \<not> ie_url_ok E url then (Inl IconBadRequest, fs)
          else
            (case ie_http E url of
               None \<Rightarrow> (Inl IconTransport, fs)
             | Some (status, decodable) \<Rightarrow>
                 if status \<noteq> 200 then (Inl (BadStatus status), fs)
                 else if \<not> decodable then (Inl IconDecodeFailed, fs)
                 else
                   (case ie_save E filePath of (ok, there) \<Rightarrow>
                      (if ok then Inr filePath else Inl IconSaveFailed,
                       if there then filePath # fs else fs))))"

definition GetIconPath :: "string \<Rightarrow> string \<Rightarrow> string" where
  "GetIconPath basePath symbol = Join [basePath, ToLower symbol @ ''.png'']"

section \<open>Coin metadata\<close>

record coin_info =
  ci_LastSyncedUnixM :: i64
  ci_CreatedAtUnixM :: i64
  ci_UpdatedAtUnixM :: i64
  ci_Symbol :: string
  ci_Name :: string
  ci_IconPath :: string
  ci_IsActive :: bool
  ci_IsFavorite :: bool

definition zero_coin :: coin_info where
  "zero_coin =
     \<lparr>ci_LastSyncedUnixM = 0, ci_CreatedAtUnixM = 0, ci_UpdatedAtUnixM = 0, ci_Symbol = [], ci_Name = [],
      ci_IconPath = [], ci_IsActive = False, ci_IsFavorite = False\<rparr>"

definition set_bool :: "(bool \<Rightarrow> 'r \<Rightarrow> 'r) \<Rightarrow> json \<Rightarrow> 'r \<Rightarrow> 'r option" where
  "set_bool upd v r = (case v of JNull \<Rightarrow> Some r | JBool b \<Rightarrow> Some (upd b r) | _ \<Rightarrow> None)"

definition Marshal_coin :: "coin_info \<Rightarrow> json" where
  "Marshal_coin c =
     JObj [(''last_synced_unix'', json_quoted_int64 (ci_LastSyncedUnixM c)),
           (''created_at_unix'', json_quoted_int64 (ci_CreatedAtUnixM c)),
           (''updated_at_unix'', json_quoted_int64 (ci_UpdatedAtUnixM c)),
           (''symbol'', json_string (ci_Symbol c)), (''name'', json_string (ci_Name c)),
           (''icon_path'', json_string (ci_IconPath c)),
           (''is_active'', JBool (ci_IsActive c)), (''is_favorite'', JBool (ci_IsFavorite c))]"

definition coin_fields :: "coin_info field list" where
  "coin_fields =
     [(''last_synced_unix'', set_quoted_int64 (\<lambda>x. ci_LastSyncedUnixM_update (\<lambda>_. x))),
      (''created_at_unix'', set_quoted_int64 (\<lambda>x. ci_CreatedAtUnixM_update (\<lambda>_. x))),
      (''updated_at_unix'', set_quoted_int64 (\<lambda>x. ci_UpdatedAtUnixM_update (\<lambda>_. x))),
      (''symbol'', set_string (\<lambda>x. ci_Symbol_update (\<lambda>_. x))),
      (''name'', set_string (\<lambda>x. ci_Name_update (\<lambda>_. x))),
      (''icon_path'', set_string (\<lambda>x. ci_IconPath_update (\<lambda>_. x))),
      (''is_active'', set_bool (\<lambda>x. ci_IsActive_update (\<lambda>_. x))),
      (''is_favorite'', set_bool (\<lambda>x. ci_IsFavorite_update (\<lambda>_. x)))]"

text \<open>The user's settings (\<open>internal/domain/app_config.go\<close>): a record with the JSON form its tags
  give it, which no other code uses yet.\<close>

record app_config =
  ac_Key :: string
  ac_Value :: string
  ac_UpdatedAtUnixM :: i64

definition zero_app_config :: app_config where
  "zero_app_config = \<lparr>ac_Key = [], ac_Value = [], ac_UpdatedAtUnixM = 0\<rparr>"

definition Marshal_app_config :: "app_config \<Rightarrow> json" where
  "Marshal_app_config c =
     JObj [(''key'', json_string (ac_Key c)), (''value'', json_string (ac_Value c)),
           (''updated_at_unix'', json_quoted_int64 (ac_UpdatedAtUnixM c))]"

definition app_config_fields :: "app_config field list" where
  "app_config_fields =
     [(''key'', set_string (\<lambda>x. ac_Key_update (\<lambda>_. x))), (''value'', set_string (\<lambda>x. ac_Value_update (\<lambda>_. x))),
      (''updated_at_unix'', set_quoted_int64 (\<lambda>x. ac_UpdatedAtUnixM_update (\<lambda>_. x)))]"

section \<open>One goroutine\<close>

text \<open>\<open>se_text\<close> and \<open>se_parse\<close> are \<open>json.Marshal\<close> and the parser of \<open>json.Unmarshal\<close> between JSON
  values and their text.\<close>

record sync_env =
  se_text :: "json \<Rightarrow> string"
  se_parse :: "string \<rightharpoonup> json"
  se_icon :: icon_env
  se_basePath :: string

definition coin_key :: "string \<Rightarrow> string" where
  "coin_key symb = ''coin:'' @ symb"

definition new_coin :: "string \<Rightarrow> i64 \<Rightarrow> coin_info" where
  "new_coin symb nowUnixM = zero_coin\<lparr>ci_Symbol := symb, ci_Name := symb, ci_IsActive := True, ci_UpdatedAtUnixM := nowUnixM\<rparr>"

text \<open>What the goroutine takes over from the stored metadata.\<close>

definition load_coin :: "sync_env \<Rightarrow> string \<Rightarrow> i64 \<Rightarrow> bool \<Rightarrow> event_store \<Rightarrow> coin_info" where
  "load_coin E symb nowUnixM fault st =
     (let coin = new_coin symb nowUnixM;
          val = (case GetMetadata fault (coin_key symb) st of Inl _ \<Rightarrow> [] | Inr v \<Rightarrow> v)
      in if val = [] then coin
         else
           (case se_parse E val of
              None \<Rightarrow> coin
            | Some v \<Rightarrow>
                (case Unmarshal coin_fields v zero_coin of
                   None \<Rightarrow> coin
                 | Some existing \<Rightarrow>
                     coin\<lparr>ci_IsFavorite := ci_IsFavorite existing, ci_IconPath := ci_IconPath existing,
                          ci_LastSyncedUnixM := ci_LastSyncedUnixM existing\<rparr>)))"

definition fetch_icon :: "sync_env \<Rightarrow> coin_info \<Rightarrow> string list \<Rightarrow> coin_info \<times> string list" where
  "fetch_icon E coin fs =
     (case DownloadIcon (se_icon E) (se_basePath E) (ci_Symbol coin) fs of
        (Inr path, fs) \<Rightarrow>
          (if path \<noteq> [] then coin\<lparr>ci_IconPath := path, ci_LastSyncedUnixM := ci_UpdatedAtUnixM coin\<rparr> else coin, fs)
      | (Inl _, fs) \<Rightarrow> (coin, fs))"

definition save_coin :: "sync_env \<Rightarrow> coin_info \<Rightarrow> bool \<Rightarrow> event_store \<Rightarrow> event_store" where
  "save_coin E coin fault st =
     snd (UpsertMetadata fault (coin_key (ci_Symbol coin)) (se_text E (Marshal_coin coin)) (ci_UpdatedAtUnixM coin) st)"

section \<open>The goroutines\<close>

datatype sync_phase = Waiting | Started | Loaded coin_info | Fetched coin_info | Skipped | Finished

record sync_state =
  ss_store :: event_store
  ss_icons :: "string list"
  ss_phase :: "string \<Rightarrow> sync_phase"

definition running :: "sync_phase \<Rightarrow> bool" where
  "running p \<longleftrightarrow> (case p of Started \<Rightarrow> True | Loaded _ \<Rightarrow> True | Fetched _ \<Rightarrow> True | _ \<Rightarrow> False)"

definition unique_symbols :: "string list \<Rightarrow> string list \<Rightarrow> string list" where
  "unique_symbols upbit bitget = remdups (upbit @ bitget)"

definition sync_init :: "event_store \<Rightarrow> string list \<Rightarrow> sync_state" where
  "sync_init st fs = \<lparr>ss_store = st, ss_icons = fs, ss_phase = (\<lambda>_. Waiting)\<rparr>"

text \<open>A step of the goroutine of a symbol: the semaphore has five places; a cancelled context ends a
  goroutine that still waits; a fault of the database is ignored by the code.\<close>

inductive sync_step :: "sync_env \<Rightarrow> bool \<Rightarrow> string list \<Rightarrow> sync_state \<Rightarrow> sync_state \<Rightarrow> bool"
  for E faults syms where
  acquire: "symb \<in> set syms \<Longrightarrow> ss_phase s symb = Waiting \<Longrightarrow>
    length (filter (\<lambda>x. running (ss_phase s x)) syms) < 5 \<Longrightarrow>
    sync_step E faults syms s (s\<lparr>ss_phase := (ss_phase s)(symb := Started)\<rparr>)"
| cancel: "symb \<in> set syms \<Longrightarrow> ss_phase s symb = Waiting \<Longrightarrow>
    sync_step E faults syms s (s\<lparr>ss_phase := (ss_phase s)(symb := Skipped)\<rparr>)"
| load: "symb \<in> set syms \<Longrightarrow> ss_phase s symb = Started \<Longrightarrow> (fault \<longrightarrow> faults) \<Longrightarrow>
    sync_step E faults syms s
      (s\<lparr>ss_phase := (ss_phase s)(symb := Loaded (load_coin E symb nowUnixM fault (ss_store s)))\<rparr>)"
| fetch: "symb \<in> set syms \<Longrightarrow> ss_phase s symb = Loaded coin \<Longrightarrow> fetch_icon E coin (ss_icons s) = (coin', fs) \<Longrightarrow>
    sync_step E faults syms s (s\<lparr>ss_icons := fs, ss_phase := (ss_phase s)(symb := Fetched coin')\<rparr>)"
| save: "symb \<in> set syms \<Longrightarrow> ss_phase s symb = Fetched coin \<Longrightarrow> (fault \<longrightarrow> faults) \<Longrightarrow>
    sync_step E faults syms s
      (s\<lparr>ss_store := save_coin E coin fault (ss_store s), ss_phase := (ss_phase s)(symb := Finished)\<rparr>)"

inductive sync_reachable :: "sync_env \<Rightarrow> bool \<Rightarrow> string list \<Rightarrow> event_store \<Rightarrow> string list \<Rightarrow> sync_state \<Rightarrow> bool"
  for E faults syms st fs where
  start: "sync_reachable E faults syms st fs (sync_init st fs)"
| step: "sync_reachable E faults syms st fs s \<Longrightarrow> sync_step E faults syms s t \<Longrightarrow> sync_reachable E faults syms st fs t"

section \<open>Icon files\<close>

lemma alnum_lower: "is_alnum c \<Longrightarrow> byte_in 97 122 (ascii_lower c) \<or> byte_in 48 57 (ascii_lower c)"
  by (auto simp: is_alnum_def byte_in_def ascii_lower_def Let_def of_char_of)

definition icon_name :: "string \<Rightarrow> bool" where
  "icon_name n \<longleftrightarrow> (\<exists>m. m \<noteq> [] \<and> (\<forall>c \<in> set m. byte_in 97 122 c \<or> byte_in 48 57 c) \<and> n = m @ ''.png'')"

lemma icon_name_sanitized:
  assumes "sanitizeSymbol symbol \<noteq> []"
  shows "icon_name (ToLower (sanitizeSymbol symbol) @ ''.png'')"
proof -
  have "\<forall>c \<in> set (ToLower (sanitizeSymbol symbol)). byte_in 97 122 c \<or> byte_in 48 57 c"
    using alnum_lower by (auto simp: ToLower_def sanitizeSymbol_def)
  then show ?thesis using assms by (auto simp: icon_name_def ToLower_def)
qed

lemma icon_name_plain: "icon_name n \<Longrightarrow> plain n"
  by (auto simp: icon_name_def plain_def byte_in_def append_eq_Cons_conv dest!: bspec [of _ _ "CHR ''/''"])

text \<open>Downloading an icon cannot leave the icon directory: for every symbol, also one from a hostile
  feed, the only file that a download can create and the only path it can return is a direct
  child of the directory, named by lower-case letters and digits followed by \<open>.png\<close>.\<close>

lemma icons_stay_in_directory:
  assumes "DownloadIcon E base symbol fs = (r, fs')" "base \<noteq> []"
  shows "\<forall>f. f \<in> set fs' \<and> f \<notin> set fs \<or> r = Inr f \<longrightarrow>
    (\<exists>n. icon_name n \<and>
       f = (if Clean base = ''.'' then n else if Clean base = ''/'' then ''/'' @ n else Clean base @ ''/'' @ n))"
proof (cases "sanitizeSymbol symbol = []")
  case True
  then show ?thesis using assms(1) by (auto simp: DownloadIcon_def Let_def)
next
  case False
  let ?n = "ToLower (sanitizeSymbol symbol) @ ''.png''"
  have n: "icon_name ?n" by (rule icon_name_sanitized [OF False])
  have "Join [base, ?n] = Clean (base @ CHR ''/'' # ?n)" using assms(2) by (simp add: Join_def)
  also have "\<dots> = (if Clean base = ''.'' then ?n else if Clean base = ''/'' then ''/'' @ ?n else Clean base @ ''/'' @ ?n)"
    by (rule Clean_plain [OF icon_name_plain [OF n] assms(2)])
  finally have j: "Join [base, ?n] = \<dots>" .
  have "\<forall>f. f \<in> set fs' \<and> f \<notin> set fs \<or> r = Inr f \<longrightarrow> f = Join [base, ?n]"
    using assms(1) False
    by (auto simp: DownloadIcon_def Let_def split: if_splits option.splits prod.splits)
  with n j show ?thesis by metis
qed

lemma icons_stay_in_directory_witness:
  "\<exists>n. icon_name n \<and> DownloadIcon \<lparr>ie_url_ok = (\<lambda>_. True), ie_http = (\<lambda>_. Some (200, True)), ie_save = (\<lambda>_. (True, True))\<rparr>
     ''/data/icons'' ''../../BTC'' [] = (Inr (''/data/icons/'' @ n), [''/data/icons/'' @ n])"
proof -
  let ?E = "\<lparr>ie_url_ok = (\<lambda>_. True), ie_http = (\<lambda>_. Some (200, True)), ie_save = (\<lambda>_. (True, True))\<rparr>"
  have s: "sanitizeSymbol ''../../BTC'' \<noteq> []" by (simp add: sanitizeSymbol_def is_alnum_def byte_in_def)
  then obtain f where f: "DownloadIcon ?E ''/data/icons'' ''../../BTC'' [] = (Inr f, [f])"
    by (simp add: DownloadIcon_def Let_def)
  have c: "Clean ''/data/icons'' = ''/data/icons''"
    by (simp add: Clean_def path_elems_def clean_step_def)
  show ?thesis using icons_stay_in_directory [OF f] f by (auto simp: c)
qed

text \<open>The lookup does not sanitize the symbol: its path can lie anywhere.\<close>

lemma icon_lookup_escapes: "GetIconPath ''/data/icons'' ''../../etc/x'' = ''/etc/x.png''"
  by (simp add: GetIconPath_def Join_def Clean_def path_elems_def clean_step_def ToLower_def ascii_lower_def Let_def)


section \<open>Synchronisation\<close>

lemma Unmarshal_coin:
  "Unmarshal coin_fields (Marshal_coin c) zero_coin =
     Some (c\<lparr>ci_Symbol := coerce_utf8 (ci_Symbol c), ci_Name := coerce_utf8 (ci_Name c), ci_IconPath := coerce_utf8 (ci_IconPath c)\<rparr>)"
  by (simp add: Unmarshal_def coin_fields_def zero_coin_def Marshal_coin_def find_field_def set_bool_def)

lemma Unmarshal_app_config:
  "well_encoded (ac_Key c) \<Longrightarrow> well_encoded (ac_Value c) \<Longrightarrow>
   Unmarshal app_config_fields (Marshal_app_config c) zero_app_config = Some c"
  by (simp add: Unmarshal_def app_config_fields_def zero_app_config_def Marshal_app_config_def find_field_def)

text \<open>The favourite flag the store holds for a symbol, as a goroutine reads it.\<close>

definition stored_favorite :: "sync_env \<Rightarrow> string \<Rightarrow> event_store \<Rightarrow> bool" where
  "stored_favorite E symb st = ci_IsFavorite (load_coin E symb 0 False st)"

lemma load_coin_simps:
  "ci_Symbol (load_coin E symb t f st) = symb" "ci_IsActive (load_coin E symb t f st)"
  "ci_IsFavorite (load_coin E symb t False st) = stored_favorite E symb st"
  by (auto simp: stored_favorite_def load_coin_def new_coin_def Let_def split: option.splits sum.splits)

lemma load_coin_metadata:
  "es_metadata st (coin_key symb) = es_metadata st' (coin_key symb) \<Longrightarrow> stored_favorite E symb st = stored_favorite E symb st'"
  by (simp add: stored_favorite_def load_coin_def GetMetadata_def)

lemma fetch_icon_keeps:
  "fetch_icon E c fs = (c', fs') \<Longrightarrow> ci_Symbol c' = ci_Symbol c \<and> ci_IsActive c' = ci_IsActive c \<and> ci_IsFavorite c' = ci_IsFavorite c"
  by (auto simp: fetch_icon_def split: prod.splits sum.splits if_splits)

lemma coin_key_inject [simp]: "coin_key a = coin_key b \<longleftrightarrow> a = b"
  by (simp add: coin_key_def)

definition coin_saved :: "sync_env \<Rightarrow> string \<Rightarrow> bool \<Rightarrow> event_store \<Rightarrow> bool" where
  "coin_saved E symb fav st \<longleftrightarrow>
     (\<exists>c t. es_metadata st (coin_key symb) = Some (se_text E (Marshal_coin c), t) \<and>
        ci_Symbol c = symb \<and> ci_IsActive c \<and> ci_IsFavorite c = fav)"

lemma coin_saved_favorite:
  assumes "\<And>v. se_parse E (se_text E v) = Some v" "se_parse E [] = None" "coin_saved E symb fav st"
  shows "stored_favorite E symb st = fav"
proof -
  obtain c t where c: "es_metadata st (coin_key symb) = Some (se_text E (Marshal_coin c), t)" "ci_IsFavorite c = fav"
    using assms(3) by (auto simp: coin_saved_def)
  have "se_text E (Marshal_coin c) \<noteq> []" using assms(1) [of "Marshal_coin c"] assms(2) by auto
  then show ?thesis
    using c by (simp add: stored_favorite_def load_coin_def GetMetadata_def assms(1) Unmarshal_coin Let_def)
qed

definition phase_inv :: "sync_env \<Rightarrow> event_store \<Rightarrow> sync_state \<Rightarrow> string \<Rightarrow> bool" where
  "phase_inv E st s symb \<longleftrightarrow>
     (case ss_phase s symb of
        Finished \<Rightarrow> coin_saved E symb (stored_favorite E symb st) (ss_store s)
      | p \<Rightarrow> es_metadata (ss_store s) (coin_key symb) = es_metadata st (coin_key symb) \<and>
          (\<forall>c. p = Loaded c \<or> p = Fetched c \<longrightarrow>
             ci_Symbol c = symb \<and> ci_IsActive c \<and> ci_IsFavorite c = stored_favorite E symb st))"

definition sync_inv :: "sync_env \<Rightarrow> string list \<Rightarrow> event_store \<Rightarrow> sync_state \<Rightarrow> bool" where
  "sync_inv E syms st s \<longleftrightarrow>
     (\<forall>symb. phase_inv E st s symb) \<and> es_events (ss_store s) = es_events st \<and>
     (\<forall>k. k \<notin> coin_key ` set syms \<longrightarrow> es_metadata (ss_store s) k = es_metadata st k)"

lemma phase_inv_other:
  assumes "sync_inv E syms st s" "ss_phase t x = ss_phase s x"
    and "es_metadata (ss_store t) (coin_key x) = es_metadata (ss_store s) (coin_key x)"
  shows "phase_inv E st t x"
proof -
  have "phase_inv E st s x" using assms(1) by (simp add: sync_inv_def)
  then show ?thesis using assms(2,3) by (cases "ss_phase s x") (simp_all add: phase_inv_def coin_saved_def)
qed

lemma sync_step_inv:
  assumes "sync_step E False syms s t" "sync_inv E syms st s"
  shows "sync_inv E syms st t"
  using assms
proof (induction rule: sync_step.induct)
  case (acquire symb s)
  let ?t = "s\<lparr>ss_phase := (ss_phase s)(symb := Started)\<rparr>"
  have "phase_inv E st s symb" using acquire.prems by (simp add: sync_inv_def)
  then have "phase_inv E st ?t symb" using acquire.hyps(2) by (simp add: phase_inv_def)
  moreover have "phase_inv E st ?t x" if "x \<noteq> symb" for x
    using that by (intro phase_inv_other [OF acquire.prems]) simp_all
  ultimately have "phase_inv E st ?t x" for x by (cases "x = symb") simp_all
  with acquire.prems show ?case by (simp add: sync_inv_def)
next
  case (cancel symb s)
  let ?t = "s\<lparr>ss_phase := (ss_phase s)(symb := Skipped)\<rparr>"
  have "phase_inv E st s symb" using cancel.prems by (simp add: sync_inv_def)
  then have "phase_inv E st ?t symb" using cancel.hyps(2) by (simp add: phase_inv_def)
  moreover have "phase_inv E st ?t x" if "x \<noteq> symb" for x
    using that by (intro phase_inv_other [OF cancel.prems]) simp_all
  ultimately have "phase_inv E st ?t x" for x by (cases "x = symb") simp_all
  with cancel.prems show ?case by (simp add: sync_inv_def)
next
  case (load symb s fault now)
  let ?t = "s\<lparr>ss_phase := (ss_phase s)(symb := Loaded (load_coin E symb now fault (ss_store s)))\<rparr>"
  have m: "es_metadata (ss_store s) (coin_key symb) = es_metadata st (coin_key symb)"
    using load by (auto simp: sync_inv_def phase_inv_def dest!: spec [of _ symb])
  have "phase_inv E st ?t x" for x
  proof (cases "x = symb")
    case True
    then show ?thesis using m load(3) load_coin_metadata [OF m] by (simp add: phase_inv_def load_coin_simps)
  next
    case False
    then show ?thesis by (intro phase_inv_other [OF load(4)]) simp_all
  qed
  with load show ?case by (simp add: sync_inv_def)
next
  case (fetch symb s coin coin' fs)
  let ?t = "s\<lparr>ss_icons := fs, ss_phase := (ss_phase s)(symb := Fetched coin')\<rparr>"
  have "phase_inv E st s symb" using fetch(4) by (simp add: sync_inv_def)
  then have "phase_inv E st ?t symb" using fetch(2) fetch_icon_keeps [OF fetch(3)] by (simp add: phase_inv_def)
  moreover have "phase_inv E st ?t x" if "x \<noteq> symb" for x
    using that by (intro phase_inv_other [OF fetch(4)]) simp_all
  ultimately have "phase_inv E st ?t x" for x by (cases "x = symb") auto
  with fetch show ?case by (simp add: sync_inv_def)
next
  case (save symb s coin fault)
  let ?st = "save_coin E coin fault (ss_store s)"
  let ?t = "s\<lparr>ss_store := ?st, ss_phase := (ss_phase s)(symb := Finished)\<rparr>"
  have "phase_inv E st s symb" using save(4) by (simp add: sync_inv_def)
  then have c: "ci_Symbol coin = symb" "ci_IsActive coin" "ci_IsFavorite coin = stored_favorite E symb st"
    using save(2) by (simp_all add: phase_inv_def)
  have m: "es_metadata ?st = (es_metadata (ss_store s))(coin_key symb \<mapsto>
      (se_text E (Marshal_coin coin), ci_UpdatedAtUnixM coin))" "es_events ?st = es_events (ss_store s)"
    using save(3) c(1) by (simp_all add: save_coin_def UpsertMetadata_def)
  have "phase_inv E st ?t symb" using c by (auto simp: phase_inv_def coin_saved_def m)
  moreover have "phase_inv E st ?t x" if "x \<noteq> symb" for x
    using that by (intro phase_inv_other [OF save(4)]) (simp_all add: m)
  ultimately have "phase_inv E st ?t x" for x by (cases "x = symb") auto
  moreover have "es_metadata ?st k = es_metadata st k" if "k \<notin> coin_key ` set syms" for k
    using that save(1,4) by (auto simp: sync_inv_def m)
  ultimately show ?case using save(4) by (simp add: sync_inv_def m)
qed

lemma length_filter_mono: "(\<And>x. x \<in> set xs \<Longrightarrow> Q x \<Longrightarrow> P x) \<Longrightarrow> length (filter Q xs) \<le> length (filter P xs)"
  by (induction xs) (auto simp: le_SucI)

lemma length_filter_insert: "distinct xs \<Longrightarrow> length (filter (\<lambda>x. x = a \<or> P x) xs) \<le> Suc (length (filter P xs))"
proof (induction xs)
  case (Cons x xs)
  show ?case
  proof (cases "x = a")
    case True
    then have "filter (\<lambda>x. x = a \<or> P x) xs = filter P xs" using Cons.prems by (auto intro!: filter_cong)
    then show ?thesis using True by simp
  qed (use Cons in auto)
qed simp

lemma sync_step_bounded:
  assumes "sync_step E faults syms s t" "distinct syms" "length (filter (\<lambda>x. running (ss_phase s x)) syms) \<le> 5"
  shows "length (filter (\<lambda>x. running (ss_phase t x)) syms) \<le> 5"
proof -
  have le: "length (filter (\<lambda>x. running (ss_phase t x)) syms) \<le> 5"
    if "\<And>x. running (ss_phase t x) \<Longrightarrow> running (ss_phase s x)"
    using length_filter_mono [of syms "\<lambda>x. running (ss_phase t x)" "\<lambda>x. running (ss_phase s x)"] that assms(3) by simp
  from assms(1) show ?thesis
  proof cases
    case (acquire symb)
    have "length (filter (\<lambda>x. running (ss_phase t x)) syms) \<le> length (filter (\<lambda>x. x = symb \<or> running (ss_phase s x)) syms)"
      by (rule length_filter_mono) (auto simp: acquire(1) split: if_splits)
    also have "\<dots> \<le> 5" using length_filter_insert [OF assms(2), of symb "\<lambda>x. running (ss_phase s x)"] acquire(4) by simp
    finally show ?thesis .
  next
    case (cancel symb)
    then show ?thesis by (intro le) (auto simp: running_def split: if_splits)
  next
    case (load symb fault now)
    then show ?thesis by (intro le) (auto simp: running_def split: if_splits)
  next
    case (fetch symb coin coin' fs)
    then show ?thesis by (intro le) (auto simp: running_def split: if_splits)
  next
    case (save symb coin fault)
    then show ?thesis by (intro le) (auto simp: running_def split: if_splits)
  qed
qed

text \<open>C15. Start-up never loses a favourite, however its goroutines interleave: at every moment of the
  synchronisation, with no fault of the database, each symbol's favourite flag in the store is
  what it was at the start; a goroutine that finished has written its symbol as active; the
  event log and all other metadata are untouched; and at most five goroutines are at work.\<close>

theorem sync_keeps_favorites:
  assumes "sync_reachable E False (unique_symbols us bs) st fs s"
    and "\<And>v. se_parse E (se_text E v) = Some v" "se_parse E [] = None"
  shows "(\<forall>symb. stored_favorite E symb (ss_store s) = stored_favorite E symb st) \<and>
    (\<forall>symb. ss_phase s symb = Finished \<longrightarrow> coin_saved E symb (stored_favorite E symb st) (ss_store s)) \<and>
    es_events (ss_store s) = es_events st \<and>
    (\<forall>k. k \<notin> coin_key ` set (us @ bs) \<longrightarrow> es_metadata (ss_store s) k = es_metadata st k) \<and>
    length (filter (\<lambda>x. running (ss_phase s x)) (unique_symbols us bs)) \<le> 5"
proof -
  have "sync_inv E (unique_symbols us bs) st s \<and> length (filter (\<lambda>x. running (ss_phase s x)) (unique_symbols us bs)) \<le> 5"
    using assms(1)
  proof (induction rule: sync_reachable.induct)
    case start
    then show ?case by (simp add: sync_inv_def sync_init_def phase_inv_def running_def)
  next
    case (step s t)
    then show ?case using sync_step_inv [OF step(2)] sync_step_bounded [OF step(2)] by (simp add: unique_symbols_def)
  qed
  then have inv: "sync_inv E (unique_symbols us bs) st s"
    and b: "length (filter (\<lambda>x. running (ss_phase s x)) (unique_symbols us bs)) \<le> 5" by simp_all
  have p: "phase_inv E st s symb" for symb using inv by (simp add: sync_inv_def)
  have "stored_favorite E symb (ss_store s) = stored_favorite E symb st" for symb
  proof (cases "ss_phase s symb = Finished")
    case True
    then show ?thesis
      using p [of symb] coin_saved_favorite [OF assms(2,3), of symb] by (simp add: phase_inv_def)
  next
    case False
    then have "es_metadata (ss_store s) (coin_key symb) = es_metadata st (coin_key symb)"
      using p [of symb] by (cases "ss_phase s symb") (simp_all add: phase_inv_def)
    then show ?thesis by (rule load_coin_metadata)
  qed
  moreover have "coin_saved E symb (stored_favorite E symb st) (ss_store s)" if "ss_phase s symb = Finished" for symb
    using p [of symb] that by (simp add: phase_inv_def)
  moreover have "set (unique_symbols us bs) = set (us @ bs)" by (simp add: unique_symbols_def)
  ultimately show ?thesis using inv b by (simp add: sync_inv_def)
qed

text \<open>With a fault of the database the flag is lost: the read error is taken for an absent entry, and the
  entry written afterwards says \<open>false\<close>.\<close>

lemma read_fault_drops_favorite: "\<not> ci_IsFavorite (load_coin E symb t True st)"
  by (simp add: load_coin_def GetMetadata_def new_coin_def zero_coin_def)

text \<open>An example of the arguments: JSON values are countable, so a text can be a number of letters.\<close>

instance json :: countable
  by countable_datatype

definition example_sync_env :: sync_env where
  "example_sync_env =
     \<lparr>se_text = (\<lambda>v. replicate (Suc (to_nat v)) CHR ''x''),
      se_parse = (\<lambda>s. if s = [] then None else Some (from_nat (length s - 1))),
      se_icon = \<lparr>ie_url_ok = (\<lambda>_. True), ie_http = (\<lambda>_. None), ie_save = (\<lambda>_. (True, True))\<rparr>, se_basePath = ''/icons''\<rparr>"

lemma example_sync_env_laws:
  "se_parse example_sync_env (se_text example_sync_env v) = Some v" "se_parse example_sync_env [] = None"
  by (simp_all add: example_sync_env_def)

definition favorite_btc :: event_store where
  "favorite_btc = empty_store\<lparr>es_metadata :=
     [coin_key ''BTC'' \<mapsto> (se_text example_sync_env (Marshal_coin (new_coin ''BTC'' 0\<lparr>ci_IsFavorite := True\<rparr>)), 0)]\<rparr>"

lemma favorite_btc_favorite: "stored_favorite example_sync_env ''BTC'' favorite_btc"
proof -
  have "coin_saved example_sync_env ''BTC'' True favorite_btc"
    unfolding coin_saved_def
    by (intro exI [of _ "new_coin ''BTC'' 0\<lparr>ci_IsFavorite := True\<rparr>"] exI [of _ 0])
      (simp add: favorite_btc_def new_coin_def)
  from coin_saved_favorite [OF example_sync_env_laws this] show ?thesis by simp
qed

theorem sync_keeps_favorites_witness:
  "\<exists>s. sync_reachable example_sync_env False (unique_symbols [''BTC''] [''BTC'', ''ETH'']) favorite_btc [] s \<and>
    ss_phase s ''BTC'' = Finished \<and> stored_favorite example_sync_env ''BTC'' (ss_store s) \<and>
    coin_saved example_sync_env ''BTC'' True (ss_store s)"
proof -
  let ?E = example_sync_env and ?syms = "unique_symbols [''BTC''] [''BTC'', ''ETH'']"
  let ?s0 = "sync_init favorite_btc []"
  let ?s1 = "?s0\<lparr>ss_phase := (ss_phase ?s0)(''BTC'' := Started)\<rparr>"
  let ?c = "load_coin ?E ''BTC'' 7 False (ss_store ?s1)"
  let ?s2 = "?s1\<lparr>ss_phase := (ss_phase ?s1)(''BTC'' := Loaded ?c)\<rparr>"
  obtain c' fs where f: "fetch_icon ?E ?c (ss_icons ?s2) = (c', fs)" by fastforce
  let ?s3 = "?s2\<lparr>ss_icons := fs, ss_phase := (ss_phase ?s2)(''BTC'' := Fetched c')\<rparr>"
  let ?s4 = "?s3\<lparr>ss_store := save_coin ?E c' False (ss_store ?s3), ss_phase := (ss_phase ?s3)(''BTC'' := Finished)\<rparr>"
  have b: "''BTC'' \<in> set ?syms" by (simp add: unique_symbols_def)
  note reach = sync_reachable.step [of ?E False ?syms favorite_btc "[]"]
  have "sync_reachable ?E False ?syms favorite_btc [] ?s1"
    by (rule reach [OF sync_reachable.start], rule sync_step.acquire [OF b])
      (simp_all add: sync_init_def unique_symbols_def running_def)
  then have "sync_reachable ?E False ?syms favorite_btc [] ?s2"
    by (rule reach) (rule sync_step.load [OF b], simp_all)
  then have "sync_reachable ?E False ?syms favorite_btc [] ?s3"
    by (rule reach) (rule sync_step.fetch [OF b _ f], simp)
  then have r: "sync_reachable ?E False ?syms favorite_btc [] ?s4"
    by (rule reach) (rule sync_step.save [OF b], simp_all)
  have p: "ss_phase ?s4 ''BTC'' = Finished" by simp
  note k = sync_keeps_favorites [OF r example_sync_env_laws]
  have "stored_favorite ?E ''BTC'' (ss_store ?s4)"
    by (subst conjunct1 [OF k, rule_format]) (rule favorite_btc_favorite)
  moreover have "coin_saved ?E ''BTC'' (stored_favorite ?E ''BTC'' favorite_btc) (ss_store ?s4)"
    by (rule conjunct1 [OF conjunct2 [OF k], rule_format, OF p])
  ultimately show ?thesis
    using r p favorite_btc_favorite by (intro exI [of _ ?s4]) simp
qed

end
