(* ===== verification/Config.thy ===== *)
theory Config
  imports Prelude
begin

text \<open>
  The configuration (\<open>internal/infra/config.go\<close>, \<open>config_secret.go\<close>): the settings read from
  the YAML file, the environment variables that override the credentials, and the validation.
  The file system and the YAML library are arguments: \<open>read_file path\<close> gives the bytes of a
  file, \<open>parse bytes\<close> what \<open>yaml.Unmarshal\<close> stores in a zero struct; both are \<open>None\<close> on an
  error. The mutex around the User-Agent makes each access one step.
\<close>

section \<open>User agent\<close>

definition GetPlatformUserAgent :: "string \<Rightarrow> string \<Rightarrow> string" where
  "GetPlatformUserAgent os arch =
     (let chromeVer = ''120.0.0.0'';
          tail = '') AppleWebKit/537.36 (KHTML, like Gecko) Chrome/'' @ chromeVer @ '' Safari/537.36''
      in if os = ''windows'' then ''Mozilla/5.0 (Windows NT 10.0; Win64; x64'' @ tail
         else if os = ''linux'' then
           ''Mozilla/5.0 (X11; Linux '' @ (if arch = ''arm64'' then ''aarch64'' else ''x86_64'') @ tail
         else if os = ''darwin'' then ''Mozilla/5.0 (Macintosh; Intel Mac OS X 10_15_7'' @ tail
         else ''Mozilla/5.0 (compatible; Quant/1.0; +https://github.com/user/cryptoGo)'')"

record user_agent =
  currentUserAgent :: string

definition GetUserAgent :: "user_agent \<Rightarrow> string" where
  "GetUserAgent g = currentUserAgent g"

definition SetUserAgent :: "string \<Rightarrow> user_agent \<Rightarrow> user_agent" where
  "SetUserAgent ua g = g\<lparr>currentUserAgent := ua\<rparr>"

section \<open>Settings\<close>

record upbit_config =
  up_WSURL :: string
  up_RestURL :: string
  up_AccessKey :: string
  up_SecretKey :: string
  up_Symbols :: "string list"

record bitget_config =
  bg_WSURL :: string
  bg_RestURL :: string
  bg_AccessKey :: string
  bg_SecretKey :: string
  bg_Passphrase :: string
  bg_Symbols :: "string \<rightharpoonup> string"

record rate_config =
  rt_URL :: string
  rt_PollIntervalSec :: int

record ui_config =
  ui_UpdateIntervalMS :: int
  ui_HistoryDays :: int
  ui_GapThreshold :: i64
  ui_Theme :: string

record config =
  cfg_AppName :: string
  cfg_AppVersion :: string
  cfg_TradingMode :: string
  cfg_Upbit :: upbit_config
  cfg_Bitget :: bitget_config
  cfg_ExchangeRate :: rate_config
  cfg_UI :: ui_config
  cfg_LogLevel :: string

datatype config_error =
    ReadFileFailed
  | YamlFailed
  | InvalidUpbitURL string
  | NoUpbitSymbol
  | InvalidBitgetURL string
  | BadUpdateInterval

definition hasPrefix :: "string \<Rightarrow> string \<Rightarrow> bool" where
  "hasPrefix s pre \<longleftrightarrow> length pre \<le> length s \<and> take (length pre) s = pre"

text \<open>\<open>Validate\<close>: the first failing check is reported; \<open>None\<close> is a nil error.\<close>

definition Validate :: "config \<Rightarrow> config_error option" where
  "Validate c =
     (let u = up_WSURL (cfg_Upbit c); b = bg_WSURL (cfg_Bitget c) in
      if u = [] \<or> (\<not> hasPrefix u ''ws://'' \<and> \<not> hasPrefix u ''wss://'') then Some (InvalidUpbitURL u)
      else if length (up_Symbols (cfg_Upbit c)) = 0 then Some NoUpbitSymbol
      else if b = [] \<or> (\<not> hasPrefix b ''ws://'' \<and> \<not> hasPrefix b ''wss://'') then Some (InvalidBitgetURL b)
      else if ui_UpdateIntervalMS (cfg_UI c) \<le> 0 then Some BadUpdateInterval
      else None)"

text \<open>One override: an empty or missing variable (\<open>os.Getenv\<close> gives the empty string) changes
  nothing.\<close>

definition override :: "string \<Rightarrow> (string \<Rightarrow> 'r \<Rightarrow> 'r) \<Rightarrow> 'r \<Rightarrow> 'r" where
  "override v upd r = (if v \<noteq> [] then upd v r else r)"

definition overrideWithEnv :: "(string \<Rightarrow> string) \<Rightarrow> config \<Rightarrow> config" where
  "overrideWithEnv getenv cfg =
     (let up = cfg_Upbit cfg;
          up = override (getenv ''CRYPTO_UPBIT_KEY'') (\<lambda>v. up_AccessKey_update (\<lambda>_. v)) up;
          up = override (getenv ''CRYPTO_UPBIT_SECRET'') (\<lambda>v. up_SecretKey_update (\<lambda>_. v)) up;
          bg = cfg_Bitget cfg;
          bg = override (getenv ''CRYPTO_BITGET_KEY'') (\<lambda>v. bg_AccessKey_update (\<lambda>_. v)) bg;
          bg = override (getenv ''CRYPTO_BITGET_SECRET'') (\<lambda>v. bg_SecretKey_update (\<lambda>_. v)) bg;
          bg = override (getenv ''CRYPTO_BITGET_PASSPHRASE'') (\<lambda>v. bg_Passphrase_update (\<lambda>_. v)) bg
      in cfg\<lparr>cfg_Upbit := up, cfg_Bitget := bg\<rparr>)"

definition LoadConfig ::
  "(string \<rightharpoonup> string) \<Rightarrow> (string \<rightharpoonup> config) \<Rightarrow> (string \<Rightarrow> string) \<Rightarrow> string \<Rightarrow> config_error + config" where
  "LoadConfig read_file parse getenv path =
     (case read_file path of
        None \<Rightarrow> Inl ReadFileFailed
      | Some data \<Rightarrow>
          (case parse data of
             None \<Rightarrow> Inl YamlFailed
           | Some cfg \<Rightarrow>
               let cfg = overrideWithEnv getenv cfg in
               (case Validate cfg of Some e \<Rightarrow> Inl e | None \<Rightarrow> Inr cfg)))"

section \<open>Secrets\<close>

record secrets =
  sc_AccessKey :: string
  sc_SecretKey :: string
  sc_Passphrase :: string

definition LoadSecretConfig ::
  "(string \<rightharpoonup> string) \<Rightarrow> (string \<rightharpoonup> secrets) \<Rightarrow> string \<Rightarrow> config_error + secrets" where
  "LoadSecretConfig read_file parse path =
     (case read_file path of
        None \<Rightarrow> Inl ReadFileFailed
      | Some data \<Rightarrow> (case parse data of None \<Rightarrow> Inl YamlFailed | Some s \<Rightarrow> Inr s))"

section \<open>Properties\<close>

lemma hasPrefix_iff: "hasPrefix s pre \<longleftrightarrow> (\<exists>rest. s = pre @ rest)"
  by (auto simp: hasPrefix_def) (metis append_take_drop_id)

lemma Validate_None_iff:
  "Validate c = None \<longleftrightarrow>
     (\<exists>scheme \<in> {''ws://'', ''wss://''}. \<exists>rest. up_WSURL (cfg_Upbit c) = scheme @ rest) \<and>
     (\<exists>scheme \<in> {''ws://'', ''wss://''}. \<exists>rest. bg_WSURL (cfg_Bitget c) = scheme @ rest) \<and>
     up_Symbols (cfg_Upbit c) \<noteq> [] \<and> 0 < ui_UpdateIntervalMS (cfg_UI c)"
  by (auto simp: Validate_def Let_def hasPrefix_iff)

text \<open>A loaded configuration is usable and takes its credentials from the environment first:
  \<open>LoadConfig\<close> succeeds exactly when the file reads and parses, both WebSocket URLs have a
  WebSocket scheme, there is an Upbit symbol and the update interval is positive; then every
  credential is the environment variable where it is set and the file's value otherwise, and
  nothing else differs from the file.\<close>

lemma config_loads_iff_usable:
  assumes "read_file path = Some data" "parse data = Some file"
  shows "LoadConfig read_file parse getenv path = Inr cfg \<longleftrightarrow>
    (let pick = (\<lambda>var x. if getenv var = [] then x else getenv var) in
     cfg = file\<lparr>cfg_Upbit := (cfg_Upbit file)
                   \<lparr>up_AccessKey := pick ''CRYPTO_UPBIT_KEY'' (up_AccessKey (cfg_Upbit file)),
                    up_SecretKey := pick ''CRYPTO_UPBIT_SECRET'' (up_SecretKey (cfg_Upbit file))\<rparr>,
                 cfg_Bitget := (cfg_Bitget file)
                   \<lparr>bg_AccessKey := pick ''CRYPTO_BITGET_KEY'' (bg_AccessKey (cfg_Bitget file)),
                    bg_SecretKey := pick ''CRYPTO_BITGET_SECRET'' (bg_SecretKey (cfg_Bitget file)),
                    bg_Passphrase := pick ''CRYPTO_BITGET_PASSPHRASE'' (bg_Passphrase (cfg_Bitget file))\<rparr>\<rparr> \<and>
     (\<exists>scheme \<in> {''ws://'', ''wss://''}. \<exists>rest. up_WSURL (cfg_Upbit file) = scheme @ rest) \<and>
     (\<exists>scheme \<in> {''ws://'', ''wss://''}. \<exists>rest. bg_WSURL (cfg_Bitget file) = scheme @ rest) \<and>
     up_Symbols (cfg_Upbit file) \<noteq> [] \<and> 0 < ui_UpdateIntervalMS (cfg_UI file))"
proof -
  have env: "overrideWithEnv getenv file =
      (let pick = (\<lambda>var x. if getenv var = [] then x else getenv var) in
       file\<lparr>cfg_Upbit := (cfg_Upbit file)
              \<lparr>up_AccessKey := pick ''CRYPTO_UPBIT_KEY'' (up_AccessKey (cfg_Upbit file)),
               up_SecretKey := pick ''CRYPTO_UPBIT_SECRET'' (up_SecretKey (cfg_Upbit file))\<rparr>,
            cfg_Bitget := (cfg_Bitget file)
              \<lparr>bg_AccessKey := pick ''CRYPTO_BITGET_KEY'' (bg_AccessKey (cfg_Bitget file)),
               bg_SecretKey := pick ''CRYPTO_BITGET_SECRET'' (bg_SecretKey (cfg_Bitget file)),
               bg_Passphrase := pick ''CRYPTO_BITGET_PASSPHRASE'' (bg_Passphrase (cfg_Bitget file))\<rparr>\<rparr>)"
    by (simp add: overrideWithEnv_def override_def Let_def)
  have same: "up_WSURL (cfg_Upbit (overrideWithEnv getenv file)) = up_WSURL (cfg_Upbit file)"
    "bg_WSURL (cfg_Bitget (overrideWithEnv getenv file)) = bg_WSURL (cfg_Bitget file)"
    "up_Symbols (cfg_Upbit (overrideWithEnv getenv file)) = up_Symbols (cfg_Upbit file)"
    "cfg_UI (overrideWithEnv getenv file) = cfg_UI file"
    by (simp_all add: overrideWithEnv_def override_def Let_def)
  have "LoadConfig read_file parse getenv path = Inr cfg \<longleftrightarrow>
      Validate (overrideWithEnv getenv file) = None \<and> cfg = overrideWithEnv getenv file"
    using assms by (auto simp: LoadConfig_def Let_def split: option.splits)
  also have "\<dots> \<longleftrightarrow> cfg = overrideWithEnv getenv file \<and>
     (\<exists>scheme \<in> {''ws://'', ''wss://''}. \<exists>rest. up_WSURL (cfg_Upbit file) = scheme @ rest) \<and>
     (\<exists>scheme \<in> {''ws://'', ''wss://''}. \<exists>rest. bg_WSURL (cfg_Bitget file) = scheme @ rest) \<and>
     up_Symbols (cfg_Upbit file) \<noteq> [] \<and> 0 < ui_UpdateIntervalMS (cfg_UI file)"
    unfolding Validate_None_iff same by blast
  finally show ?thesis unfolding env Let_def .
qed

definition example_config :: config where
  "example_config =
     \<lparr>cfg_AppName = ''crypto-go'', cfg_AppVersion = ''1'', cfg_TradingMode = ''PAPER'',
      cfg_Upbit = \<lparr>up_WSURL = ''wss://u'', up_RestURL = [], up_AccessKey = ''a'', up_SecretKey = ''b'',
        up_Symbols = [''BTC'']\<rparr>,
      cfg_Bitget = \<lparr>bg_WSURL = ''ws://b'', bg_RestURL = [], bg_AccessKey = ''c'', bg_SecretKey = ''d'',
        bg_Passphrase = ''e'', bg_Symbols = [''BTC'' \<mapsto> ''BTCUSDT'']\<rparr>,
      cfg_ExchangeRate = \<lparr>rt_URL = [], rt_PollIntervalSec = 60\<rparr>,
      cfg_UI = \<lparr>ui_UpdateIntervalMS = 100, ui_HistoryDays = 7, ui_GapThreshold = 0, ui_Theme = ''dark''\<rparr>,
      cfg_LogLevel = ''info''\<rparr>"

lemma config_loads_iff_usable_witness:
  "LoadConfig (\<lambda>_. Some []) (\<lambda>_. Some example_config)
      (\<lambda>v. if v = ''CRYPTO_BITGET_SECRET'' then ''x'' else []) ''config.yaml'' =
    Inr (example_config\<lparr>cfg_Bitget := (cfg_Bitget example_config)\<lparr>bg_SecretKey := ''x''\<rparr>\<rparr>)"
  using config_loads_iff_usable [of "\<lambda>_. Some []" "''config.yaml''" "[]" "\<lambda>_. Some example_config" example_config
      "\<lambda>v. if v = ''CRYPTO_BITGET_SECRET'' then ''x'' else []"
      "example_config\<lparr>cfg_Bitget := (cfg_Bitget example_config)\<lparr>bg_SecretKey := ''x''\<rparr>\<rparr>"]
  by (simp add: Let_def example_config_def)

end
