(* ===== verification/Startup.thy ===== *)
theory Startup
  imports Assets Config
begin

text \<open>
  The start of the process: \<open>Initialize\<close> of \<open>internal/app/bootstrap.go\<close> with everything it calls,
  \<open>CreateLockFile\<close> as the sequence of its system calls (theory \<open>Workspace\<close>), \<open>NewIconDownloader\<close>
  (\<open>icon_downloader.go\<close>) and \<open>NewLogger\<close> (\<open>logger.go\<close>). What the operating system answers is a
  record. The pools of the process are filled by \<open>Warmup\<close> of theory \<open>Event\<close>.
\<close>

section \<open>The world\<close>

text \<open>What the file system, the environment and the database answer; \<open>iw_cwd\<close> is the working directory of
  the process, \<open>iw_mkdir\<close> says whether
  \<open>os.MkdirAll\<close> succeeds, the two lists are what \<open>sync.Pool\<close> hands out during \<open>Warmup\<close>.\<close>

record init_world =
  iw_cwd :: string
  iw_goos :: string
  iw_exists :: "string \<Rightarrow> bool"
  iw_getenv :: "string \<Rightarrow> string"
  iw_configRoot :: "string option"
  iw_read_file :: "string \<rightharpoonup> string"
  iw_parse :: "string \<rightharpoonup> config"
  iw_mkdir :: "string \<Rightarrow> bool"
  iw_open_lock :: bool
  iw_database :: "string \<Rightarrow> database"
  iw_db_fault :: "open_step option"
  iw_market_picks :: "nat option list"
  iw_order_picks :: "nat option list"

definition workspace :: "init_world \<Rightarrow> string" where
  "workspace W = GetWorkspaceDir (iw_goos W) (iw_exists W) (iw_getenv W)"

text \<open>The lock file, as the operating system resolves its path.\<close>

definition lock_path :: "init_world \<Rightarrow> string" where
  "lock_path W =
     (let f = Join [workspace W, ''instance.lock''] in if take 1 f = ''/'' then f else Join [iw_cwd W, f])"

section \<open>The parts\<close>

datatype log_level = LevelDebug | LevelInfo | LevelWarn | LevelError

text \<open>Where a logger writes: to standard error, or to standard output and a rotated file.\<close>

datatype log_target = ToStderr | ToStdoutAnd string

definition parse_level :: "string \<Rightarrow> log_level" where
  "parse_level level =
     (if level = ''debug'' then LevelDebug else if level = ''warn'' then LevelWarn
      else if level = ''error'' then LevelError else LevelInfo)"

text \<open>The handler for standard error is made without options and has the library's level, \<open>Info\<close>.\<close>

definition NewLogger :: "init_world \<Rightarrow> config \<Rightarrow> log_target \<times> log_level" where
  "NewLogger W cfg =
     (let logDir = Join [workspace W, ''logs''] in
      if \<not> iw_mkdir W logDir then (ToStderr, LevelInfo)
      else (ToStdoutAnd (Join [logDir, ''app.log'']), parse_level (cfg_LogLevel cfg)))"

datatype init_error =
    ConfigFailed config_error
  | DataDirFailed
  | LogDirFailed
  | LockDirFailed
  | LockOpenFailed
  | AnotherInstance string
  | StoreFailed open_step
  | AssetsDirFailed

definition CreateLockFile :: "init_world \<Rightarrow> pid \<Rightarrow> lock_os \<Rightarrow> init_error option \<times> lock_os" where
  "CreateLockFile W p s =
     (let lockPath = Join [workspace W, ''instance.lock''] in
      if \<not> iw_mkdir W (workspace W) then (Some LockDirFailed, s)
      else if \<not> iw_open_lock W then (Some LockOpenFailed, s)
      else
        (case open_lock p (lock_path W) s of (f, s) \<Rightarrow>
           (case try_lock f s of (ok, s) \<Rightarrow> if ok then (None, s) else (Some (AnotherInstance lockPath), s))))"

definition NewIconDownloader :: "init_world \<Rightarrow> init_error + string" where
  "NewIconDownloader W =
     (let path = getAssetsPath (iw_goos W) (iw_exists W) (iw_getenv W)
      in if iw_mkdir W path then Inr path else Inl AssetsDirFailed)"

section \<open>Initialize\<close>

text \<open>The event store is kept with the path of its database, the downloader as its base path.\<close>

record bootstrap =
  bs_Config :: "config option"
  bs_EventStore :: "(string \<times> event_store) option"
  bs_Downloader :: "string option"

text \<open>The globals of the process that \<open>Initialize\<close> sets: the event pools and the default logger.\<close>

record globals =
  gl_pools :: "market_update pool \<times> order_update pool"
  gl_logger :: "(log_target \<times> log_level) option"

definition NewBootstrap :: bootstrap where
  "NewBootstrap = \<lparr>bs_Config = None, bs_EventStore = None, bs_Downloader = None\<rparr>"

definition load_config :: "init_world \<Rightarrow> config_error + config" where
  "load_config W =
     LoadConfig (iw_read_file W) (iw_parse W) (iw_getenv W) (ResolveConfigPath (iw_exists W) (iw_configRoot W))"

definition Initialize ::
  "init_world \<Rightarrow> pid \<Rightarrow> bootstrap \<Rightarrow> globals \<Rightarrow> lock_os \<Rightarrow> init_error option \<times> bootstrap \<times> globals \<times> lock_os" where
  "Initialize W p b g s =
     (let g = g\<lparr>gl_pools := Warmup (iw_market_picks W) (iw_order_picks W) (gl_pools g)\<rparr> in
      case load_config W of
        Inl e \<Rightarrow> (Some (ConfigFailed e), b, g, s)
      | Inr cfg \<Rightarrow>
          let b = b\<lparr>bs_Config := Some cfg\<rparr>;
              g = g\<lparr>gl_logger := Some (NewLogger W cfg)\<rparr>;
              mode = mode_dir (cfg_TradingMode cfg);
              dataDir = Join [workspace W, ''data'', mode];
              logDir = Join [workspace W, ''logs'', mode]
          in if \<not> iw_mkdir W dataDir then (Some DataDirFailed, b, g, s)
             else if \<not> iw_mkdir W logDir then (Some LogDirFailed, b, g, s)
             else
               (case CreateLockFile W p s of
                  (Some e, s) \<Rightarrow> (Some e, b, g, s)
                | (None, s) \<Rightarrow>
                    let dbPath = Join [dataDir, ''events.db''] in
                    (case NewEventStore (iw_db_fault W) (iw_database W dbPath) of
                       Inl e \<Rightarrow> (Some (StoreFailed e), b, g, s)
                     | Inr evStore \<Rightarrow>
                         let b = b\<lparr>bs_EventStore := Some (dbPath, evStore)\<rparr> in
                         (case NewIconDownloader W of
                            Inl e \<Rightarrow> (Some e, b, g, s)
                          | Inr downloader \<Rightarrow> (None, b\<lparr>bs_Downloader := Some downloader\<rparr>, g, s)))))"

section \<open>Properties\<close>


text \<open>\<open>CreateLockFile\<close> is an opening and an attempt to lock what was opened.\<close>

lemma CreateLockFile_acts:
  "snd (CreateLockFile W p s) = s \<or>
   snd (CreateLockFile W p s) = fold lock_act [Opens p (lock_path W), Tries (lk_fds s)] s"
  by (simp add: CreateLockFile_def lock_act_def open_lock_def Let_def split: prod.splits)

lemma CreateLockFile_holds:
  assumes "CreateLockFile W p s = (None, s')"
  shows "holds_by (lk_fds s) (lock_path W) s' \<and> lk_owner s' (lk_fds s) = p"
proof -
  let ?t = "snd (open_lock p (lock_path W) s)"
  have t: "try_lock (lk_fds s) ?t = (True, s')"
    using assms by (auto simp: CreateLockFile_def open_lock_def Let_def split: if_splits prod.splits)
  show ?thesis
    by (cases rule: try_lock_cases [of ?t "lk_fds s"])
      (use t in \<open>auto simp: holds_by_def open_lock_def Let_def split: option.splits\<close>)
qed

text \<open>Who holds the lock of the file keeps everybody else out.\<close>

lemma CreateLockFile_keeps:
  assumes "holds_by d path s"
  shows "holds_by d path (snd (CreateLockFile W q s)) \<and> lk_owner (snd (CreateLockFile W q s)) d = lk_owner s d"
proof -
  let ?ls = "[Opens q (lock_path W), Tries (lk_fds s)]"
  have u: "list_all undisturbed ?ls" "Exits (lk_owner s d) \<notin> set ?ls" by (simp_all add: undisturbed_def)
  have "holds_by d path (fold lock_act ?ls s) \<and> lk_owner (fold lock_act ?ls s) d = lk_owner s d"
    using lock_run_holds [OF assms u] by blast
  then show ?thesis using CreateLockFile_acts [of W q s] assms by (elim disjE) (simp_all only: simp_thms)
qed

lemma CreateLockFile_refused:
  assumes "holds_by d (lock_path W) s"
  shows "fst (CreateLockFile W q s) \<noteq> None"
proof
  assume "fst (CreateLockFile W q s) = None"
  then obtain s' where c: "CreateLockFile W q s = (None, s')" by (cases "CreateLockFile W q s") simp
  have "holds_by d (lock_path W) s'" using CreateLockFile_keeps [OF assms, of W q] c by simp
  moreover have "holds_by (lk_fds s) (lock_path W) s'" using CreateLockFile_holds [OF c] by blast
  ultimately have "d = lk_fds s" by (auto simp: holds_by_def)
  then show False using assms by (simp add: holds_by_def)
qed

lemma Initialize_lock:
  assumes "Initialize W p b g s = (r, b', g', s')"
  shows "(r = None \<or> bs_EventStore b' \<noteq> bs_EventStore b \<longrightarrow> CreateLockFile W p s = (None, s')) \<and>
    (s' = s \<or> (\<exists>e. CreateLockFile W p s = (e, s')))"
  using assms
  by (auto simp: Initialize_def Let_def split: sum.splits if_splits prod.splits option.splits)



text \<open>C23. Two processes of one workspace do not share it: when one has initialised, then whatever any
  processes do to lock files, opening them, trying to lock them or ending, as long as none of
  them closes or removes a lock file and the first still runs, the start of another with the same
  lock file ends with an error and opens no database, and the first keeps the lock.\<close>

theorem second_instance_refused:
  assumes "Initialize W p NewBootstrap g s = (None, b, g1, s1)"
    and "list_all undisturbed ls" "Exits p \<notin> set ls" "lock_path W' = lock_path W"
    and "Initialize W' q NewBootstrap g' (fold lock_act ls s1) = (r, b', g2, s2)"
  shows "r \<noteq> None \<and> bs_EventStore b' = None \<and> holds_lock p (lock_path W) s2"
proof -
  let ?s = "fold lock_act ls s1" and ?d = "lk_fds s"
  have "CreateLockFile W p s = (None, s1)" using Initialize_lock [OF assms(1)] by simp
  then have "holds_by ?d (lock_path W) s1" "lk_owner s1 ?d = p" using CreateLockFile_holds by blast+
  then have d: "holds_by ?d (lock_path W) ?s" "lk_owner ?s ?d = p" using lock_run_holds assms(2,3) by blast+
  have no: "CreateLockFile W' q ?s \<noteq> (None, s2)"
    using CreateLockFile_refused [of ?d W' ?s q] d(1) assms(4) by auto
  have "holds_by ?d (lock_path W) s2 \<and> lk_owner s2 ?d = p"
    using Initialize_lock [OF assms(5)] CreateLockFile_keeps [OF d(1), of W' q] d by (metis snd_conv)
  then have "holds_lock p (lock_path W) s2" by (auto simp: holds_lock_def holds_by_def)
  moreover have "\<not> (r = None \<or> bs_EventStore b' \<noteq> bs_EventStore NewBootstrap)"
    using Initialize_lock [OF assms(5)] no by blast
  ultimately show ?thesis by (simp del: not_None_eq add: NewBootstrap_def)
qed

section \<open>An example\<close>

definition startup_config :: config where
  "startup_config =
     \<lparr>cfg_AppName = ''crypto-go'', cfg_AppVersion = ''1'', cfg_TradingMode = ''PAPER'',
      cfg_Upbit = \<lparr>up_WSURL = ''wss://u'', up_RestURL = [], up_AccessKey = [], up_SecretKey = [], up_Symbols = [''BTC'']\<rparr>,
      cfg_Bitget = \<lparr>bg_WSURL = ''wss://b'', bg_RestURL = [], bg_AccessKey = [], bg_SecretKey = [], bg_Passphrase = [],
        bg_Symbols = Map.empty\<rparr>,
      cfg_ExchangeRate = \<lparr>rt_URL = [], rt_PollIntervalSec = 60\<rparr>,
      cfg_UI = \<lparr>ui_UpdateIntervalMS = 100, ui_HistoryDays = 7, ui_GapThreshold = 0, ui_Theme = []\<rparr>, cfg_LogLevel = []\<rparr>"

definition example_world :: init_world where
  "example_world =
     \<lparr>iw_cwd = ''/home/u'', iw_goos = ''linux'', iw_exists = (\<lambda>f. f = ''_workspace''), iw_getenv = (\<lambda>_. []), iw_configRoot = None,
      iw_read_file = (\<lambda>_. Some []), iw_parse = (\<lambda>_. Some startup_config), iw_mkdir = (\<lambda>_. True), iw_open_lock = True,
      iw_database = (\<lambda>_. \<lparr>db_events = None, db_metadata = None\<rparr>), iw_db_fault = None,
      iw_market_picks = replicate 1000 None, iw_order_picks = replicate 1000 None\<rparr>"

definition empty_globals :: globals where
  "empty_globals =
     \<lparr>gl_pools = (example_pool, \<lparr>pool_heap = \<lambda>_. zero_order_update, pool_free = [], pool_next = 0\<rparr>), gl_logger = None\<rparr>"

lemma Initialize_succeeds:
  assumes "load_config W = Inr cfg" "fst (CreateLockFile W p s) = None" "\<And>d. iw_mkdir W d" "iw_db_fault W = None"
  shows "\<exists>b g' s'. Initialize W p NewBootstrap g s = (None, b, g', s') \<and> bs_EventStore b \<noteq> None"
  using assms
  by (cases "CreateLockFile W p s") (simp add: Initialize_def Let_def NewEventStore_def NewIconDownloader_def)

lemma example_load: "load_config (example_world\<lparr>iw_database := d\<rparr>) = Inr startup_config"
  by (simp add: load_config_def LoadConfig_def example_world_def startup_config_def overrideWithEnv_def override_def
      Validate_def hasPrefix_def Let_def)

lemma example_locks: "fst (CreateLockFile (example_world\<lparr>iw_database := d\<rparr>) q initial_os) = None"
  by (simp add: CreateLockFile_def example_world_def lock_eval)

lemma example_initialize_on:
  "\<exists>b g s. Initialize (example_world\<lparr>iw_database := d\<rparr>) q NewBootstrap empty_globals initial_os = (None, b, g, s) \<and>
    bs_EventStore b \<noteq> None"
  by (rule Initialize_succeeds [OF example_load example_locks]) (simp_all add: example_world_def)

lemma example_initialize:
  "\<exists>b g s. Initialize example_world 1 NewBootstrap empty_globals initial_os = (None, b, g, s) \<and> bs_EventStore b \<noteq> None"
  using example_initialize_on [of "iw_database example_world" 1] by simp


theorem second_instance_refused_witness:
  "\<exists>b g s1 r b' g' s2. Initialize example_world 1 NewBootstrap empty_globals initial_os = (None, b, g, s1) \<and>
    Initialize example_world 2 NewBootstrap empty_globals (fold lock_act [Opens 3 (lock_path example_world), Tries 1, Exits 3] s1) =
      (r, b', g', s2) \<and>
    r \<noteq> None \<and> bs_EventStore b' = None"
proof -
  let ?ls = "[Opens 3 (lock_path example_world), Tries 1, Exits 3]"
  obtain b g s1 where b: "Initialize example_world 1 NewBootstrap empty_globals initial_os = (None, b, g, s1)"
    using example_initialize by blast
  obtain r b' g' s2 where r: "Initialize example_world 2 NewBootstrap empty_globals (fold lock_act ?ls s1) = (r, b', g', s2)"
    by (cases "Initialize example_world 2 NewBootstrap empty_globals (fold lock_act ?ls s1)")
  have "list_all undisturbed ?ls" "Exits 1 \<notin> set ?ls" by (simp_all add: undisturbed_def)
  then show ?thesis using second_instance_refused [OF b _ _ refl r] b r by auto
qed

text \<open>A process of another workspace is not kept out.\<close>

lemma other_workspace_admitted:
  "fst (CreateLockFile (example_world\<lparr>iw_cwd := ''/home/v''\<rparr>) 2 (snd (CreateLockFile example_world 1 initial_os))) = None"
  by (simp add: CreateLockFile_def example_world_def lock_eval lock_path_def workspace_def GetWorkspaceDir_def Join_def Clean_def
      path_elems_def clean_step_def)

end
