(* ===== verification/Ws_Worker.thy ===== *)
theory Ws_Worker
  imports Feeds
begin

text \<open>
  The WebSocket worker (\<open>internal/infra/websocket_worker.go\<close>) with all its goroutines: the
  connection loop, one ping goroutine for each successful connect, and the caller of \<open>Stop\<close>. They share
  the connection behind a mutex and the cancelled context. A step is one access to the shared
  connection, one call of the network or one call of the handler, and its label tells what the network
  gave and which call was made; a run is any interleaving, with the labels of its steps.
  The main results: every interleaving is a run of the sequential loop \<open>runLoop\<close> of theory
  \<open>Feeds\<close> on exactly the dials and frames of the run, and once \<open>Stop\<close> has returned nothing happens
  any more but the pings that were already under way.
\<close>

section \<open>State\<close>

text \<open>Where the connection loop is: at the top of \<open>runLoop\<close>; dialling; with a dialled connection not
  yet stored; in \<open>OnConnect\<close>; sleeping before the next attempt; at the top of \<open>process\<close>; reading
  from a connection; returned.\<close>

datatype loop_pc = AtTop | Dialling | Dialled nat | Subscribing | Sleeping | InProcess | Reading nat | LoopReturned

text \<open>A ping goroutine waits for its ticker; or has read the connection and calls \<open>OnPing\<close>; or goes on to
  close the stored connection, since its ping failed.\<close>

datatype ping_pc = PingWaits | PingHolds nat | PingCloses

datatype stop_pc = NotStopping | CancelDone | StopWaits | StopReturned

text \<open>Connections are numbered as they are dialled.\<close>

record 'h ws_system =
  wy_handler :: 'h
  wy_conn :: "nat option"
  wy_opened :: nat
  wy_closed :: "nat set"
  wy_cancelled :: bool
  wy_loop :: loop_pc
  wy_retry :: int
  wy_delays :: "i64 list"
  wy_pings :: "ping_pc list"
  wy_stop :: stop_pc

text \<open>\<open>Start\<close> on a new worker.\<close>

definition ws_start :: "'h \<Rightarrow> 'h ws_system" where
  "ws_start h =
     \<lparr>wy_handler = h, wy_conn = None, wy_opened = 0, wy_closed = {}, wy_cancelled = False, wy_loop = AtTop,
      wy_retry = 0, wy_delays = [], wy_pings = [], wy_stop = NotStopping\<rparr>"

text \<open>\<open>close\<close>, under the mutex.\<close>

definition close_conn :: "'h ws_system \<Rightarrow> 'h ws_system" where
  "close_conn s =
     (case wy_conn s of None \<Rightarrow> s | Some c \<Rightarrow> s\<lparr>wy_closed := insert c (wy_closed s), wy_conn := None\<rparr>)"

text \<open>A failed connection attempt: the delay before the next one.\<close>

definition attempt_failed :: "'h ws_system \<Rightarrow> 'h ws_system" where
  "attempt_failed s =
     s\<lparr>wy_delays := wy_delays s @ [CalculateBackoff (wy_retry s)], wy_retry := wy_retry s + 1, wy_loop := Sleeping\<rparr>"

definition drop_nth :: "nat \<Rightarrow> 'a list \<Rightarrow> 'a list" where
  "drop_nth i xs = take i xs @ drop (Suc i) xs"

section \<open>Steps\<close>

text \<open>What a step shows: a dial that failed or gave a connection, a call of \<open>OnConnect\<close> that failed or
  succeeded, a frame read from a connection and given to \<open>OnMessage\<close>, the end of a session, a call of
  \<open>OnPing\<close> on a connection and whether it succeeded, the end of the context, the steps of \<open>Stop\<close>, or
  nothing.\<close>

datatype ws_label =
    DialFailed | Dialed nat
  | ConnectFailed | Connected
  | Frame nat ws_msg | SessionEnded
  | Pinged nat bool
  | Cancelled | StopCancels | StopCloses | StopReturns
  | Silent

text \<open>The context can also be cancelled from outside, by its parent; whether a dial that was under way then
  still succeeds is up to the dialler. \<open>OnConnect\<close> can succeed although the connection was closed
  meanwhile. A read can still deliver frames that were received before the connection was closed.\<close>

inductive ws_step :: "(ws_msg \<Rightarrow> 'h \<Rightarrow> 'h) \<Rightarrow> 'h ws_system \<Rightarrow> ws_label \<Rightarrow> 'h ws_system \<Rightarrow> bool" for om where
  top_done: "wy_loop s = AtTop \<Longrightarrow> wy_cancelled s \<Longrightarrow> ws_step om s Silent (s\<lparr>wy_loop := LoopReturned\<rparr>)"
| top_dial: "wy_loop s = AtTop \<Longrightarrow> \<not> wy_cancelled s \<Longrightarrow> ws_step om s Silent (s\<lparr>wy_loop := Dialling\<rparr>)"
| dial_fails: "wy_loop s = Dialling \<Longrightarrow> ws_step om s DialFailed (attempt_failed s)"
| dial_succeeds: "wy_loop s = Dialling \<Longrightarrow>
    ws_step om s (Dialed (wy_opened s)) (s\<lparr>wy_loop := Dialled (wy_opened s), wy_opened := wy_opened s + 1\<rparr>)"
| install: "wy_loop s = Dialled c \<Longrightarrow> ws_step om s Silent (s\<lparr>wy_conn := Some c, wy_loop := Subscribing\<rparr>)"
| subscribe_fails: "wy_loop s = Subscribing \<Longrightarrow> ws_step om s ConnectFailed (attempt_failed (close_conn s))"
| subscribed: "wy_loop s = Subscribing \<Longrightarrow>
    ws_step om s Connected (s\<lparr>wy_pings := wy_pings s @ [PingWaits], wy_retry := 0, wy_loop := InProcess\<rparr>)"
| sleep_done: "wy_loop s = Sleeping \<Longrightarrow> wy_cancelled s \<Longrightarrow> ws_step om s Silent (s\<lparr>wy_loop := LoopReturned\<rparr>)"
| sleep_over: "wy_loop s = Sleeping \<Longrightarrow> ws_step om s Silent (s\<lparr>wy_loop := AtTop\<rparr>)"
| no_conn: "wy_loop s = InProcess \<Longrightarrow> wy_conn s = None \<Longrightarrow> ws_step om s SessionEnded (s\<lparr>wy_loop := AtTop\<rparr>)"
| has_conn: "wy_loop s = InProcess \<Longrightarrow> wy_conn s = Some c \<Longrightarrow> ws_step om s Silent (s\<lparr>wy_loop := Reading c\<rparr>)"
| message: "wy_loop s = Reading c \<Longrightarrow>
    ws_step om s (Frame c msg) (s\<lparr>wy_handler := om msg (wy_handler s), wy_loop := InProcess\<rparr>)"
| read_fails: "wy_loop s = Reading c \<Longrightarrow> ws_step om s SessionEnded ((close_conn s)\<lparr>wy_loop := AtTop\<rparr>)"
| ping_done: "i < length (wy_pings s) \<Longrightarrow> wy_pings s ! i = PingWaits \<Longrightarrow> wy_cancelled s \<Longrightarrow>
    ws_step om s Silent (s\<lparr>wy_pings := drop_nth i (wy_pings s)\<rparr>)"
| ping_no_conn: "i < length (wy_pings s) \<Longrightarrow> wy_pings s ! i = PingWaits \<Longrightarrow> wy_conn s = None \<Longrightarrow>
    ws_step om s Silent (s\<lparr>wy_pings := drop_nth i (wy_pings s)\<rparr>)"
| ping_tick: "i < length (wy_pings s) \<Longrightarrow> wy_pings s ! i = PingWaits \<Longrightarrow> wy_conn s = Some c \<Longrightarrow>
    ws_step om s Silent (s\<lparr>wy_pings := (wy_pings s)[i := PingHolds c]\<rparr>)"
| ping_ok: "i < length (wy_pings s) \<Longrightarrow> wy_pings s ! i = PingHolds c \<Longrightarrow>
    ws_step om s (Pinged c True) (s\<lparr>wy_pings := (wy_pings s)[i := PingWaits]\<rparr>)"
| ping_fails: "i < length (wy_pings s) \<Longrightarrow> wy_pings s ! i = PingHolds c \<Longrightarrow>
    ws_step om s (Pinged c False) (s\<lparr>wy_pings := (wy_pings s)[i := PingCloses]\<rparr>)"
| ping_closes: "i < length (wy_pings s) \<Longrightarrow> wy_pings s ! i = PingCloses \<Longrightarrow>
    ws_step om s Silent (close_conn (s\<lparr>wy_pings := drop_nth i (wy_pings s)\<rparr>))"
| context_cancelled: "ws_step om s Cancelled (s\<lparr>wy_cancelled := True\<rparr>)"
| stop_cancels: "wy_stop s = NotStopping \<Longrightarrow>
    ws_step om s StopCancels (s\<lparr>wy_cancelled := True, wy_stop := CancelDone\<rparr>)"
| stop_closes: "wy_stop s = CancelDone \<Longrightarrow> ws_step om s StopCloses ((close_conn s)\<lparr>wy_stop := StopWaits\<rparr>)"
| stop_returns: "wy_stop s = StopWaits \<Longrightarrow> wy_loop s = LoopReturned \<Longrightarrow>
    ws_step om s StopReturns (s\<lparr>wy_stop := StopReturned\<rparr>)"

inductive_cases ws_stepE: "ws_step om s l t"

inductive ws_steps :: "(ws_msg \<Rightarrow> 'h \<Rightarrow> 'h) \<Rightarrow> 'h ws_system \<Rightarrow> ws_label list \<Rightarrow> 'h ws_system \<Rightarrow> bool" for om where
  here: "ws_steps om s [] s"
| further: "ws_steps om s ls t \<Longrightarrow> ws_step om t l u \<Longrightarrow> ws_steps om s (ls @ [l]) u"

lemma ws_steps_trans: "ws_steps om t ms u \<Longrightarrow> ws_steps om s ls t \<Longrightarrow> ws_steps om s (ls @ ms) u"
proof (induction arbitrary: ls rule: ws_steps.induct)
  case (further t ms u l v)
  from ws_steps.further [OF further(3) [OF further(4)] further(2)] show ?case by simp
qed simp

text \<open>The frames of a run, in order, and how often \<open>OnPing\<close> was called.\<close>

definition frames_of :: "ws_label list \<Rightarrow> ws_msg list" where
  "frames_of ls = concat (map (\<lambda>l. case l of Frame c msg \<Rightarrow> [msg] | _ \<Rightarrow> []) ls)"

definition pings_of :: "ws_label list \<Rightarrow> nat" where
  "pings_of ls = length (filter (\<lambda>l. case l of Pinged c ok \<Rightarrow> True | _ \<Rightarrow> False) ls)"

text \<open>The rounds of the connection loop that a run has finished, and the messages of the current one.\<close>

definition note_label :: "ws_label \<Rightarrow> ws_round list \<times> ws_msg list \<Rightarrow> ws_round list \<times> ws_msg list" where
  "note_label l r =
     (case l of
        DialFailed \<Rightarrow> (fst r @ [DialFails], snd r)
      | ConnectFailed \<Rightarrow> (fst r @ [OnConnectFails], snd r)
      | Frame c msg \<Rightarrow> (fst r, snd r @ [msg])
      | SessionEnded \<Rightarrow> (fst r @ [Session (snd r)], [])
      | _ \<Rightarrow> r)"

definition rounds_of :: "ws_label list \<Rightarrow> ws_round list \<times> ws_msg list" where
  "rounds_of ls = fold note_label ls ([], [])"

text \<open>How many connections a run has dialled.\<close>

definition dials_of :: "ws_label list \<Rightarrow> nat" where
  "dials_of ls = length (filter (\<lambda>l. case l of Dialed c \<Rightarrow> True | _ \<Rightarrow> False) ls)"

lemma trace_snoc [simp]:
  "frames_of (ls @ [l]) = frames_of ls @ (case l of Frame c msg \<Rightarrow> [msg] | _ \<Rightarrow> [])"
  "pings_of (ls @ [l]) = pings_of ls + (case l of Pinged c ok \<Rightarrow> 1 | _ \<Rightarrow> 0)"
  "dials_of (ls @ [l]) = dials_of ls + (case l of Dialed c \<Rightarrow> 1 | _ \<Rightarrow> 0)"
  "rounds_of (ls @ [l]) = note_label l (rounds_of ls)"
  by (simp_all add: frames_of_def pings_of_def dials_of_def rounds_of_def split: ws_label.splits)

lemma trace_Nil [simp]: "frames_of [] = []" "pings_of [] = 0" "dials_of [] = 0" "rounds_of [] = ([], [])"
  by (simp_all add: frames_of_def pings_of_def dials_of_def rounds_of_def)

section \<open>Connections\<close>

lemma close_conn_simps [simp]:
  "wy_handler (close_conn s) = wy_handler s" "wy_conn (close_conn s) = None" "wy_opened (close_conn s) = wy_opened s"
  "wy_closed (close_conn s) = wy_closed s \<union> set_option (wy_conn s)" "wy_cancelled (close_conn s) = wy_cancelled s"
  "wy_loop (close_conn s) = wy_loop s" "wy_retry (close_conn s) = wy_retry s" "wy_delays (close_conn s) = wy_delays s"
  "wy_pings (close_conn s) = wy_pings s" "wy_stop (close_conn s) = wy_stop s"
  by (simp_all add: close_conn_def split: option.splits)

lemma attempt_failed_simps [simp]:
  "wy_handler (attempt_failed s) = wy_handler s" "wy_conn (attempt_failed s) = wy_conn s" "wy_opened (attempt_failed s) = wy_opened s"
  "wy_closed (attempt_failed s) = wy_closed s" "wy_cancelled (attempt_failed s) = wy_cancelled s" "wy_loop (attempt_failed s) = Sleeping"
  "wy_retry (attempt_failed s) = wy_retry s + 1" "wy_delays (attempt_failed s) = wy_delays s @ [CalculateBackoff (wy_retry s)]"
  "wy_pings (attempt_failed s) = wy_pings s" "wy_stop (attempt_failed s) = wy_stop s"
  by (simp_all add: attempt_failed_def)

text \<open>A program point at which the worker holds no connection.\<close>

definition unconnected :: "loop_pc \<Rightarrow> bool" where
  "unconnected pc \<longleftrightarrow> (case pc of Subscribing \<Rightarrow> False | InProcess \<Rightarrow> False | Reading _ \<Rightarrow> False | _ \<Rightarrow> True)"

text \<open>Every connection ever dialled is closed, stored, or just dialled and about to be stored; the loop works
  on the one dialled last; between sessions none is stored; \<open>Stop\<close> returns only after the loop.\<close>

definition ws_inv :: "'h ws_system \<Rightarrow> bool" where
  "ws_inv s \<longleftrightarrow>
     (\<forall>c < wy_opened s. c \<in> wy_closed s \<or> wy_conn s = Some c \<or> wy_loop s = Dialled c) \<and>
     (case wy_conn s of Some c \<Rightarrow> wy_opened s = Suc c | None \<Rightarrow> True) \<and>
     (case wy_loop s of Dialled c \<Rightarrow> wy_opened s = Suc c | Reading c \<Rightarrow> wy_opened s = Suc c | _ \<Rightarrow> True) \<and>
     (\<forall>c. PingHolds c \<in> set (wy_pings s) \<longrightarrow> c < wy_opened s) \<and>
     (unconnected (wy_loop s) \<longrightarrow> wy_conn s = None) \<and>
     (wy_stop s = StopReturned \<longrightarrow> wy_loop s = LoopReturned) \<and>
     (wy_stop s \<noteq> NotStopping \<longrightarrow> wy_cancelled s)"

lemma set_drop_nth: "set (drop_nth i xs) \<subseteq> set xs"
  using set_take_subset [of i xs] set_drop_subset [of "Suc i" xs] by (auto simp: drop_nth_def)

lemma set_update_cases: "x \<in> set (xs[i := y]) \<Longrightarrow> x = y \<or> x \<in> set xs"
  using set_update_subset_insert [of xs i y] by blast

lemma ws_step_inv: "ws_step om s l t \<Longrightarrow> ws_inv s \<Longrightarrow> ws_inv t"
  by (induction rule: ws_step.induct)
    (auto simp: ws_inv_def unconnected_def less_Suc_eq split: loop_pc.splits option.splits
      dest: subsetD [OF set_drop_nth] dest!: set_update_cases)

lemma ws_steps_inv: "ws_steps om s ls t \<Longrightarrow> ws_inv s \<Longrightarrow> ws_inv t"
  by (induction rule: ws_steps.induct) (auto intro: ws_step_inv)

lemma ws_start_inv: "ws_inv (ws_start h)"
  by (simp add: ws_inv_def ws_start_def)

section \<open>The worker refines the sequential loop\<close>

lemma runLoop_snoc:
  "CtxCancelled \<notin> set rs \<Longrightarrow> runLoop om (rs @ [r]) w = runLoop om [r] (runLoop om rs w)"
  by (induction om rs w rule: runLoop.induct) (auto split: prod.splits bool.splits)

definition before_session :: "loop_pc \<Rightarrow> bool" where
  "before_session pc \<longleftrightarrow> unconnected pc \<or> pc = Subscribing"

text \<open>The state of a worker after some finished rounds and messages of the current session.\<close>

definition loop_history :: "(ws_msg \<Rightarrow> 'h \<Rightarrow> 'h) \<Rightarrow> 'h \<Rightarrow> ws_round list \<times> ws_msg list \<Rightarrow> 'h ws_system \<Rightarrow> bool" where
  "loop_history om h r s \<longleftrightarrow>
     (let w = runLoop om (fst r) (NewBaseWSWorker h)
      in CtxCancelled \<notin> set (fst r) \<and> wy_handler s = fold om (snd r) (ws_handler w) \<and> wy_delays s = ws_delays w \<and>
         (if before_session (wy_loop s) then snd r = [] \<and> wy_retry s = ws_retry w
          else wy_retry s = 0))"

lemma ws_step_history: "ws_step om s l t \<Longrightarrow> loop_history om h r s \<Longrightarrow> loop_history om h (note_label l r) t"
  by (induction rule: ws_step.induct)
    (auto simp: loop_history_def Let_def note_label_def runLoop_snoc ws_connect_def ws_process_def ws_close_def
      before_session_def unconnected_def)

lemma ws_steps_history: "ws_steps om (ws_start h) ls s \<Longrightarrow> loop_history om h (rounds_of ls) s"
proof (induction "ws_start h" ls s rule: ws_steps.induct)
  case here
  show ?case by (simp add: loop_history_def ws_start_def NewBaseWSWorker_def before_session_def unconnected_def)
next
  case (further ls t l u)
  then show ?case by (simp add: ws_step_history)
qed

text \<open>The connection a frame comes from is the one dialled last before it.\<close>

lemma ws_step_dials: "ws_step om s l t \<Longrightarrow> wy_opened t = wy_opened s + (case l of Dialed c \<Rightarrow> 1 | _ \<Rightarrow> 0)"
  by (induction rule: ws_step.induct) simp_all

lemma ws_steps_frames:
  assumes "ws_steps om (ws_start h) ls s"
  shows "wy_opened s = dials_of ls \<and> (\<forall>us c msg vs. ls = us @ Frame c msg # vs \<longrightarrow> dials_of us = Suc c)"
  using assms
proof (induction "ws_start h" ls s rule: ws_steps.induct)
  case (further ls t l u)
  have "dials_of us = Suc c" if l: "ls @ [l] = us @ Frame c msg # vs" for us c msg vs
  proof (cases vs rule: rev_cases)
    case Nil
    then have "l = Frame c msg" "us = ls" using l by simp_all
    then have "wy_loop t = Reading c" using further(3) by (auto elim: ws_stepE)
    then have "wy_opened t = Suc c"
      using ws_steps_inv [OF further(1) ws_start_inv] by (simp add: ws_inv_def)
    then show ?thesis using further(2) \<open>us = ls\<close> by simp
  next
    case (snoc ws x)
    then show ?thesis using further(2) l by simp
  qed
  then show ?case using further(2) ws_step_dials [OF further(3)] by simp
qed (simp add: ws_start_def)

text \<open>C13. Every interleaving of the worker's goroutines is a run of the sequential connection loop on what the
  run met, in the order it met it: the rounds are the failed dials, the failed \<open>OnConnect\<close> calls and
  the sessions with exactly the frames read in them. At any moment the handler has been given the frames
  of the finished sessions and of the current one, each once and in order, every frame comes from the
  connection dialled last, and the delays are those of the failed attempts, counted afresh after
  every successful connect. The ping goroutines and \<open>Stop\<close> only end sessions.\<close>

theorem ws_worker_refines_loop:
  assumes "ws_steps om (ws_start h) ls s" "rounds_of ls = (rs, msgs)"
  shows "wy_handler s = fold om msgs (ws_handler (runLoop om rs (NewBaseWSWorker h))) \<and>
    wy_delays s = ws_delays (runLoop om rs (NewBaseWSWorker h)) \<and> CtxCancelled \<notin> set rs \<and>
    (unconnected (wy_loop s) \<longrightarrow> msgs = [] \<and> wy_retry s = ws_retry (runLoop om rs (NewBaseWSWorker h))) \<and>
    (\<forall>us c msg vs. ls = us @ Frame c msg # vs \<longrightarrow> dials_of us = Suc c)"
  using ws_steps_history [OF assms(1)] ws_steps_frames [OF assms(1)] assms(2)
  by (auto simp: loop_history_def Let_def before_session_def split: if_splits)

text \<open>What the handler has done is to take the frames, whatever the rounds.\<close>

lemma ws_step_handler: "ws_step om s l t \<Longrightarrow> wy_handler t = fold om (case l of Frame c msg \<Rightarrow> [msg] | _ \<Rightarrow> []) (wy_handler s)"
  by (induction rule: ws_step.induct) simp_all

lemma ws_steps_handler: "ws_steps om s ls t \<Longrightarrow> wy_handler t = fold om (frames_of ls) (wy_handler s)"
  by (induction rule: ws_steps.induct) (simp_all add: ws_step_handler)

section \<open>After Stop\<close>

text \<open>The goroutines that are about to call \<open>OnPing\<close>, or in it.\<close>

fun holding :: "ping_pc \<Rightarrow> bool" where
  "holding (PingHolds c) = True"
| "holding _ = False"

definition pinging :: "'h ws_system \<Rightarrow> nat" where
  "pinging s = length (filter holding (wy_pings s))"

definition after_stop :: "'h ws_system \<Rightarrow> ws_label \<Rightarrow> bool" where
  "after_stop s l \<longleftrightarrow> (case l of Silent \<Rightarrow> True | Cancelled \<Rightarrow> True | Pinged c ok \<Rightarrow> c \<in> wy_closed s | _ \<Rightarrow> False)"

lemma filter_drop_nth:
  "i < length xs \<Longrightarrow> length (filter P (drop_nth i xs)) + (if P (xs ! i) then 1 else 0) = length (filter P xs)"
  by (subst (3) id_take_nth_drop [of i xs]) (simp_all add: drop_nth_def)

lemma filter_update:
  "i < length xs \<Longrightarrow> length (filter P (xs[i := y])) + (if P (xs ! i) then 1 else 0) =
     length (filter P xs) + (if P y then 1 else 0)"
  by (subst (3) id_take_nth_drop [of i xs]) (simp_all add: upd_conv_take_nth_drop)

definition quiet :: "'h ws_system \<Rightarrow> bool" where
  "quiet s \<longleftrightarrow> ws_inv s \<and> wy_stop s = StopReturned"

lemma quiet_facts:
  assumes "quiet s"
  shows "wy_loop s = LoopReturned" "wy_conn s = None" "c < wy_opened s \<Longrightarrow> c \<in> wy_closed s"
    "PingHolds c \<in> set (wy_pings s) \<Longrightarrow> c \<in> wy_closed s"
  using assms by (auto simp: quiet_def ws_inv_def unconnected_def)

lemma quiet_step:
  assumes "ws_step om s l t" "quiet s"
  shows "quiet t \<and> wy_handler t = wy_handler s \<and> wy_opened t = wy_opened s \<and> wy_closed t = wy_closed s \<and> after_stop s l \<and>
    pinging t + (case l of Pinged c ok \<Rightarrow> 1 | _ \<Rightarrow> 0) \<le> pinging s"
proof -
  note q = quiet_facts [OF assms(2)]
  have q': "wy_stop s = StopReturned" "quiet t" if "wy_stop t = wy_stop s"
    using that assms(2) ws_step_inv [OF assms(1)] by (simp_all add: quiet_def)
  note f = filter_drop_nth [of _ "wy_pings s" holding] filter_update [of _ "wy_pings s" holding]
  have st: "wy_stop s = StopReturned" using assms(2) by (simp add: quiet_def)
  have mem: "c \<in> wy_closed s" if "i < length (wy_pings s)" "wy_pings s ! i = PingHolds c" for i c
    using q(4) nth_mem [OF that(1)] that(2) by simp
  from assms(1) show ?thesis
  proof cases
    case (ping_done i)
    then show ?thesis using f(1) [of i] q' by (simp add: after_stop_def pinging_def)
  next
    case (ping_no_conn i)
    then show ?thesis using f(1) [of i] q' by (simp add: after_stop_def pinging_def)
  next
    case (ping_ok i c)
    then show ?thesis using f(2) [of i PingWaits] q' mem [of i c] by (simp add: after_stop_def pinging_def)
  next
    case (ping_fails i c)
    then show ?thesis using f(2) [of i PingCloses] q' mem [of i c] by (simp add: after_stop_def pinging_def)
  next
    case (ping_closes i)
    then show ?thesis using f(1) [of i] q' q(2) by (simp add: after_stop_def pinging_def)
  next
    case context_cancelled
    then show ?thesis using q' by (simp add: after_stop_def pinging_def)
  qed (simp_all add: q st)
qed

lemma quiet_steps:
  assumes "ws_steps om s ms t" "quiet s"
  shows "quiet t \<and> wy_handler t = wy_handler s \<and> wy_opened t = wy_opened s \<and> wy_closed t = wy_closed s \<and>
    list_all (after_stop s) ms \<and> pinging t + pings_of ms \<le> pinging s"
  using assms
proof (induction rule: ws_steps.induct)
  case (further s ms t l u)
  then show ?case using quiet_step [OF further(2)] by (auto simp: after_stop_def split: ws_label.splits)
qed simp

text \<open>C14. When \<open>Stop\<close> has returned, the worker makes no more use of the network: every connection it ever
  dialled is closed, and whatever the remaining ping goroutines do, nothing is dialled, no connection is
  stored, and neither \<open>OnConnect\<close> nor \<open>OnMessage\<close> is called. \<open>OnPing\<close> is called at most once for
  each goroutine that had read the connection before, and only with a closed connection.\<close>

theorem stop_silences_worker:
  assumes "ws_steps om (ws_start h) ls s" "wy_stop s = StopReturned" "ws_steps om s ms t"
  shows "(\<forall>c < wy_opened s. c \<in> wy_closed s) \<and> wy_handler t = wy_handler s \<and> wy_opened t = wy_opened s \<and> wy_conn t = None \<and>
    (\<forall>l \<in> set ms. l = Silent \<or> l = Cancelled \<or> (\<exists>c ok. l = Pinged c ok \<and> c \<in> wy_closed s)) \<and> pings_of ms \<le> pinging s"
proof -
  have q: "quiet s" using ws_steps_inv [OF assms(1) ws_start_inv] assms(2) by (simp add: quiet_def)
  have l: "l = Silent \<or> l = Cancelled \<or> (\<exists>c ok. l = Pinged c ok \<and> c \<in> wy_closed s)" if "after_stop s l" for l
    using that by (cases l) (simp_all add: after_stop_def)
  note t = quiet_steps [OF assms(3) q]
  then have "\<forall>l \<in> set ms. l = Silent \<or> l = Cancelled \<or> (\<exists>c ok. l = Pinged c ok \<and> c \<in> wy_closed s)"
    using l by (simp add: list_all_iff)
  moreover have "wy_conn t = None" using t quiet_facts(2) by blast
  ultimately show ?thesis using t quiet_facts(3) [OF q] by simp
qed

section \<open>Runs\<close>

text \<open>Connecting from the top of the loop, and losing the connection again.\<close>

definition connected_state :: "'h ws_system \<Rightarrow> 'h ws_system" where
  "connected_state s =
     s\<lparr>wy_opened := wy_opened s + 1, wy_conn := Some (wy_opened s), wy_pings := wy_pings s @ [PingWaits],
       wy_retry := 0, wy_loop := InProcess\<rparr>"

lemma ws_steps_snoc: "ws_steps om s ls t \<Longrightarrow> ws_step om t l u \<Longrightarrow> ms = ls @ [l] \<Longrightarrow> ws_steps om s ms u"
  by (simp add: ws_steps.further)

lemma ws_connects:
  assumes "wy_loop s = AtTop" "\<not> wy_cancelled s"
  shows "ws_steps om s [Silent, Dialed (wy_opened s), Silent, Connected] (connected_state s)"
proof -
  let ?a = "s\<lparr>wy_loop := Dialling\<rparr>"
  let ?b = "?a\<lparr>wy_loop := Dialled (wy_opened ?a), wy_opened := wy_opened ?a + 1\<rparr>"
  let ?c = "?b\<lparr>wy_conn := Some (wy_opened ?a), wy_loop := Subscribing\<rparr>"
  have "ws_steps om s [Silent] ?a"
    by (rule ws_steps_snoc [OF ws_steps.here ws_step.top_dial]) (use assms in simp_all)
  then have "ws_steps om s [Silent, Dialed (wy_opened ?a)] ?b" by (rule ws_steps_snoc [OF _ ws_step.dial_succeeds]) simp_all
  then have "ws_steps om s [Silent, Dialed (wy_opened ?a), Silent] ?c" by (rule ws_steps_snoc [OF _ ws_step.install]) simp_all
  then have "ws_steps om s [Silent, Dialed (wy_opened ?a), Silent, Connected]
      (?c\<lparr>wy_pings := wy_pings ?c @ [PingWaits], wy_retry := 0, wy_loop := InProcess\<rparr>)"
    by (rule ws_steps_snoc [OF _ ws_step.subscribed]) simp_all
  then show ?thesis by (simp add: connected_state_def)
qed

definition receive_labels :: "nat \<Rightarrow> ws_msg list \<Rightarrow> ws_label list" where
  "receive_labels c msgs = concat (map (\<lambda>msg. [Silent, Frame c msg]) msgs)"

lemma ws_receives:
  assumes "wy_loop s = InProcess" "wy_conn s = Some c"
  shows "ws_steps om s (receive_labels c msgs) (s\<lparr>wy_handler := fold om msgs (wy_handler s)\<rparr>)"
  using assms
proof (induction msgs arbitrary: s)
  case Nil
  have "s\<lparr>wy_handler := fold om [] (wy_handler s)\<rparr> = s" by simp
  then show ?case using ws_steps.here [of om s] by (simp add: receive_labels_def)
next
  case (Cons m msgs)
  let ?a = "s\<lparr>wy_loop := Reading c\<rparr>" and ?b = "s\<lparr>wy_handler := om m (wy_handler s)\<rparr>"
  have "ws_steps om s [Silent] ?a" by (rule ws_steps_snoc [OF ws_steps.here ws_step.has_conn]) (use Cons.prems in simp_all)
  then have "ws_steps om s [Silent, Frame c m] (?a\<lparr>wy_handler := om m (wy_handler ?a), wy_loop := InProcess\<rparr>)"
    by (rule ws_steps_snoc [OF _ ws_step.message]) simp_all
  moreover have "?a\<lparr>wy_handler := om m (wy_handler ?a), wy_loop := InProcess\<rparr> = ?b"
    using Cons.prems(1) by (cases s) simp
  ultimately have "ws_steps om s [Silent, Frame c m] ?b" by simp
  moreover have "ws_steps om ?b (receive_labels c msgs) (?b\<lparr>wy_handler := fold om msgs (wy_handler ?b)\<rparr>)"
    by (rule Cons.IH) (use Cons.prems in simp_all)
  ultimately show ?case using ws_steps_trans [of om ?b _ _ s "[Silent, Frame c m]"] by (fastforce simp: receive_labels_def)
qed

lemma ws_loses_connection:
  assumes "wy_loop s = InProcess" "wy_conn s = Some c"
  shows "ws_steps om s [Silent, SessionEnded] ((close_conn s)\<lparr>wy_loop := AtTop\<rparr>)"
proof -
  have "ws_steps om s [Silent] (s\<lparr>wy_loop := Reading c\<rparr>)"
    by (rule ws_steps_snoc [OF ws_steps.here ws_step.has_conn]) (use assms in simp_all)
  then have "ws_steps om s [Silent, SessionEnded] ((close_conn (s\<lparr>wy_loop := Reading c\<rparr>))\<lparr>wy_loop := AtTop\<rparr>)"
    by (rule ws_steps_snoc [OF _ ws_step.read_fails]) simp_all
  then show ?thesis using assms by (simp add: close_conn_def)
qed

definition count_message :: "ws_msg \<Rightarrow> nat \<Rightarrow> nat" where
  "count_message msg n = n + 1"

text \<open>A failed dial, a session with two frames, and another failed dial.\<close>

theorem ws_worker_refines_loop_witness:
  "\<exists>ls s. ws_steps count_message (ws_start (0 :: nat)) ls s \<and> rounds_of ls = ([DialFails, Session [Pong, NotJson], DialFails], []) \<and>
    wy_handler s = 2 \<and> wy_delays s = [CalculateBackoff 0, CalculateBackoff 0]"
proof -
  let ?om = count_message
  let ?s0 = "ws_start (0 :: nat)"
  let ?s1 = "(attempt_failed (?s0\<lparr>wy_loop := Dialling\<rparr>))\<lparr>wy_loop := AtTop\<rparr>"
  let ?s2 = "connected_state ?s1"
  let ?s3 = "?s2\<lparr>wy_handler := fold ?om [Pong, NotJson] (wy_handler ?s2)\<rparr>"
  let ?s4 = "(close_conn ?s3)\<lparr>wy_loop := AtTop\<rparr>"
  let ?s5 = "attempt_failed (?s4\<lparr>wy_loop := Dialling\<rparr>)"
  let ?l2 = "[Silent, DialFailed, Silent] @ [Silent, Dialed (wy_opened ?s1), Silent, Connected]"
  let ?l4 = "(?l2 @ receive_labels 0 [Pong, NotJson]) @ [Silent, SessionEnded]"
  have i: "wy_loop ?s0 = AtTop" "\<not> wy_cancelled ?s0" "wy_conn ?s2 = Some 0" "wy_loop ?s2 = InProcess"
    by (simp_all add: ws_start_def connected_state_def)
  have "ws_steps ?om ?s0 [Silent] (?s0\<lparr>wy_loop := Dialling\<rparr>)"
    by (rule ws_steps_snoc [OF ws_steps.here ws_step.top_dial]) (use i in simp_all)
  then have "ws_steps ?om ?s0 [Silent, DialFailed] (attempt_failed (?s0\<lparr>wy_loop := Dialling\<rparr>))"
    by (rule ws_steps_snoc [OF _ ws_step.dial_fails]) simp_all
  then have "ws_steps ?om ?s0 [Silent, DialFailed, Silent] ?s1" by (rule ws_steps_snoc [OF _ ws_step.sleep_over]) simp_all
  then have "ws_steps ?om ?s0 ?l2 ?s2" by (rule ws_steps_trans [rotated]) (rule ws_connects, use i in simp_all)
  then have "ws_steps ?om ?s0 (?l2 @ receive_labels 0 [Pong, NotJson]) ?s3"
    by (rule ws_steps_trans [rotated]) (rule ws_receives, use i in simp_all)
  then have "ws_steps ?om ?s0 ?l4 ?s4" by (rule ws_steps_trans [rotated]) (rule ws_loses_connection, use i in simp_all)
  then have "ws_steps ?om ?s0 (?l4 @ [Silent]) (?s4\<lparr>wy_loop := Dialling\<rparr>)"
    by (rule ws_steps_snoc [OF _ ws_step.top_dial]) (simp_all add: i connected_state_def)
  then have run: "ws_steps ?om ?s0 (?l4 @ [Silent, DialFailed]) ?s5"
    by (rule ws_steps_snoc [OF _ ws_step.dial_fails]) simp_all
  have r: "rounds_of (?l4 @ [Silent, DialFailed]) = ([DialFails, Session [Pong, NotJson], DialFails], [])"
    by (simp add: rounds_of_def note_label_def receive_labels_def)
  from ws_worker_refines_loop [OF run r] have
    "wy_handler ?s5 = 2" "wy_delays ?s5 = [CalculateBackoff 0, CalculateBackoff 0]"
    by (simp_all only: runLoop.simps NewBaseWSWorker_def)
      (simp_all add: ws_connect_def ws_process_def ws_close_def count_message_def)
  then show ?thesis using run r by blast
qed

text \<open>A worker whose ping goroutine has read the connection when \<open>Stop\<close> runs.\<close>

lemma stop_during_ping:
  "\<exists>ls s. ws_steps om (ws_start h) ls s \<and> wy_stop s = StopReturned \<and> wy_opened s = 1 \<and> wy_pings s = [PingHolds 0]"
proof -
  let ?a = "connected_state (ws_start h)"
  let ?p = "?a\<lparr>wy_pings := (wy_pings ?a)[0 := PingHolds 0]\<rparr>"
  let ?b = "?p\<lparr>wy_cancelled := True, wy_stop := CancelDone\<rparr>"
  let ?c = "(close_conn ?b)\<lparr>wy_stop := StopWaits\<rparr>"
  let ?e = "?c\<lparr>wy_loop := AtTop\<rparr>\<lparr>wy_loop := LoopReturned\<rparr>"
  let ?f = "?e\<lparr>wy_stop := StopReturned\<rparr>"
  have a: "wy_loop ?a = InProcess" "wy_stop ?a = NotStopping" "wy_opened ?a = 1" "wy_conn ?a = Some 0" "wy_pings ?a = [PingWaits]"
    by (simp_all add: connected_state_def ws_start_def)
  have "\<exists>ls. ws_steps om (ws_start h) ls ?a" by (rule exI, rule ws_connects) (simp_all add: ws_start_def)
  then have "\<exists>ls. ws_steps om (ws_start h) ls ?p"
    by (elim exE) (rule exI, erule ws_steps.further, rule ws_step.ping_tick, simp_all add: a)
  then have "\<exists>ls. ws_steps om (ws_start h) ls ?b"
    by (elim exE) (rule exI, erule ws_steps.further, rule ws_step.stop_cancels, simp add: a)
  then have "\<exists>ls. ws_steps om (ws_start h) ls ?c"
    by (elim exE) (rule exI, erule ws_steps.further, rule ws_step.stop_closes, simp)
  then have "\<exists>ls. ws_steps om (ws_start h) ls (?c\<lparr>wy_loop := AtTop\<rparr>)"
    by (elim exE) (rule exI, erule ws_steps.further, rule ws_step.no_conn, simp_all add: a)
  then have "\<exists>ls. ws_steps om (ws_start h) ls ?e"
    by (elim exE) (rule exI, erule ws_steps.further, rule ws_step.top_done, simp_all)
  then have "\<exists>ls. ws_steps om (ws_start h) ls ?f"
    by (elim exE) (rule exI, erule ws_steps.further, rule ws_step.stop_returns, simp_all)
  moreover have "wy_stop ?f = StopReturned" "wy_opened ?f = 1" "wy_pings ?f = [PingHolds 0]" by (simp_all add: a)
  ultimately show ?thesis by blast
qed

text \<open>\<open>OnPing\<close> can be called after \<open>Stop\<close> has returned: \<open>Stop\<close> waits for the connection loop, not for
  the ping goroutines.\<close>

lemma ping_after_stop:
  "\<exists>ls s t. ws_steps om (ws_start h) ls s \<and> wy_stop s = StopReturned \<and> ws_step om s (Pinged 0 False) t"
proof -
  obtain ls s where s: "ws_steps om (ws_start h) ls s" "wy_stop s = StopReturned" "wy_pings s = [PingHolds 0]"
    using stop_during_ping [of om h] by blast
  have "ws_step om s (Pinged 0 False) (s\<lparr>wy_pings := (wy_pings s)[0 := PingCloses]\<rparr>)"
    by (rule ws_step.ping_fails) (simp_all add: s(3))
  then show ?thesis using s by blast
qed

theorem stop_silences_worker_witness:
  "\<exists>ls s t. ws_steps count_message (ws_start (0 :: nat)) ls s \<and> wy_stop s = StopReturned \<and>
    ws_steps count_message s [Pinged 0 False] t \<and> 0 \<in> wy_closed s \<and> wy_handler t = wy_handler s \<and> wy_conn t = None \<and> pinging s = 1"
proof -
  let ?om = count_message
  obtain ls s where s: "ws_steps ?om (ws_start 0) ls s" "wy_stop s = StopReturned" "wy_opened s = 1" "wy_pings s = [PingHolds 0]"
    using stop_during_ping [of ?om 0] by blast
  let ?t = "s\<lparr>wy_pings := (wy_pings s)[0 := PingCloses]\<rparr>"
  have t: "ws_steps ?om s [Pinged 0 False] ?t"
    by (rule ws_steps_snoc [OF ws_steps.here ws_step.ping_fails]) (simp_all add: s(4))
  have "pinging s = 1" by (simp add: pinging_def s(4))
  with stop_silences_worker [OF s(1,2) t] s(1,2,3) t show ?thesis
    by (intro exI [of _ ls] exI [of _ s] exI [of _ ?t]) simp
qed

section \<open>What goes wrong\<close>

text \<open>C38. \<open>Stop\<close> can wait for ever: when it runs between a successful dial and the moment the connection
  is stored, its \<open>close\<close> finds nothing to close; the loop then subscribes and reads for as long as
  messages arrive, because \<open>process\<close> does not look at the context, and every message still
  reaches the handler.\<close>

theorem stop_can_wait_forever:
  "\<exists>ls s. ws_steps om (ws_start h) ls s \<and> wy_stop s = StopWaits \<and>
    (\<forall>msgs. \<exists>ms t. ws_steps om s ms t \<and> frames_of ms = msgs \<and> wy_handler t = fold om msgs (wy_handler s) \<and> wy_stop t = StopWaits \<and>
       wy_loop t \<noteq> LoopReturned)"
proof -
  let ?a = "(ws_start h)\<lparr>wy_loop := Dialling\<rparr>"
  let ?b = "?a\<lparr>wy_loop := Dialled 0, wy_opened := 1\<rparr>"
  let ?c = "?b\<lparr>wy_cancelled := True, wy_stop := CancelDone\<rparr>"
  let ?d = "(close_conn ?c)\<lparr>wy_stop := StopWaits\<rparr>"
  let ?e = "?d\<lparr>wy_conn := Some 0, wy_loop := Subscribing\<rparr>"
  let ?s = "?e\<lparr>wy_pings := wy_pings ?e @ [PingWaits], wy_retry := 0, wy_loop := InProcess\<rparr>"
  have "ws_steps om (ws_start h) [Silent] ?a"
    by (rule ws_steps_snoc [OF ws_steps.here ws_step.top_dial]) (simp_all add: ws_start_def)
  then have "ws_steps om (ws_start h) [Silent, Dialed 0] (?a\<lparr>wy_loop := Dialled (wy_opened ?a), wy_opened := wy_opened ?a + 1\<rparr>)"
    by (rule ws_steps_snoc [OF _ ws_step.dial_succeeds]) (simp_all add: ws_start_def)
  then have "ws_steps om (ws_start h) [Silent, Dialed 0] ?b" by (simp add: ws_start_def)
  then have "ws_steps om (ws_start h) [Silent, Dialed 0, StopCancels] ?c"
    by (rule ws_steps_snoc [OF _ ws_step.stop_cancels]) (simp_all add: ws_start_def)
  then have "ws_steps om (ws_start h) [Silent, Dialed 0, StopCancels, StopCloses] ?d"
    by (rule ws_steps_snoc [OF _ ws_step.stop_closes]) simp_all
  then have "ws_steps om (ws_start h) [Silent, Dialed 0, StopCancels, StopCloses, Silent] ?e"
    by (rule ws_steps_snoc [OF _ ws_step.install]) simp_all
  then have s: "ws_steps om (ws_start h) [Silent, Dialed 0, StopCancels, StopCloses, Silent, Connected] ?s"
    by (rule ws_steps_snoc [OF _ ws_step.subscribed]) simp_all
  have f: "frames_of (receive_labels 0 msgs) = msgs" for msgs
    by (induction msgs) (simp_all add: frames_of_def receive_labels_def)
  have "\<exists>ms t. ws_steps om ?s ms t \<and> frames_of ms = msgs \<and> wy_handler t = fold om msgs (wy_handler ?s) \<and> wy_stop t = StopWaits \<and>
    wy_loop t \<noteq> LoopReturned" for msgs
    by (intro exI conjI, rule ws_receives [of _ 0], simp_all add: f)
  then show ?thesis using s by (intro exI [of _ "[Silent, Dialed 0, StopCancels, StopCloses, Silent, Connected]"] exI [of _ ?s]) simp
qed

text \<open>Ping goroutines pile up: a goroutine looks for a lost connection only when its ticker fires, and by
  then a new connection may be stored, which it takes for its own. After \<open>n\<close> quick reconnects
  \<open>n\<close> goroutines ping the same connection.\<close>

lemma ping_goroutines_pile_up:
  "\<exists>ls s. ws_steps om (ws_start h) ls s \<and> wy_loop s = AtTop \<and> \<not> wy_cancelled s \<and> wy_pings s = replicate n PingWaits"
proof (induction n)
  case 0
  show ?case by (intro exI [of _ "[]"] exI [of _ "ws_start h"]) (simp add: ws_start_def ws_steps.here)
next
  case (Suc n)
  then obtain ls s where s: "ws_steps om (ws_start h) ls s" "wy_loop s = AtTop" "\<not> wy_cancelled s" "wy_pings s = replicate n PingWaits"
    by blast
  let ?c = "connected_state s" and ?t = "(close_conn (connected_state s))\<lparr>wy_loop := AtTop\<rparr>"
  have "ws_steps om ?c [Silent, SessionEnded] ?t" by (rule ws_loses_connection) (simp_all add: connected_state_def)
  from ws_steps_trans [OF this ws_steps_trans [OF ws_connects [OF s(2,3)] s(1)]]
  obtain ms where "ws_steps om (ws_start h) ms ?t" by blast
  then show ?case using s(3,4)
    by (intro exI [of _ ms] exI [of _ ?t]) (simp add: connected_state_def replicate_append_same)
qed

lemma pings_on_one_connection:
  "\<exists>ls s. ws_steps om (ws_start h) ls s \<and> wy_conn s \<noteq> None \<and> length (wy_pings s) = n + 1"
proof -
  obtain ls s where s: "ws_steps om (ws_start h) ls s" "wy_loop s = AtTop" "\<not> wy_cancelled s" "wy_pings s = replicate n PingWaits"
    using ping_goroutines_pile_up [of om h n] by (elim exE conjE)
  from ws_steps_trans [OF ws_connects [OF s(2,3)] s(1)] obtain ms where "ws_steps om (ws_start h) ms (connected_state s)" by blast
  then show ?thesis by (intro exI [of _ ms] exI [of _ "connected_state s"]) (simp add: connected_state_def s(4))
qed

end
