(* ===== verification/Gateways.thy ===== *)
theory Gateways
  imports Ws_Worker
begin

text \<open>
  The gateway workers around their message handlers: constructors, identifiers and addresses, the
  subscription sent after connecting and the ping; \<open>Connect\<close> and \<open>Disconnect\<close> are the
  \<open>Start\<close> and \<open>Stop\<close> of theory \<open>Ws_Worker\<close>
  (\<open>internal/infra/upbit/upbit_worker.go\<close>, \<open>internal/infra/bitget/spot_worker.go\<close>,
  \<open>futures_worker.go\<close>, \<open>bitget_types.go\<close>). A message written to the socket is its JSON value.
\<close>

section \<open>Upbit\<close>

definition upbit_NewWorker :: "string list \<Rightarrow> event list \<Rightarrow> nat \<Rightarrow> u64 \<Rightarrow> string list feed base_ws" where
  "upbit_NewWorker symbols inbox cap seq =
     NewBaseWSWorker \<lparr>fd_symbols = symbols, fd_seq = seq, fd_inbox = inbox, fd_cap = cap\<rparr>"

text \<open>\<open>Connect\<close> starts the connection loop of a new worker, for every worker alike.\<close>

definition Connect_worker :: "'h base_ws \<Rightarrow> 'h ws_system" where
  "Connect_worker w = ws_start (ws_handler w)"

definition upbit_ID :: string where
  "upbit_ID = ''UPBIT''"

definition upbit_GetURL :: "(string \<Rightarrow> string) \<Rightarrow> string" where
  "upbit_GetURL getenv =
     (let override = getenv ''TEST_UPBIT_WS_URL''
      in if override \<noteq> [] then override else ''wss://api.upbit.com/websocket/v1'')"

text \<open>The subscription; \<open>json.Marshal\<close> sorts the keys of a map.\<close>

definition upbit_subscription :: "i64 \<Rightarrow> string list feed \<Rightarrow> json" where
  "upbit_subscription nowUnixNano w =
     JArr [JObj [(''ticket'', json_string (''go-'' @ fmt_d (sint nowUnixNano)))],
           JObj [(''codes'', JArr (map json_string (upbit_codes w))), (''type'', JStr ''ticker'')]]"

text \<open>\<open>OnConnect\<close>: what was written and the error. \<open>conn\<close> says whether \<open>Write\<close> found a connection.\<close>

definition ws_send :: "bool \<Rightarrow> bool \<Rightarrow> 'm \<Rightarrow> 'm list \<times> ws_error option" where
  "ws_send conn accepted msg =
     (if \<not> conn then ([], Some WsNotConnected) else if accepted then ([msg], None) else ([], Some WsWriteFailed))"

definition upbit_OnConnect :: "i64 \<Rightarrow> bool \<Rightarrow> bool \<Rightarrow> string list feed \<Rightarrow> json list \<times> ws_error option" where
  "upbit_OnConnect nowUnixNano conn accepted w = ws_send conn accepted (upbit_subscription nowUnixNano w)"

definition upbit_OnPing :: "ws_error option" where
  "upbit_OnPing = None"

section \<open>Bitget\<close>

definition NewSpotWorker ::
  "(string \<times> string) list \<Rightarrow> event list \<Rightarrow> nat \<Rightarrow> u64 \<Rightarrow> (string \<times> string) list feed base_ws" where
  "NewSpotWorker symbols inbox cap seq =
     NewBaseWSWorker \<lparr>fd_symbols = symbols, fd_seq = seq, fd_inbox = inbox, fd_cap = cap\<rparr>"

definition NewFuturesWorker ::
  "(string \<times> string) list \<Rightarrow> event list \<Rightarrow> nat \<Rightarrow> u64 \<Rightarrow> (string \<times> string) list feed base_ws" where
  "NewFuturesWorker symbols inbox cap seq =
     NewBaseWSWorker \<lparr>fd_symbols = symbols, fd_seq = seq, fd_inbox = inbox, fd_cap = cap\<rparr>"

definition spot_ID :: string where
  "spot_ID = ''BITGET_SPOT''"

definition futures_ID :: string where
  "futures_ID = ''BITGET_FUTURES''"

definition spotWSURL :: string where
  "spotWSURL = ''wss://ws.bitget.com/v2/ws/public''"

definition futuresWSURL :: string where
  "futuresWSURL = ''wss://ws.bitget.com/v2/ws/public''"

record subscribe_request =
  sr_Op :: string
  sr_Args :: "subscribe_arg list"

definition Marshal_subscribe_arg :: "subscribe_arg \<Rightarrow> json" where
  "Marshal_subscribe_arg a =
     JObj [(''instType'', json_string (sa_InstType a)), (''channel'', json_string (sa_Channel a)),
           (''instId'', json_string (sa_InstId a))]"

definition Marshal_subscribe_request :: "subscribe_request \<Rightarrow> json" where
  "Marshal_subscribe_request r =
     JObj [(''op'', json_string (sr_Op r)), (''args'', JArr (map Marshal_subscribe_arg (sr_Args r)))]"

definition spot_OnConnect :: "bool \<Rightarrow> bool \<Rightarrow> (string \<times> string) list feed \<Rightarrow> json list \<times> ws_error option" where
  "spot_OnConnect conn accepted w =
     ws_send conn accepted (Marshal_subscribe_request \<lparr>sr_Op = ''subscribe'', sr_Args = subscribe_args ''SPOT'' w\<rparr>)"

definition futures_OnConnect :: "bool \<Rightarrow> bool \<Rightarrow> (string \<times> string) list feed \<Rightarrow> json list \<times> ws_error option" where
  "futures_OnConnect conn accepted w =
     ws_send conn accepted (Marshal_subscribe_request \<lparr>sr_Op = ''subscribe'', sr_Args = subscribe_args ''USDT-FUTURES'' w\<rparr>)"

text \<open>The ping is the text \<open>ping\<close>, which is not JSON.\<close>

definition bitget_OnPing :: "bool \<Rightarrow> bool \<Rightarrow> string list \<times> ws_error option" where
  "bitget_OnPing conn accepted = ws_send conn accepted ''ping''"

section \<open>Tickers of a Bitget message\<close>

lemma findSymbol_known:
  assumes "(s, i) \<in> set symbols" "distinct (map snd symbols)"
  shows "findSymbol i symbols = s"
  using assms
proof (induction symbols)
  case (Cons p ps)
  show ?case
  proof (cases "snd p = i")
    case True
    have "(s, i) \<notin> set ps" using Cons.prems(2) True by (metis distinct.simps(2) image_eqI list.set_map list.simps(9) snd_conv)
    then have "p = (s, i)" using Cons.prems(1) by auto
    then show ?thesis by (simp add: findSymbol_def)
  next
    case False
    then have "findSymbol i (p # ps) = findSymbol i ps" by (cases p) (simp add: findSymbol_def)
    then show ?thesis using Cons False by auto
  qed
qed simp

text \<open>A quote of the exchange: symbol, instrument, and the digits of the price and of the two volumes it
  carries.\<close>

record quote =
  qt_symbol :: string
  qt_inst :: string
  qt_price :: "string \<times> string"
  qt_baseVolume :: "string \<times> string"
  qt_volume24h :: "string \<times> string"

definition amount_ok :: "nat \<Rightarrow> string \<times> string \<Rightarrow> bool" where
  "amount_ok k x \<longleftrightarrow>
     digits (fst x) \<and> digits (snd x) \<and> snd x \<noteq> [] \<and> scaled k (fst x) (snd x) \<le> 9223372036854775807"

definition quote_ok :: "(string \<times> string) list \<Rightarrow> quote \<Rightarrow> bool" where
  "quote_ok symbols q \<longleftrightarrow>
     (qt_symbol q, qt_inst q) \<in> set symbols \<and> qt_symbol q \<noteq> [] \<and>
     amount_ok 6 (qt_price q) \<and> amount_ok 8 (qt_baseVolume q) \<and> amount_ok 8 (qt_volume24h q)"

definition quote_data :: "quote \<Rightarrow> ticker_data" where
  "quote_data q =
     \<lparr>td_InstId = qt_inst q, td_LastPr = decimal False (fst (qt_price q)) (snd (qt_price q)),
      td_BaseVolume = decimal False (fst (qt_baseVolume q)) (snd (qt_baseVolume q)),
      td_Volume24h = decimal False (fst (qt_volume24h q)) (snd (qt_volume24h q))\<rparr>"

definition quote_json :: "quote \<Rightarrow> json" where
  "quote_json q =
     JObj [(''instId'', JStr (td_InstId (quote_data q))), (''lastPr'', JStr (td_LastPr (quote_data q))),
           (''baseVolume'', JStr (td_BaseVolume (quote_data q))), (''volume24h'', JStr (td_Volume24h (quote_data q)))]"

definition quotes_message :: "i64 \<Rightarrow> quote list \<Rightarrow> ws_msg" where
  "quotes_message ts qs =
     JsonMsg (JObj [(''action'', JStr ''snapshot''),
       (''arg'', JObj [(''instType'', JStr ''SPOT''), (''channel'', JStr ''ticker''), (''instId'', JStr ''default'')]),
       (''data'', JArr (map quote_json qs)), (''ts'', json_int64 ts)])"

definition quote_event :: "(quote \<Rightarrow> string \<times> string) \<Rightarrow> string \<Rightarrow> i64 \<Rightarrow> u64 \<Rightarrow> quote \<Rightarrow> market_update" where
  "quote_event vol exchange ts seq q =
     \<lparr>mu_Seq = seq, mu_Ts = ts * 1000, mu_Symbol = qt_symbol q,
      mu_PriceMicros = of_nat (scaled 6 (fst (qt_price q)) (snd (qt_price q))),
      mu_QtySats = of_nat (scaled 8 (fst (vol q)) (snd (vol q))), mu_Exchange = exchange\<rparr>"

text \<open>The field of the message a worker reads and the volume of the quote that it holds.\<close>

definition volume_field :: "(ticker_data \<Rightarrow> string) \<Rightarrow> (quote \<Rightarrow> string \<times> string) \<Rightarrow> bool" where
  "volume_field volume vol \<longleftrightarrow>
     (\<forall>q. volume (quote_data q) = decimal False (fst (vol q)) (snd (vol q))) \<and>
     (\<forall>symbols q. quote_ok symbols q \<longrightarrow> amount_ok 8 (vol q))"

lemma volume_fields [simp]: "volume_field td_BaseVolume qt_baseVolume" "volume_field td_Volume24h qt_volume24h"
  by (simp_all add: volume_field_def quote_data_def quote_ok_def)

lemma Unmarshal_quote: "Unmarshal ticker_data_fields (quote_json q) zero_ticker_data = Some (quote_data q)"
  by (simp add: quote_json_def quote_data_def Unmarshal_def ticker_data_fields_def zero_ticker_data_def find_field_def set_string_def)

lemma Unmarshal_quotes:
  "Unmarshal bitget_ticker_fields
     (JObj [(''action'', JStr ''snapshot''),
       (''arg'', JObj [(''instType'', JStr ''SPOT''), (''channel'', JStr ''ticker''), (''instId'', JStr ''default'')]),
       (''data'', JArr (map quote_json qs)), (''ts'', json_int64 ts)]) zero_bitget_ticker =
   Some \<lparr>bt_Action = ''snapshot'', bt_Arg = \<lparr>sa_InstType = ''SPOT'', sa_Channel = ''ticker'', sa_InstId = ''default''\<rparr>,
     bt_Data = map quote_data qs, bt_Ts = ts\<rparr>"
proof -
  let ?a = "JObj [(''instType'', JStr ''SPOT''), (''channel'', JStr ''ticker''), (''instId'', JStr ''default'')]"
  have "Unmarshal subscribe_arg_fields ?a zero_subscribe_arg =
    Some \<lparr>sa_InstType = ''SPOT'', sa_Channel = ''ticker'', sa_InstId = ''default''\<rparr>"
    by (simp add: Unmarshal_def subscribe_arg_fields_def zero_subscribe_arg_def find_field_def set_string_def)
  then have "set_struct subscribe_arg_fields bt_Arg upd ?a r =
      Some (upd \<lparr>sa_InstType = ''SPOT'', sa_Channel = ''ticker'', sa_InstId = ''default''\<rparr> r)"
    if "bt_Arg r = zero_subscribe_arg" for upd and r :: bitget_ticker using that by (simp add: set_struct_def)
  moreover have "set_structs ticker_data_fields zero_ticker_data upd (JArr (map quote_json qs)) r = Some (upd (map quote_data qs) r)"
    for upd and r :: bitget_ticker by (auto simp: set_structs_def Let_def Unmarshal_quote comp_def)
  ultimately show ?thesis
    by (simp add: Unmarshal_def bitget_ticker_fields_def zero_bitget_ticker_def find_field_def set_string_def)
qed

text \<open>The loop offers one event for each quote.\<close>

lemma ticker_loop_quotes:
  assumes "\<forall>q \<in> set qs. quote_ok (fd_symbols w) q" "distinct (map snd (fd_symbols w))"
    and "length (fd_inbox w) + length qs \<le> fd_cap w" "volume_field volume vol"
  shows "ticker_loop volume exchange (ts * 1000) (map quote_data qs) w =
    w\<lparr>fd_seq := fd_seq w + of_nat (length qs),
      fd_inbox := fd_inbox w @ map (\<lambda>i. MarketUpdate (quote_event vol exchange ts (fd_seq w + of_nat i + 1) (qs ! i))) [0..<length qs]\<rparr>"
  using assms
proof (induction qs arbitrary: w)
  case Nil
  then show ?case by simp
next
  case (Cons q qs)
  have q: "quote_ok (fd_symbols w) q" using Cons.prems(1) by simp
  have sm: "findSymbol (td_InstId (quote_data q)) (fd_symbols w) = qt_symbol q"
    using findSymbol_known [of "qt_symbol q" "qt_inst q"] q Cons.prems(2) by (simp add: quote_ok_def quote_data_def)
  have p: "ToPriceMicrosStr (td_LastPr (quote_data q)) = of_nat (scaled 6 (fst (qt_price q)) (snd (qt_price q)))"
    using q quant_parse_decimal [of "fst (qt_price q)" "snd (qt_price q)" 6 False]
    by (simp add: quote_ok_def amount_ok_def quote_data_def ToPriceMicrosStr_def)
  have "amount_ok 8 (vol q)" "volume (quote_data q) = decimal False (fst (vol q)) (snd (vol q))"
    using q Cons.prems(4) by (auto simp: volume_field_def)
  then have v: "ToQtySatsStr (volume (quote_data q)) = of_nat (scaled 8 (fst (vol q)) (snd (vol q)))"
    using quant_parse_decimal [of "fst (vol q)" "snd (vol q)" 8 False] by (simp add: amount_ok_def ToQtySatsStr_def)
  let ?w = "w\<lparr>fd_seq := fd_seq w + 1, fd_inbox := fd_inbox w @ [MarketUpdate (quote_event vol exchange ts (fd_seq w + 1) q)]\<rparr>"
  have "ticker_loop volume exchange (ts * 1000) (map quote_data (q # qs)) w =
      ticker_loop volume exchange (ts * 1000) (map quote_data qs) ?w"
    using q Cons.prems(3) by (simp add: sm p v Let_def send_event_def quote_event_def quote_ok_def)
  also have "\<dots> = ?w\<lparr>fd_seq := fd_seq ?w + of_nat (length qs),
      fd_inbox := fd_inbox ?w @ map (\<lambda>i. MarketUpdate (quote_event vol exchange ts (fd_seq ?w + of_nat i + 1) (qs ! i))) [0..<length qs]\<rparr>"
    by (rule Cons.IH) (use Cons.prems in auto)
  also have "\<dots> = w\<lparr>fd_seq := fd_seq w + of_nat (length (q # qs)),
      fd_inbox := fd_inbox w @ map (\<lambda>i. MarketUpdate (quote_event vol exchange ts (fd_seq w + of_nat i + 1) ((q # qs) ! i))) [0..<length (q # qs)]\<rparr>"
  proof -
    have "[0..<length (q # qs)] = 0 # map Suc [0..<length qs]"
      by (simp only: list.size add_Suc_right add_0_right map_Suc_upt upt_conv_Cons zero_less_Suc)
    then show ?thesis by (simp add: comp_def algebra_simps)
  qed
  finally show ?case .
qed

text \<open>C26. A message with any number of quotes becomes that many events, in order and exact. For both
  Bitget workers, with distinct instruments and room in the inbox, the events carry consecutive
  sequence numbers, the symbols of the configuration, the prices in millionths and the volumes
  in hundred-millionths that the decimals denote, and the time in microseconds; the spot worker
  takes the volume from \<open>baseVolume\<close> and the futures worker from \<open>volume24h\<close>.\<close>

theorem bitget_quotes_become_events:
  assumes "(on_message, exchange, vol) \<in>
      {(spot_OnMessage, ''BITGET_SPOT'', qt_baseVolume), (futures_OnMessage, ''BITGET_FUTURES'', qt_volume24h)}"
    and "\<forall>q \<in> set qs. quote_ok (fd_symbols w) q" "distinct (map snd (fd_symbols w))"
    and "length (fd_inbox w) + length qs \<le> fd_cap w"
  shows "\<exists>es. on_message (quotes_message ts qs) w =
      w\<lparr>fd_seq := fd_seq w + of_nat (length qs), fd_inbox := fd_inbox w @ map MarketUpdate es\<rparr> \<and> length es = length qs \<and>
    (\<forall>i < length qs.
       mu_Seq (es ! i) = fd_seq w + of_nat i + 1 \<and> mu_Ts (es ! i) = ts * 1000 \<and> mu_Symbol (es ! i) = qt_symbol (qs ! i) \<and>
       mu_Exchange (es ! i) = exchange \<and>
       sint (mu_PriceMicros (es ! i)) = int (scaled 6 (fst (qt_price (qs ! i))) (snd (qt_price (qs ! i)))) \<and>
       sint (mu_QtySats (es ! i)) = int (scaled 8 (fst (vol (qs ! i))) (snd (vol (qs ! i)))))"
proof -
  let ?es = "map (\<lambda>i. quote_event vol exchange ts (fd_seq w + of_nat i + 1) (qs ! i)) [0..<length qs]"
  obtain volume where v: "on_message = bitget_OnMessage volume exchange" "volume_field volume vol"
  proof -
    have "spot_OnMessage = bitget_OnMessage td_BaseVolume ''BITGET_SPOT''" "futures_OnMessage = bitget_OnMessage td_Volume24h ''BITGET_FUTURES''"
      by (rule ext, rule ext, simp add: spot_OnMessage_def futures_OnMessage_def)+
    then show thesis using assms(1) that [of td_BaseVolume] that [of td_Volume24h] by auto
  qed
  have "on_message (quotes_message ts qs) w =
      (if qs = [] then w else ticker_loop volume exchange (ts * 1000) (map quote_data qs) w)"
    unfolding v(1) bitget_OnMessage_def quotes_message_def ws_msg.case Unmarshal_quotes by simp
  also have "\<dots> = w\<lparr>fd_seq := fd_seq w + of_nat (length qs), fd_inbox := fd_inbox w @ map MarketUpdate ?es\<rparr>"
    using ticker_loop_quotes [OF assms(2-4) v(2), of exchange ts] by (simp add: comp_def)
  finally have "on_message (quotes_message ts qs) w = \<dots>" .
  moreover have "\<forall>i < length qs. quote_ok (fd_symbols w) (qs ! i)" using assms(2) by simp
  then have "\<forall>i < length qs. amount_ok 6 (qt_price (qs ! i)) \<and> amount_ok 8 (vol (qs ! i))"
    using v(2) by (auto simp: volume_field_def quote_ok_def)
  ultimately show ?thesis
    using signed_scaled(1) by (intro exI [of _ ?es]) (simp add: quote_event_def amount_ok_def)
qed

theorem bitget_quotes_become_events_witness:
  "\<exists>e. fd_inbox (spot_OnMessage (quotes_message 7
        [\<lparr>qt_symbol = ''BTC'', qt_inst = ''BTCUSDT'', qt_price = (''95'', ''5''), qt_baseVolume = (''2'', ''25''),
          qt_volume24h = (''3'', ''5'')\<rparr>])
        (example_feed [(''BTC'', ''BTCUSDT'')])) = [MarketUpdate e] \<and>
     mu_Symbol e = ''BTC'' \<and> sint (mu_PriceMicros e) = 95500000 \<and> sint (mu_QtySats e) = 225000000"
proof -
  let ?q = "\<lparr>qt_symbol = ''BTC'', qt_inst = ''BTCUSDT'', qt_price = (''95'', ''5''), qt_baseVolume = (''2'', ''25''),
    qt_volume24h = (''3'', ''5'')\<rparr>"
  let ?w = "example_feed [(''BTC'', ''BTCUSDT'')]"
  have q: "\<forall>q \<in> set [?q]. quote_ok (fd_symbols ?w) q"
    by (simp add: quote_ok_def amount_ok_def example_feed_def digit_val_def scaled_def decval_def)
  obtain es where es: "spot_OnMessage (quotes_message 7 [?q]) ?w =
      ?w\<lparr>fd_seq := fd_seq ?w + of_nat (length [?q]), fd_inbox := fd_inbox ?w @ map MarketUpdate es\<rparr>" "length es = length [?q]"
    "\<forall>i < length [?q]. mu_Symbol (es ! i) = qt_symbol ([?q] ! i) \<and>
       sint (mu_PriceMicros (es ! i)) = int (scaled 6 (fst (qt_price ([?q] ! i))) (snd (qt_price ([?q] ! i)))) \<and>
       sint (mu_QtySats (es ! i)) = int (scaled 8 (fst (qt_baseVolume ([?q] ! i))) (snd (qt_baseVolume ([?q] ! i))))"
    using bitget_quotes_become_events [OF _ q, of spot_OnMessage "''BITGET_SPOT''" qt_baseVolume 7] by (auto simp: example_feed_def)
  obtain e where "es = [e]" using es(2) by (auto simp: length_Suc_conv)
  then show ?thesis using es(1,3) by (simp add: example_feed_def scaled_def decval_def digit_val_def)
qed

text \<open>What a worker subscribes to is what its handler understands: the instrument of every subscription is
  found again under its symbol.\<close>

lemma subscriptions_are_known:
  "distinct (map snd (fd_symbols w)) \<Longrightarrow> (s, i) \<in> set (fd_symbols w) \<Longrightarrow>
    \<lparr>sa_InstType = t, sa_Channel = ''ticker'', sa_InstId = i\<rparr> \<in> set (subscribe_args t w) \<and> findSymbol i (fd_symbols w) = s"
  using findSymbol_known by (fastforce simp: subscribe_args_def)

end
