(* ===== verification/Paper_Execution.thy ===== *)
theory Paper_Execution
  imports Balance Domain Strconv
begin

text \<open>
  \<open>internal/execution/paper.go\<close>: the paper-trading executor, and \<open>mock.go\<close>, the
  executor that only logs. The mutex makes each exported method one step, so a method is a
  function on the executor's state; \<open>time.Now\<close> is an argument. A method that returns an
  error value returns \<open>Some\<close> of it, \<open>None\<close> is the nil error; a panic keeps the writes
  made before it (a debit whose matching credit overflows stays).
\<close>

section \<open>State\<close>

record fill =
  fl_OrderID :: string
  fl_Symbol :: string
  fl_Side :: string
  fl_PriceMicros :: i64
  fl_QtySats :: i64
  fl_TsUnixMicros :: i64

record paper =
  pe_balances :: balance_book
  pe_orders :: "string \<rightharpoonup> order"
  pe_fills :: "fill list"
  pe_prices :: "string \<rightharpoonup> i64"

datatype exec_error =
    NoPriceAvailable string
  | InvalidSymbolFormat string
  | InsufficientBalance string i64 i64
  | OrderNotFound string
  | CannotCancelFilled string

section \<open>Operations\<close>

text \<open>\<open>p.balances.Get(symbol)\<close> followed by a method call through the pointer it returns.\<close>

definition on_balance ::
  "string \<Rightarrow> (balance \<Rightarrow> panic + balance) \<Rightarrow> paper \<Rightarrow> (paper, unit) outcome" where
  "on_balance symbol f p =
     (case Get symbol (pe_balances p) of
        (b, bb) \<Rightarrow>
          (case f b of
             Inl e \<Rightarrow> Panicked e (p\<lparr>pe_balances := bb\<rparr>)
           | Inr b' \<Rightarrow> Done () (p\<lparr>pe_balances := bb(symbol \<mapsto> b')\<rparr>)))"

definition NewPaperExecution :: "i64 \<Rightarrow> (paper, unit) outcome" where
  "NewPaperExecution initialBalance =
     on_balance ''USDT'' (Credit initialBalance 0)
       \<lparr>pe_balances = NewBalanceBook, pe_orders = Map.empty, pe_fills = [], pe_prices = Map.empty\<rparr>"

definition Deposit :: "string \<Rightarrow> i64 \<Rightarrow> paper \<Rightarrow> (paper, unit) outcome" where
  "Deposit symbol amountSats p = on_balance symbol (Credit amountSats 0) p"

definition UpdatePrice :: "string \<Rightarrow> i64 \<Rightarrow> paper \<Rightarrow> paper" where
  "UpdatePrice symbol priceMicros p = p\<lparr>pe_prices := (pe_prices p)(symbol \<mapsto> priceMicros)\<rparr>"

definition exec_price :: "order \<Rightarrow> paper \<Rightarrow> exec_error + i64" where
  "exec_price ord p =
     (if ord_Type ord = ''MARKET''
      then (case pe_prices p (ord_Symbol ord) of
              None \<Rightarrow> Inl (NoPriceAvailable (ord_Symbol ord))
            | Some price \<Rightarrow> Inr price)
      else Inr (ord_PriceMicros ord))"

definition paper_buy ::
  "string \<Rightarrow> string \<Rightarrow> i64 \<Rightarrow> i64 \<Rightarrow> paper \<Rightarrow> (paper, exec_error option) outcome" where
  "paper_buy baseSymbol quoteSymbol execPrice qty p =
     and_then (lift_panic (SafeMul execPrice qty) p) (\<lambda>product p.
     and_then (lift_panic (SafeDiv product 100000000) p) (\<lambda>requiredQuote p.
     case Get quoteSymbol (pe_balances p) of (quoteBalance, bb) \<Rightarrow>
     and_then (lift_panic (AvailableSats quoteBalance) (p\<lparr>pe_balances := bb\<rparr>)) (\<lambda>available p.
       if available <s requiredQuote
       then Done (Some (InsufficientBalance quoteSymbol requiredQuote available)) p
       else and_then (on_balance quoteSymbol (Debit requiredQuote 0) p) (\<lambda>_ p.
            and_then (on_balance baseSymbol (Credit qty 0) p) (\<lambda>_ p.
            Done None p)))))"

definition paper_sell ::
  "string \<Rightarrow> string \<Rightarrow> i64 \<Rightarrow> i64 \<Rightarrow> paper \<Rightarrow> (paper, exec_error option) outcome" where
  "paper_sell baseSymbol quoteSymbol execPrice qty p =
     (case Get baseSymbol (pe_balances p) of (baseBalance, bb) \<Rightarrow>
     and_then (lift_panic (AvailableSats baseBalance) (p\<lparr>pe_balances := bb\<rparr>)) (\<lambda>available p.
       if available <s qty
       then Done (Some (InsufficientBalance baseSymbol qty available)) p
       else and_then (on_balance baseSymbol (Debit qty 0) p) (\<lambda>_ p.
            and_then (lift_panic (SafeMul execPrice qty) p) (\<lambda>product p.
            and_then (lift_panic (SafeDiv product 100000000) p) (\<lambda>creditQuote p.
            and_then (on_balance quoteSymbol (Credit creditQuote 0) p) (\<lambda>_ p.
            Done None p))))))"

definition record_fill :: "i64 \<Rightarrow> order \<Rightarrow> i64 \<Rightarrow> paper \<Rightarrow> paper" where
  "record_fill now ord execPrice p =
     p\<lparr>pe_fills := pe_fills p @
         [\<lparr>fl_OrderID = ord_ID ord, fl_Symbol = ord_Symbol ord, fl_Side = ord_Side ord,
           fl_PriceMicros = execPrice, fl_QtySats = ord_QtySats ord, fl_TsUnixMicros = now\<rparr>],
       pe_orders := (pe_orders p)(ord_ID ord \<mapsto> ord\<lparr>ord_Status := ''FILLED''\<rparr>)\<rparr>"

definition ExecuteOrder :: "i64 \<Rightarrow> order \<Rightarrow> paper \<Rightarrow> (paper, exec_error option) outcome" where
  "ExecuteOrder now ord p =
     (case exec_price ord p of
        Inl e \<Rightarrow> Done (Some e) p
      | Inr execPrice \<Rightarrow>
          (case SplitN2 CHR ''-'' (ord_Symbol ord) of
             [baseSymbol, quoteSymbol] \<Rightarrow>
               and_then
                 (if ord_Side ord = ''BUY''
                  then paper_buy baseSymbol quoteSymbol execPrice (ord_QtySats ord) p
                  else paper_sell baseSymbol quoteSymbol execPrice (ord_QtySats ord) p)
                 (\<lambda>err p. case err of
                    Some e \<Rightarrow> Done (Some e) p
                  | None \<Rightarrow> Done None (record_fill now ord execPrice p))
           | _ \<Rightarrow> Done (Some (InvalidSymbolFormat (ord_Symbol ord))) p))"

definition CancelOrder :: "string \<Rightarrow> string \<Rightarrow> paper \<Rightarrow> exec_error option \<times> paper" where
  "CancelOrder orderID symbol p =
     (case pe_orders p orderID of
        None \<Rightarrow> (Some (OrderNotFound orderID), p)
      | Some ord \<Rightarrow>
          if ord_Status ord = ''FILLED'' then (Some (CannotCancelFilled orderID), p)
          else (None, p\<lparr>pe_orders := (pe_orders p)(orderID \<mapsto> ord\<lparr>ord_Status := ''CANCELED''\<rparr>)\<rparr>))"

definition Close_paper :: "paper \<Rightarrow> exec_error option \<times> paper" where
  "Close_paper p = (None, p)"

definition GetFills :: "paper \<Rightarrow> fill list" where
  "GetFills p = pe_fills p"

definition GetBalance :: "string \<Rightarrow> paper \<Rightarrow> balance \<times> paper" where
  "GetBalance symbol p =
     (case Get symbol (pe_balances p) of (b, bb) \<Rightarrow> (b, p\<lparr>pe_balances := bb\<rparr>))"

definition GetTotalEquityMicros :: "string list \<Rightarrow> paper \<Rightarrow> panic + i64" where
  "GetTotalEquityMicros order p = CalculateTotalEquity order (pe_prices p) (pe_balances p)"

section \<open>The mock executor\<close>

definition MockExecuteOrder :: "order \<Rightarrow> exec_error option" where
  "MockExecuteOrder ord = None"

definition MockCancelOrder :: "string \<Rightarrow> string \<Rightarrow> exec_error option" where
  "MockCancelOrder orderID symbol = None"

definition MockClose :: "exec_error option" where
  "MockClose = None"

section \<open>Accounts of the book\<close>

definition acct_of :: "paper \<Rightarrow> string \<Rightarrow> balance" where
  "acct_of p s = fst (Get s (pe_balances p))"

abbreviation held_of :: "paper \<Rightarrow> string \<Rightarrow> int" where
  "held_of p s \<equiv> bal_held (acct_of p s)"

abbreviation avail_of :: "paper \<Rightarrow> string \<Rightarrow> int" where
  "avail_of p s \<equiv> bal_avail (acct_of p s)"

definition touch :: "string \<Rightarrow> paper \<Rightarrow> paper" where
  "touch s p = p\<lparr>pe_balances := snd (Get s (pe_balances p))\<rparr>"

lemma acct_of_put [simp]:
  "acct_of (p\<lparr>pe_balances := (pe_balances p)(s \<mapsto> b)\<rparr>) t = (if t = s then b else acct_of p t)"
  by (simp add: acct_of_def Get_def split: option.splits)

lemma acct_of_touch [simp]: "acct_of (touch s p) t = acct_of p t"
  by (auto simp: acct_of_def touch_def Get_def split: option.splits)

lemma touch_fields [simp]:
  "pe_orders (touch s p) = pe_orders p" "pe_fills (touch s p) = pe_fills p"
  "pe_prices (touch s p) = pe_prices p"
  by (simp_all add: touch_def)

lemma Get_eq: "Get s (pe_balances p) = (acct_of p s, pe_balances (touch s p))"
  by (simp add: acct_of_def touch_def)

lemma put_touch [simp]:
  "p\<lparr>pe_balances := (pe_balances (touch s p))(s \<mapsto> b)\<rparr> = p\<lparr>pe_balances := (pe_balances p)(s \<mapsto> b)\<rparr>"
  by (auto simp: touch_def Get_def split: option.splits)

lemma touch_put [simp]:
  "(touch s p)\<lparr>pe_balances := (pe_balances (touch s p))(s \<mapsto> b)\<rparr>
     = p\<lparr>pe_balances := (pe_balances p)(s \<mapsto> b)\<rparr>"
  by (auto simp: touch_def Get_def split: option.splits)

lemma touch_eq: "p\<lparr>pe_balances := pe_balances (touch s p)\<rparr> = touch s p"
  by (simp add: touch_def)

lemma on_balance_eq:
  "on_balance s f p =
     (case f (acct_of p s) of
        Inl e \<Rightarrow> Panicked e (touch s p)
      | Inr b \<Rightarrow> Done () (p\<lparr>pe_balances := (pe_balances p)(s \<mapsto> b)\<rparr>))"
  by (cases "f (acct_of p s)") (simp_all add: on_balance_def Get_eq touch_eq)

definition accounts_ok :: "paper \<Rightarrow> bool" where
  "accounts_ok p \<longleftrightarrow> (\<forall>s. bal_ok (acct_of p s))"

lemma accounts_ok_iff_book_ok: "accounts_ok p \<longleftrightarrow> book_ok (pe_balances p)"
proof
  assume "accounts_ok p"
  then have "bal_ok b" if "pe_balances p s = Some b" for s b
    using that by (force simp: accounts_ok_def acct_of_def Get_def split: option.splits)
  then show "book_ok (pe_balances p)" by (auto simp: book_ok_def ran_def)
next
  assume "book_ok (pe_balances p)"
  then show "accounts_ok p"
    by (auto simp: accounts_ok_def acct_of_def Get_def book_ok_def ran_def split: option.splits)
qed

lemma accounts_ok_touch [simp]: "accounts_ok (touch s p) \<longleftrightarrow> accounts_ok p"
  by (simp add: accounts_ok_def)

lemma on_balance_Credit:
  assumes "accounts_ok p" "0 \<le> sint x" "on_balance s (Credit x q) p = Done u p'"
  shows "accounts_ok p'" "held_of p' s = held_of p s + sint x" "avail_of p' s = avail_of p s + sint x"
    "\<forall>t. t \<noteq> s \<longrightarrow> acct_of p' t = acct_of p t"
    "pe_orders p' = pe_orders p" "pe_fills p' = pe_fills p" "pe_prices p' = pe_prices p"
  using assms acct.credit_effect [of "acct_of p s" x q]
  by (auto simp: on_balance_eq accounts_ok_def split: sum.splits)

lemma on_balance_Debit:
  assumes "accounts_ok p" "0 \<le> sint x" "on_balance s (Debit x q) p = Done u p'"
  shows "accounts_ok p'" "held_of p' s = held_of p s - sint x" "avail_of p' s = avail_of p s - sint x"
    "\<forall>t. t \<noteq> s \<longrightarrow> acct_of p' t = acct_of p t"
    "pe_orders p' = pe_orders p" "pe_fills p' = pe_fills p" "pe_prices p' = pe_prices p"
  using assms acct.debit_effect [of "acct_of p s" x q]
  by (auto simp: on_balance_eq accounts_ok_def split: sum.splits)


lemma touch_touch [simp]: "touch s (touch s p) = touch s p"
  by (auto simp: touch_def Get_def split: option.splits)

lemma on_balance_touch [simp]: "on_balance s f (touch s p) = on_balance s f p"
  by (cases "f (acct_of p s)") (simp_all add: on_balance_eq)

section \<open>Both sides of a fill are one transfer\<close>

definition transfer ::
  "string \<Rightarrow> i64 \<Rightarrow> string \<Rightarrow> i64 \<Rightarrow> paper \<Rightarrow> (paper, exec_error option) outcome" where
  "transfer from paid to received p =
     and_then (on_balance from (Debit paid 0) p) (\<lambda>_ p.
     and_then (on_balance to (Credit received 0) p) (\<lambda>_ p. Done None p))"

abbreviation quote_amount :: "i64 \<Rightarrow> i64 \<Rightarrow> int" where
  "quote_amount price qty \<equiv> (sint price * sint qty) sdiv 100000000"

lemma quote_amount_nonneg: "0 \<le> sint price \<Longrightarrow> 0 \<le> sint qty \<Longrightarrow> 0 \<le> quote_amount price qty"
  by (simp add: signed_divide_int_def sgn_if div_int_pos_iff)

lemma quote_amount_fits:
  assumes "in_i64 (sint price * sint qty)"
  shows "SafeDiv (price * qty) 100000000 = Inr (word_of_int (quote_amount price qty))"
    and "sint (word_of_int (quote_amount price qty) :: i64) = quote_amount price qty"
proof -
  have q: "sint (go_div (price * qty) 100000000) = quote_amount price qty"
    using assms by (subst sint_go_div) (auto simp: sint_mult_i64 i64_eq_iff)
  have g: "go_div (price * qty) 100000000 = word_of_int (quote_amount price qty)"
    using assms by (simp add: go_div_def sint_mult_i64)
  then show "SafeDiv (price * qty) 100000000 = Inr (word_of_int (quote_amount price qty))"
    by (simp add: SafeDiv_pos)
  from q g show "sint (word_of_int (quote_amount price qty) :: i64) = quote_amount price qty"
    by simp
qed

lemma paper_buy_eq:
  assumes "accounts_ok p"
  shows "paper_buy base quote price qty p =
    (if \<not> in_i64 (sint price * sint qty) then Panicked CORE_SAFE_MUL_OVERFLOW p
     else let cost = word_of_int (quote_amount price qty) in
       if avail_of p quote < sint cost
       then Done (Some (InsufficientBalance quote cost
         (bal_AmountSats (acct_of p quote) - bal_ReservedSats (acct_of p quote)))) (touch quote p)
       else transfer quote cost base qty p)"
proof -
  have ok: "bal_ok (acct_of p quote)" using assms by (simp add: accounts_ok_def)
  show ?thesis
  proof (cases "in_i64 (sint price * sint qty)")
    case False
    then show ?thesis by (simp add: paper_buy_def SafeMul_exact)
  next
    case True
    then have "SafeMul price qty = Inr (price * qty)" by (simp add: SafeMul_exact)
    then show ?thesis
      using True AvailableSats_ok [OF ok] quote_amount_fits [OF True]
      by (simp add: paper_buy_def Get_eq touch_eq transfer_def Let_def word_sless_alt)
  qed
qed

lemma paper_sell_eq:
  assumes "accounts_ok p"
  shows "paper_sell base quote price qty p =
    (if avail_of p base < sint qty
     then Done (Some (InsufficientBalance base qty
       (bal_AmountSats (acct_of p base) - bal_ReservedSats (acct_of p base)))) (touch base p)
     else if in_i64 (sint price * sint qty)
     then transfer base qty quote (word_of_int (quote_amount price qty)) p
     else and_then (on_balance base (Debit qty 0) p) (\<lambda>_. Panicked CORE_SAFE_MUL_OVERFLOW))"
proof -
  have ok: "bal_ok (acct_of p base)" using assms by (simp add: accounts_ok_def)
  show ?thesis
  proof (cases "in_i64 (sint price * sint qty)")
    case False
    then show ?thesis
      using AvailableSats_ok [OF ok]
      by (simp add: paper_sell_def Get_eq touch_eq SafeMul_exact word_sless_alt)
  next
    case True
    then have "SafeMul price qty = Inr (price * qty)" by (simp add: SafeMul_exact)
    then show ?thesis
      using True AvailableSats_ok [OF ok] quote_amount_fits [OF True]
      by (simp add: paper_sell_def Get_eq touch_eq transfer_def word_sless_alt)
  qed
qed


lemma transfer_effect:
  assumes "accounts_ok p" "0 \<le> sint x" "0 \<le> sint y" "transfer d x c y p = Done e p'"
  shows "accounts_ok p' \<and> e = None \<and>
    (d \<noteq> c \<longrightarrow> held_of p' d = held_of p d - sint x \<and> held_of p' c = held_of p c + sint y \<and>
      avail_of p' d = avail_of p d - sint x \<and> avail_of p' c = avail_of p c + sint y) \<and>
    (\<forall>t. t \<noteq> d \<longrightarrow> t \<noteq> c \<longrightarrow> acct_of p' t = acct_of p t) \<and>
    pe_orders p' = pe_orders p \<and> pe_fills p' = pe_fills p \<and> pe_prices p' = pe_prices p"
proof -
  from assms(4) obtain u1 p1 u2 where 1: "on_balance d (Debit x 0) p = Done u1 p1"
    and 2: "on_balance c (Credit y 0) p1 = Done u2 p'" and "e = None"
    by (auto simp: transfer_def outcome_simps)
  note d = on_balance_Debit [OF assms(1,2) 1]
  note c = on_balance_Credit [OF d(1) assms(3) 2]
  from d c \<open>e = None\<close> show ?thesis by auto
qed

lemma transfer_returns:
  assumes "accounts_ok p" "0 \<le> sint x" "0 \<le> sint y" "d \<noteq> c"
  shows "(\<exists>p'. transfer d x c y p = Done None p') \<longleftrightarrow>
    sint x \<le> avail_of p d \<and> in_i64 (held_of p c + sint y)"
proof -
  have ok: "bal_ok (acct_of p d)" "bal_ok (acct_of p c)"
    using assms(1) by (simp_all add: accounts_ok_def)
  note dr = acct.debit_returns [OF ok(1) assms(2), of 0]
  note cr = acct.credit_returns [OF ok(2), of y 0]
  show ?thesis
    using dr cr assms(4)
    by (cases "Debit x 0 (acct_of p d)"; cases "Credit y 0 (acct_of p c)")
      (auto simp: transfer_def on_balance_eq)
qed

section \<open>Runs of the executor\<close>

text \<open>The calls an executor receives, in any order and with any arguments; the error a call returns does
  not stop the caller, a panic does.\<close>

datatype paper_op =
    OpDeposit string i64
  | OpPrice string i64
  | OpExecute i64 order
  | OpCancel string string
  | OpInspect string

definition paper_act :: "paper_op \<Rightarrow> paper \<Rightarrow> (paper, unit) outcome" where
  "paper_act x p =
     (case x of
        OpDeposit s amount \<Rightarrow> Deposit s amount p
      | OpPrice s price \<Rightarrow> Done () (UpdatePrice s price p)
      | OpExecute now ord \<Rightarrow> and_then (ExecuteOrder now ord p) (\<lambda>_ p. Done () p)
      | OpCancel oid s \<Rightarrow> Done () (snd (CancelOrder oid s p))
      | OpInspect s \<Rightarrow> Done () (snd (GetBalance s p)))"

fun paper_run :: "paper_op list \<Rightarrow> paper \<Rightarrow> (paper, unit) outcome" where
  "paper_run [] p = Done () p"
| "paper_run (x # xs) p = and_then (paper_act x p) (\<lambda>_ p. paper_run xs p)"

text \<open>What the caller has to see to: the executor itself accepts negative numbers.\<close>

definition op_nonneg :: "paper_op \<Rightarrow> bool" where
  "op_nonneg x \<longleftrightarrow>
     (case x of
        OpDeposit s amount \<Rightarrow> 0 \<le> sint amount
      | OpPrice s price \<Rightarrow> 0 \<le> sint price
      | OpExecute now ord \<Rightarrow> 0 \<le> sint (ord_QtySats ord) \<and> 0 \<le> sint (ord_PriceMicros ord)
      | _ \<Rightarrow> True)"

definition paper_inv :: "paper \<Rightarrow> bool" where
  "paper_inv p \<longleftrightarrow> accounts_ok p \<and> (\<forall>price \<in> ran (pe_prices p). 0 \<le> sint price) \<and>
     (\<forall>ord \<in> ran (pe_orders p). ord_Status ord = ''FILLED'')"

lemma exec_price_nonneg:
  "paper_inv p \<Longrightarrow> 0 \<le> sint (ord_PriceMicros ord) \<Longrightarrow> exec_price ord p = Inr price \<Longrightarrow> 0 \<le> sint price"
  by (auto simp: exec_price_def paper_inv_def ran_def split: if_splits option.splits)

lemma paper_buy_inv:
  assumes "accounts_ok p" "0 \<le> sint price" "0 \<le> sint qty"
    "paper_buy base quote price qty p = Done err p'"
  shows "accounts_ok p' \<and> pe_prices p' = pe_prices p \<and> pe_orders p' = pe_orders p"
proof -
  have f: "in_i64 (sint price * sint qty)"
    using assms(4) by (auto simp: paper_buy_eq [OF assms(1)] split: if_splits)
  note c = quote_amount_fits(2) [OF f]
  show ?thesis
    using assms(4) f
      transfer_effect [OF assms(1), of "word_of_int (quote_amount price qty)" qty quote base err p']
      quote_amount_nonneg [OF assms(2,3)] assms(1,3)
    by (auto simp: paper_buy_eq [OF assms(1)] c Let_def split: if_splits)
qed

lemma paper_sell_inv:
  assumes "accounts_ok p" "0 \<le> sint price" "0 \<le> sint qty"
    "paper_sell base quote price qty p = Done err p'"
  shows "accounts_ok p' \<and> pe_prices p' = pe_prices p \<and> pe_orders p' = pe_orders p"
proof (cases "in_i64 (sint price * sint qty)")
  case True
  note c = quote_amount_fits(2) [OF True]
  show ?thesis
    using assms(4) True
      transfer_effect [OF assms(1,3), of "word_of_int (quote_amount price qty)" base quote err p']
      quote_amount_nonneg [OF assms(2,3)] assms(1)
    by (auto simp: paper_sell_eq [OF assms(1)] c split: if_splits)
next
  case False
  then show ?thesis
    using assms(1,4) by (auto simp: paper_sell_eq [OF assms(1)] outcome_simps split: if_splits)
qed

lemma ExecuteOrder_inv:
  assumes "paper_inv p" "0 \<le> sint (ord_QtySats ord)" "0 \<le> sint (ord_PriceMicros ord)"
    "ExecuteOrder now ord p = Done err p'"
  shows "paper_inv p'"
proof (cases "\<exists>price base quote. exec_price ord p = Inr price \<and>
    SplitN2 CHR ''-'' (ord_Symbol ord) = [base, quote]")
  case False
  then have "p' = p" using assms(4)
    by (auto simp: ExecuteOrder_def split: sum.splits list.splits)
  with assms(1) show ?thesis by simp
next
  case True
  then obtain price base quote where e: "exec_price ord p = Inr price"
    and sp: "SplitN2 CHR ''-'' (ord_Symbol ord) = [base, quote]" by blast
  have ok: "accounts_ok p" using assms(1) by (simp add: paper_inv_def)
  have pr: "0 \<le> sint price" using exec_price_nonneg [OF assms(1,3) e] .
  let ?side = "if ord_Side ord = ''BUY'' then paper_buy base quote price (ord_QtySats ord) p
    else paper_sell base quote price (ord_QtySats ord) p"
  from assms(4) e sp obtain err1 p1 where s: "?side = Done err1 p1"
    and p': "p' = (case err1 of Some e \<Rightarrow> p1 | None \<Rightarrow> record_fill now ord price p1)"
    by (auto simp: ExecuteOrder_def outcome_simps split: option.splits)
  have "accounts_ok p1 \<and> pe_prices p1 = pe_prices p \<and> pe_orders p1 = pe_orders p"
    using s paper_buy_inv [OF ok pr assms(2), of base quote err1 p1]
      paper_sell_inv [OF ok pr assms(2), of base quote err1 p1]
    by (simp split: if_splits)
  then show ?thesis
    using assms(1) p'
    by (auto simp: paper_inv_def record_fill_def accounts_ok_def acct_of_def ran_def
        split: option.splits if_splits)
qed


lemma NewPaperExecution_inv:
  assumes "NewPaperExecution x = Done () p" "0 \<le> sint x"
  shows "paper_inv p"
proof -
  have ok: "accounts_ok \<lparr>pe_balances = NewBalanceBook, pe_orders = Map.empty, pe_fills = [],
      pe_prices = Map.empty\<rparr>"
    by (simp add: accounts_ok_iff_book_ok book_ok_def NewBalanceBook_def)
  from on_balance_Credit [OF ok assms(2) assms(1) [unfolded NewPaperExecution_def]]
  show ?thesis by (simp add: paper_inv_def)
qed

lemma paper_act_inv:
  assumes "paper_act x p = Done () p'" "paper_inv p" "op_nonneg x"
  shows "paper_inv p'"
proof (cases x)
  case (OpDeposit s amount)
  then show ?thesis using assms on_balance_Credit [of p amount s 0 "()" p']
    by (simp add: paper_act_def op_nonneg_def Deposit_def paper_inv_def)
next
  case (OpPrice s price)
  then have "0 \<le> sint price" "p' = UpdatePrice s price p" using assms(1,3) by (simp_all add: paper_act_def op_nonneg_def)
  then show ?thesis using assms(2) by (auto simp: UpdatePrice_def paper_inv_def accounts_ok_def acct_of_def ran_def)
next
  case (OpExecute now ord)
  then show ?thesis using assms ExecuteOrder_inv by (auto simp: paper_act_def op_nonneg_def outcome_simps)
next
  case (OpCancel oid s)
  then show ?thesis using assms
    by (auto simp: paper_act_def CancelOrder_def paper_inv_def accounts_ok_def acct_of_def ran_def
        split: option.splits if_splits)
next
  case (OpInspect s)
  then show ?thesis using assms by (auto simp: paper_act_def GetBalance_def Get_eq touch_eq paper_inv_def)
qed

lemma paper_run_inv:
  "paper_run xs p = Done () p' \<Longrightarrow> paper_inv p \<Longrightarrow> list_all op_nonneg xs \<Longrightarrow> paper_inv p'"
  by (induction xs arbitrary: p) (auto simp: outcome_simps intro: paper_act_inv)

section \<open>When an order fills\<close>

definition payer :: "order \<Rightarrow> string \<Rightarrow> string \<Rightarrow> string" where
  "payer ord base quote = (if ord_Side ord = ''BUY'' then quote else base)"

definition payee :: "order \<Rightarrow> string \<Rightarrow> string \<Rightarrow> string" where
  "payee ord base quote = (if ord_Side ord = ''BUY'' then base else quote)"

definition paid :: "order \<Rightarrow> i64 \<Rightarrow> int" where
  "paid ord price = (if ord_Side ord = ''BUY'' then quote_amount price (ord_QtySats ord)
     else sint (ord_QtySats ord))"

definition received :: "order \<Rightarrow> i64 \<Rightarrow> int" where
  "received ord price = (if ord_Side ord = ''BUY'' then sint (ord_QtySats ord)
     else quote_amount price (ord_QtySats ord))"

lemma ExecuteOrder_fills_iff:
  assumes "accounts_ok p" "exec_price ord p = Inr price"
    and "SplitN2 CHR ''-'' (ord_Symbol ord) = [base, quote]"
    and "0 \<le> sint price" "0 \<le> sint (ord_QtySats ord)"
  shows "ExecuteOrder now ord p = Done None p' \<longleftrightarrow>
    in_i64 (sint price * sint (ord_QtySats ord)) \<and>
    (\<exists>p1. transfer (payer ord base quote) (word_of_int (paid ord price))
        (payee ord base quote) (word_of_int (received ord price)) p = Done None p1 \<and>
      p' = record_fill now ord price p1)"
proof -
  let ?q = "ord_QtySats ord"
  have enough: "sint x \<le> avail_of p d" if "transfer d x c y p = Done None p1" "0 \<le> sint x" for d x c y p1
  proof -
    have "\<exists>b. Debit x 0 (acct_of p d) = Inr b"
      using that(1) by (auto simp: transfer_def outcome_simps on_balance_eq split: sum.splits)
    then show ?thesis
      using acct.debit_returns [of "acct_of p d" x 0] assms(1) that(2) by (simp add: accounts_ok_def)
  qed
  show ?thesis
  proof (cases "in_i64 (sint price * sint ?q)")
    case True
    note c = quote_amount_fits(2) [OF True] and nn = quote_amount_nonneg [OF assms(4,5)]
    show ?thesis
      using True assms(2,3,5) c nn enough
      by (cases "ord_Side ord = ''BUY''")
        (fastforce simp: ExecuteOrder_def paper_buy_eq [OF assms(1)] paper_sell_eq [OF assms(1)]
          payer_def payee_def paid_def received_def Let_def outcome_simps split: option.splits if_splits)+
  next
    case False
    then show ?thesis
      using assms(2,3)
      by (auto simp: ExecuteOrder_def paper_buy_eq [OF assms(1)] paper_sell_eq [OF assms(1)]
          outcome_simps split: option.splits if_splits)
  qed
qed

section \<open>Properties\<close>

text \<open>C29. Whatever sequence of deposits, price updates, orders, cancellations and queries a new paper
  executor goes through without panicking: as long as the amounts, quantities and prices it is
  given are not negative, every balance in its book passes \<open>VerifyInvariant\<close>, so no balance
  goes negative. The condition is the caller's: the executor accepts a negative quantity.\<close>

theorem paper_balances_stay_valid:
  assumes "NewPaperExecution initial = Done () p" "0 \<le> sint initial"
    and "list_all op_nonneg xs" "paper_run xs p = Done () p'"
  shows "VerifyAll order (pe_balances p') = Inr ()"
  using paper_run_inv [OF assms(4) NewPaperExecution_inv [OF assms(1,2)] assms(3)]
  by (auto simp: VerifyAll_iff paper_inv_def accounts_ok_iff_book_ok book_ok_def ran_def)

definition example_order :: "string \<Rightarrow> i64 \<Rightarrow> order" where
  "example_order side qty = zero_order\<lparr>ord_ID := ''o1'', ord_Symbol := ''BTC-USDT'',
     ord_Side := side, ord_Type := ''LIMIT'', ord_PriceMicros := 50000000000, ord_QtySats := qty\<rparr>"

definition example_paper :: "i64 \<Rightarrow> paper" where
  "example_paper cash =
     \<lparr>pe_balances = [''USDT'' \<mapsto> (zero_balance ''USDT'')\<lparr>bal_AmountSats := cash\<rparr>],
      pe_orders = Map.empty, pe_fills = [], pe_prices = Map.empty\<rparr>"

lemma example_paper_created: "NewPaperExecution cash = Done () (example_paper cash)"
proof -
  have "SafeAdd 0 cash = Inr cash" by (simp add: SafeAdd_exact)
  then show ?thesis
    by (simp add: NewPaperExecution_def on_balance_def Get_def NewBalanceBook_def Credit_def
        example_paper_def zero_balance_def)
qed

lemma example_split: "SplitN2 CHR ''-'' (ord_Symbol (example_order side qty)) = [''BTC'', ''USDT'']"
  by (simp add: example_order_def SplitN2_def)

lemma example_price: "exec_price (example_order side qty) p = Inr 50000000000"
  by (simp add: example_order_def exec_price_def)

lemma example_accounts: "0 \<le> sint cash \<Longrightarrow> accounts_ok (example_paper cash)"
  using NewPaperExecution_inv [OF example_paper_created] by (simp add: paper_inv_def)

lemma example_buy: "\<exists>p. ExecuteOrder now (example_order ''BUY'' 10000000) (example_paper 10000000000) = Done None p"
proof -
  note d = example_order_def payer_def payee_def paid_def received_def in_i64_def
    example_paper_def acct_of_def Get_def zero_balance_def
  have "\<exists>p1. transfer (payer (example_order ''BUY'' 10000000) ''BTC'' ''USDT'') (word_of_int (paid (example_order ''BUY'' 10000000) 50000000000))
      (payee (example_order ''BUY'' 10000000) ''BTC'' ''USDT'') (word_of_int (received (example_order ''BUY'' 10000000) 50000000000))
      (example_paper 10000000000) = Done None p1"
    by (subst transfer_returns [OF example_accounts]) (simp_all add: d)
  then show ?thesis
    using ExecuteOrder_fills_iff [where now = now, OF example_accounts example_price example_split] by (auto simp: d)
qed

text \<open>Such an executor never cancels anything: \<open>CancelOrder\<close> answers with an
  error (unknown order, or order already filled) and leaves the state as it was.\<close>

lemma paper_cancel_always_refused:
  assumes "NewPaperExecution initial = Done () p0" "0 \<le> sint initial" "list_all op_nonneg xs" "paper_run xs p0 = Done () p"
  shows "CancelOrder oid symbol p =
    (Some (if pe_orders p oid = None then OrderNotFound oid else CannotCancelFilled oid), p)"
proof (cases "pe_orders p oid")
  case None
  then show ?thesis by (simp add: CancelOrder_def)
next
  case (Some ord)
  then have "ord_Status ord = ''FILLED''"
    using paper_run_inv [OF assms(4) NewPaperExecution_inv [OF assms(1,2)] assms(3)] by (auto simp: paper_inv_def ran_def)
  with Some show ?thesis by (simp add: CancelOrder_def)
qed

lemma paper_cancel_always_refused_witness:
  "CancelOrder ''o9'' ''BTC-USDT'' (example_paper 5) = (Some (OrderNotFound ''o9''), example_paper 5)"
  by (subst paper_cancel_always_refused [OF example_paper_created, where xs = "[]"]) (simp_all add: example_paper_def)

lemma ExecuteOrder_returns_iff:
  assumes "book_ok (pe_balances p)" "exec_price ord p = Inr price"
    and "SplitN2 CHR ''-'' (ord_Symbol ord) = [base, quote]" "base \<noteq> quote"
    and "0 \<le> sint price" "0 \<le> sint (ord_QtySats ord)"
  shows "(\<exists>p'. ExecuteOrder now ord p = Done None p') \<longleftrightarrow>
    in_i64 (sint price * sint (ord_QtySats ord)) \<and>
    paid ord price \<le> avail_of p (payer ord base quote) \<and>
    in_i64 (held_of p (payee ord base quote) + received ord price)"
proof -
  have ok: "accounts_ok p" using assms(1) by (simp add: accounts_ok_iff_book_ok)
  have ne: "payer ord base quote \<noteq> payee ord base quote"
    using assms(4) by (simp add: payer_def payee_def)
  show ?thesis
  proof (cases "in_i64 (sint price * sint (ord_QtySats ord))")
    case True
    have amounts: "sint (word_of_int (paid ord price) :: i64) = paid ord price"
      "sint (word_of_int (received ord price) :: i64) = received ord price"
      "0 \<le> paid ord price" "0 \<le> received ord price"
      using quote_amount_fits(2) [OF True] quote_amount_nonneg [OF assms(5,6)] assms(6)
      by (simp_all add: paid_def received_def)
    show ?thesis
      using True transfer_returns [OF ok _ _ ne, of "word_of_int (paid ord price)"
          "word_of_int (received ord price)"] amounts
      by (auto simp: ExecuteOrder_fills_iff [OF ok assms(2,3,5,6)])
  next
    case False
    then show ?thesis by (simp add: ExecuteOrder_fills_iff [OF ok assms(2,3,5,6)])
  qed
qed

text \<open>C30. On a book that satisfies the invariants, an order with a known non-negative price,
  a non-negative quantity and distinct base and quote currencies fills exactly when the
  product of price and quantity fits in an \<open>int64\<close>, the paying side has the amount
  available, and the receiving balance does not overflow.\<close>

theorem paper_order_fills_iff:
  assumes "book_ok (pe_balances p)" "exec_price ord p = Inr price"
    and "SplitN2 CHR ''-'' (ord_Symbol ord) = [base, quote]" "base \<noteq> quote"
    and "0 \<le> sint price" "0 \<le> sint (ord_QtySats ord)"
  shows "(\<exists>p'. ExecuteOrder now ord p = Done None p') \<longleftrightarrow>
    in_i64 (sint price * sint (ord_QtySats ord)) \<and>
    paid ord price \<le> avail_of p (payer ord base quote) \<and>
    in_i64 (held_of p (payee ord base quote) + received ord price)"
  using assms by (rule ExecuteOrder_returns_iff)

theorem paper_order_fills_iff_witness:
  "(\<exists>p'. ExecuteOrder 0 (example_order ''BUY'' 10000000) (example_paper 10000000000) = Done None p')
   \<and> \<not> (\<exists>p'. ExecuteOrder 0 (example_order ''BUY'' 30000000) (example_paper 10000000000) = Done None p')"
proof -
  have ok: "book_ok (pe_balances (example_paper 10000000000))"
    using example_accounts [of 10000000000] by (simp add: accounts_ok_iff_book_ok)
  note f = paper_order_fills_iff [where now = 0, OF ok example_price example_split]
  note d = example_order_def payer_def payee_def paid_def received_def in_i64_def
    example_paper_def acct_of_def Get_def zero_balance_def
  have "\<exists>p'. ExecuteOrder 0 (example_order ''BUY'' 10000000) (example_paper 10000000000) = Done None p'"
    by (subst f) (simp_all add: d)
  moreover have "\<not> (\<exists>p'. ExecuteOrder 0 (example_order ''BUY'' 30000000) (example_paper 10000000000) = Done None p')"
    by (subst f) (simp_all add: d)
  ultimately show ?thesis by blast
qed

lemma ExecuteOrder_effect:
  assumes "book_ok (pe_balances p)" "exec_price ord p = Inr price"
    and "SplitN2 CHR ''-'' (ord_Symbol ord) = [base, quote]" "base \<noteq> quote"
    and "0 \<le> sint price" "0 \<le> sint (ord_QtySats ord)"
    and "ExecuteOrder now ord p = Done None p'"
  shows "held_of p' (payer ord base quote) = held_of p (payer ord base quote) - paid ord price \<and>
    held_of p' (payee ord base quote) = held_of p (payee ord base quote) + received ord price \<and>
    avail_of p' (payer ord base quote) = avail_of p (payer ord base quote) - paid ord price \<and>
    avail_of p' (payee ord base quote) = avail_of p (payee ord base quote) + received ord price \<and>
    in_i64 (sint price * sint (ord_QtySats ord)) \<and>
    (\<forall>s. s \<noteq> base \<longrightarrow> s \<noteq> quote \<longrightarrow> acct_of p' s = acct_of p s) \<and>
    book_ok (pe_balances p') \<and>
    GetFills p' = GetFills p @ [\<lparr>fl_OrderID = ord_ID ord, fl_Symbol = ord_Symbol ord,
      fl_Side = ord_Side ord, fl_PriceMicros = price, fl_QtySats = ord_QtySats ord,
      fl_TsUnixMicros = now\<rparr>] \<and>
    pe_orders p' = (pe_orders p)(ord_ID ord \<mapsto> ord\<lparr>ord_Status := ''FILLED''\<rparr>) \<and>
    pe_prices p' = pe_prices p"
proof -
  have ok: "accounts_ok p" using assms(1) by (simp add: accounts_ok_iff_book_ok)
  have ne: "payer ord base quote \<noteq> payee ord base quote"
    using assms(4) by (simp add: payer_def payee_def)
  from assms(7) [unfolded ExecuteOrder_fills_iff [OF ok assms(2,3,5,6)]]
  obtain p1 where fits: "in_i64 (sint price * sint (ord_QtySats ord))"
    and t: "transfer (payer ord base quote) (word_of_int (paid ord price))
        (payee ord base quote) (word_of_int (received ord price)) p = Done None p1"
    and p': "p' = record_fill now ord price p1" by blast
  have amounts: "sint (word_of_int (paid ord price) :: i64) = paid ord price"
    "sint (word_of_int (received ord price) :: i64) = received ord price"
    "0 \<le> paid ord price" "0 \<le> received ord price"
    using quote_amount_fits(2) [OF fits] quote_amount_nonneg [OF assms(5,6)] assms(6)
    by (simp_all add: paid_def received_def)
  have eff: "accounts_ok p1" "held_of p1 (payer ord base quote) = held_of p (payer ord base quote) - paid ord price"
    "held_of p1 (payee ord base quote) = held_of p (payee ord base quote) + received ord price"
    "avail_of p1 (payer ord base quote) = avail_of p (payer ord base quote) - paid ord price"
    "avail_of p1 (payee ord base quote) = avail_of p (payee ord base quote) + received ord price"
    "s \<noteq> payer ord base quote \<Longrightarrow> s \<noteq> payee ord base quote \<Longrightarrow> acct_of p1 s = acct_of p s"
    "pe_orders p1 = pe_orders p" "pe_fills p1 = pe_fills p" "pe_prices p1 = pe_prices p" for s
    using transfer_effect [OF ok _ _ t] amounts ne by auto
  have acc: "acct_of p' s = acct_of p1 s" for s by (simp add: p' record_fill_def acct_of_def)
  have "acct_of p' s = acct_of p s" if "s \<noteq> base" "s \<noteq> quote" for s
    using eff(6) [of s] that by (simp add: acc payer_def payee_def)
  moreover have "book_ok (pe_balances p')"
    using eff(1) by (simp add: p' record_fill_def accounts_ok_iff_book_ok)
  ultimately show ?thesis
    using eff fits by (simp add: acc, simp add: p' record_fill_def GetFills_def)
qed

theorem paper_balances_stay_valid_witness:
  "\<exists>p. paper_run [OpExecute 7 (example_order ''BUY'' 10000000), OpPrice ''BTC-USDT'' 60000000000, OpInspect ''BTC'']
      (example_paper 10000000000) = Done () p \<and>
    length (GetFills p) = 1 \<and> VerifyAll [''BTC'', ''USDT''] (pe_balances p) = Inr ()"
proof -
  let ?xs = "[OpExecute 7 (example_order ''BUY'' 10000000), OpPrice ''BTC-USDT'' 60000000000, OpInspect ''BTC'']"
  let ?o = "example_order ''BUY'' 10000000"
  obtain p1 where x: "ExecuteOrder 7 (example_order ''BUY'' 10000000) (example_paper 10000000000) = Done None p1"
    using example_buy by blast
  let ?p = "snd (GetBalance ''BTC'' (UpdatePrice ''BTC-USDT'' 60000000000 p1))"
  have r: "paper_run ?xs (example_paper 10000000000) = Done () ?p" by (simp add: paper_act_def x)
  have "GetFills p1 = GetFills (example_paper 10000000000) @ [\<lparr>fl_OrderID = ord_ID ?o, fl_Symbol = ord_Symbol ?o,
      fl_Side = ord_Side ?o, fl_PriceMicros = 50000000000, fl_QtySats = ord_QtySats ?o, fl_TsUnixMicros = 7\<rparr>]"
    using ExecuteOrder_effect [OF example_accounts [unfolded accounts_ok_iff_book_ok] example_price example_split _ _ _ x]
    by (simp add: example_order_def)
  then have "length (pe_fills p1) = 1" by (simp add: GetFills_def example_paper_def)
  then have "length (GetFills ?p) = 1" by (simp add: GetFills_def GetBalance_def UpdatePrice_def split: prod.splits)
  moreover have "VerifyAll [''BTC'', ''USDT''] (pe_balances ?p) = Inr ()"
    by (rule paper_balances_stay_valid [OF example_paper_created _ _ r]) (simp_all add: op_nonneg_def example_order_def)
  ultimately show ?thesis using r by blast
qed

text \<open>C17. What a fill does: the paying balance goes down by the amount paid, the receiving
  balance up by the amount received, every other balance is untouched; the fill is appended to
  the fill log with the execution price, the order is stored as filled, and nothing else
  changes.\<close>

theorem paper_fill_effect:
  assumes "book_ok (pe_balances p)" "exec_price ord p = Inr price"
    and "SplitN2 CHR ''-'' (ord_Symbol ord) = [base, quote]" "base \<noteq> quote"
    and "0 \<le> sint price" "0 \<le> sint (ord_QtySats ord)"
    and "ExecuteOrder now ord p = Done None p'"
  shows "held_of p' (payer ord base quote) = held_of p (payer ord base quote) - paid ord price \<and>
    held_of p' (payee ord base quote) = held_of p (payee ord base quote) + received ord price \<and>
    (\<forall>s. s \<noteq> base \<longrightarrow> s \<noteq> quote \<longrightarrow> acct_of p' s = acct_of p s) \<and>
    book_ok (pe_balances p') \<and>
    GetFills p' = GetFills p @ [\<lparr>fl_OrderID = ord_ID ord, fl_Symbol = ord_Symbol ord,
      fl_Side = ord_Side ord, fl_PriceMicros = price, fl_QtySats = ord_QtySats ord,
      fl_TsUnixMicros = now\<rparr>] \<and>
    pe_orders p' = (pe_orders p)(ord_ID ord \<mapsto> ord\<lparr>ord_Status := ''FILLED''\<rparr>) \<and>
    pe_prices p' = pe_prices p"
  using ExecuteOrder_effect [OF assms] by blast

theorem paper_fill_effect_witness:
  "\<exists>p'. ExecuteOrder 7 (example_order ''BUY'' 10000000) (example_paper 10000000000) = Done None p' \<and>
     held_of p' ''USDT'' = 5000000000 \<and> held_of p' ''BTC'' = 10000000"
proof -
  have ok: "accounts_ok (example_paper 10000000000)" by (rule example_accounts) simp
  obtain p' where x: "ExecuteOrder 7 (example_order ''BUY'' 10000000) (example_paper 10000000000) = Done None p'"
    using example_buy by blast
  show ?thesis
    using x paper_fill_effect [OF ok [unfolded accounts_ok_iff_book_ok] example_price example_split _ _ _ x]
    by (simp add: example_order_def payer_def payee_def paid_def received_def in_i64_def
        example_paper_def acct_of_def Get_def zero_balance_def)
qed

text \<open>Buying and then selling the same quantity at the same limit price gives both
  currencies back exactly: the sale always goes through, no satoshi or micro-dollar is gained
  or lost, and the log holds both fills.\<close>

lemma paper_buy_sell_round_trip:
  assumes "book_ok (pe_balances p)" "SplitN2 CHR ''-'' (ord_Symbol ord) = [base, quote]" "base \<noteq> quote"
    and "ord_Type ord \<noteq> ''MARKET''" "ord_Side ord = ''BUY''"
    and "0 \<le> sint (ord_PriceMicros ord)" "0 \<le> sint (ord_QtySats ord)"
    and "ExecuteOrder now ord p = Done None p1"
  shows "\<exists>p2. ExecuteOrder later (ord\<lparr>ord_Side := ''SELL''\<rparr>) p1 = Done None p2 \<and>
    (\<forall>s. held_of p2 s = held_of p s) \<and> length (GetFills p2) = length (GetFills p) + 2"
proof -
  let ?s = "ord\<lparr>ord_Side := ''SELL''\<rparr>"
  have pr: "exec_price ord p = Inr (ord_PriceMicros ord)" "exec_price ?s p1 = Inr (ord_PriceMicros ord)"
    using assms(4) by (simp_all add: exec_price_def)
  have sp: "SplitN2 CHR ''-'' (ord_Symbol ?s) = [base, quote]" using assms(2) by simp
  have qty: "0 \<le> sint (ord_QtySats ?s)" using assms(7) by simp
  note e1 = ExecuteOrder_effect [OF assms(1) pr(1) assms(2,3,6,7,8)]
  have ok1: "book_ok (pe_balances p1)" using e1 by blast
  have av: "sint (bal_ReservedSats (acct_of p base)) \<le> held_of p base"
    using assms(1) by (simp flip: accounts_ok_iff_book_ok add: accounts_ok_def bal_ok_def)
  have "\<exists>p2. ExecuteOrder later ?s p1 = Done None p2"
    by (subst ExecuteOrder_returns_iff [OF ok1 pr(2) sp assms(3,6) qty])
      (use e1 av assms in \<open>auto simp: payer_def payee_def paid_def received_def\<close>)
  then obtain p2 where x: "ExecuteOrder later ?s p1 = Done None p2" by blast
  note e2 = ExecuteOrder_effect [OF ok1 pr(2) sp assms(3,6) qty x]
  have "held_of p2 s = held_of p s" for s
    using e1 e2 assms(3,5) by (cases "s = base"; cases "s = quote") (auto simp: payer_def payee_def paid_def received_def)
  with x e1 e2 show ?thesis by auto
qed

lemma paper_buy_sell_round_trip_witness:
  "\<exists>p1 p2. ExecuteOrder 1 (example_order ''BUY'' 10000000) (example_paper 10000000000) = Done None p1 \<and>
     ExecuteOrder 2 (example_order ''SELL'' 10000000) p1 = Done None p2 \<and>
     held_of p2 ''USDT'' = 10000000000 \<and> held_of p2 ''BTC'' = 0"
proof -
  let ?o = "example_order ''BUY'' 10000000" and ?p = "example_paper 10000000000"
  have ok: "accounts_ok ?p" by (rule example_accounts) simp
  note d = example_order_def payer_def payee_def paid_def received_def in_i64_def
    example_paper_def acct_of_def Get_def zero_balance_def
  have "\<exists>p1. ExecuteOrder 1 ?o ?p = Done None p1"
    by (subst ExecuteOrder_returns_iff [where now = 1, OF ok [unfolded accounts_ok_iff_book_ok]
      example_price example_split]) (simp_all add: d)
  then obtain p1 where x: "ExecuteOrder 1 ?o ?p = Done None p1" by blast
  have s: "?o\<lparr>ord_Side := ''SELL''\<rparr> = example_order ''SELL'' 10000000" by (simp add: example_order_def)
  have "\<exists>p2. ExecuteOrder 2 (?o\<lparr>ord_Side := ''SELL''\<rparr>) p1 = Done None p2 \<and>
    (\<forall>s. held_of p2 s = held_of ?p s) \<and> length (GetFills p2) = length (GetFills ?p) + 2"
    by (rule paper_buy_sell_round_trip [where now = 1, OF ok [unfolded accounts_ok_iff_book_ok] example_split])
      (use x in \<open>simp_all add: example_order_def\<close>)
  then show ?thesis
    unfolding s using x by (auto simp: example_paper_def acct_of_def Get_def zero_balance_def)
qed

text \<open>C39. An order whose price times quantity exceeds an \<open>int64\<close> panics although the quote
  amount itself (that product over \<open>10^8\<close>) would fit. A buy panics before anything changed;
  a sale panics after its base currency was debited, so the base is gone and no quote
  arrives.\<close>

theorem paper_order_overflow_panics:
  assumes "book_ok (pe_balances p)" "exec_price ord p = Inr price"
    and "SplitN2 CHR ''-'' (ord_Symbol ord) = [base, quote]" "base \<noteq> quote"
    and "0 \<le> sint (ord_QtySats ord)" "\<not> in_i64 (sint price * sint (ord_QtySats ord))"
    and "ord_Side ord \<noteq> ''BUY'' \<longrightarrow> sint (ord_QtySats ord) \<le> avail_of p base"
  shows "\<exists>p'. ExecuteOrder now ord p = Panicked CORE_SAFE_MUL_OVERFLOW p' \<and>
    held_of p' base = held_of p base - (if ord_Side ord = ''BUY'' then 0 else sint (ord_QtySats ord)) \<and>
    held_of p' quote = held_of p quote"
proof -
  have ok: "accounts_ok p" using assms(1) by (simp add: accounts_ok_iff_book_ok)
  show ?thesis
  proof (cases "ord_Side ord = ''BUY''")
    case True
    then show ?thesis using assms(2,3,6) by (simp add: ExecuteOrder_def paper_buy_eq [OF ok])
  next
    case False
    have bok: "bal_ok (acct_of p base)" using ok by (simp add: accounts_ok_def)
    obtain b where b: "Debit (ord_QtySats ord) 0 (acct_of p base) = Inr b"
      using acct.debit_returns [OF bok assms(5), of 0] assms(7) False by auto
    then have d: "on_balance base (Debit (ord_QtySats ord) 0) p
        = Done () (p\<lparr>pe_balances := (pe_balances p)(base \<mapsto> b)\<rparr>)"
      by (simp add: on_balance_eq)
    then show ?thesis
      using on_balance_Debit [OF ok assms(5) d] assms(2-4,6,7) False
      by (auto simp: ExecuteOrder_def paper_sell_eq [OF ok])
  qed
qed

theorem paper_order_overflow_panics_witness:
  "\<exists>p'. ExecuteOrder 0 (example_order ''BUY'' 200000000) (example_paper 200000000000) =
     Panicked CORE_SAFE_MUL_OVERFLOW p' \<and> held_of p' ''USDT'' = 200000000000"
  using paper_order_overflow_panics [where now = 0, OF
      example_accounts [of 200000000000, unfolded accounts_ok_iff_book_ok] example_price example_split,
      of "''BUY''" 200000000]
  by (auto simp: example_order_def in_i64_def example_paper_def acct_of_def Get_def zero_balance_def)

text \<open>The executor does not check the sign of a quantity: selling a negative quantity
  passes the availability check, adds to the base balance and takes from the quote balance,
  which ends below zero and fails \<open>VerifyInvariant\<close>.\<close>

lemma paper_negative_quantity_breaks_invariant:
  "\<exists>p'. ExecuteOrder 0 (example_order ''SELL'' (- 100000000)) (example_paper 0) = Done None p' \<and>
     VerifyAll [''BTC'', ''USDT''] (pe_balances p') =
       Inl (BALANCE_INVARIANT_NEGATIVE_AMOUNT ''USDT'' (- 50000000000))"
  by (simp add: ExecuteOrder_def exec_price_def SplitN2_def paper_sell_def example_order_def
      example_paper_def Get_def zero_balance_def on_balance_def
      Debit_def Credit_def AvailableSats_def safe_eval record_fill_def VerifyInvariant_def word_sless_alt)

end
