(* ===== verification/Bitget_Client.thy ===== *)
theory Bitget_Client
  imports Feeds Http Paper_Execution Config
begin

text \<open>
  The Bitget REST client (\<open>internal/infra/bitget/client.go\<close>), its request signer
  (\<open>signer.go\<close>), and the executors chosen by the factory (\<open>internal/execution/factory.go\<close>).
  Code outside the repository is an argument: \<open>hmac key payload\<close> is the Base64 HMAC-SHA256,
  \<open>text v\<close> the bytes \<open>json.Marshal\<close> writes for the value \<open>v\<close>, \<open>http r\<close> what the HTTP client
  does with a request, \<open>url_ok u\<close> whether \<open>http.NewRequest\<close> accepts the URL. The requests
  handed to the HTTP client are logged in the client's state. The calls here are what remains of a
  method after it waited for its rate limiter; theory \<open>Limited_Client\<close> adds the wait.
\<close>

section \<open>Signer\<close>

record signer =
  sg_accessKey :: string
  sg_secretKey :: string
  sg_passphrase :: string

definition NewSigner :: "string \<Rightarrow> string \<Rightarrow> string \<Rightarrow> signer" where
  "NewSigner accessKey secretKey passphrase =
     \<lparr>sg_accessKey = accessKey, sg_secretKey = secretKey, sg_passphrase = passphrase\<rparr>"

definition wipeSlice :: "string \<Rightarrow> string" where
  "wipeSlice b = map (\<lambda>_. char_of (0 :: nat)) b"

definition Wipe :: "signer \<Rightarrow> signer" where
  "Wipe s =
     \<lparr>sg_accessKey = wipeSlice (sg_accessKey s), sg_secretKey = wipeSlice (sg_secretKey s),
      sg_passphrase = wipeSlice (sg_passphrase s)\<rparr>"

definition GenerateHeaders ::
  "(string \<Rightarrow> string \<Rightarrow> string) \<Rightarrow> int \<Rightarrow> string \<Rightarrow> string \<Rightarrow> string \<Rightarrow> string \<Rightarrow> signer \<Rightarrow> (string \<rightharpoonup> string)" where
  "GenerateHeaders hmac nowMs method path query body s =
     (let timestamp = fmt_d nowMs;
          payload = timestamp @ method @ path @ query @ body
      in [''ACCESS-KEY'' \<mapsto> sg_accessKey s,
          ''ACCESS-SIGN'' \<mapsto> hmac (sg_secretKey s) payload,
          ''ACCESS-TIMESTAMP'' \<mapsto> timestamp,
          ''ACCESS-PASSPHRASE'' \<mapsto> sg_passphrase s,
          ''Content-Type'' \<mapsto> ''application/json'',
          ''locale'' \<mapsto> ''en-US''])"

section \<open>Client\<close>

datatype client_error =
    CircuitOpen
  | CreatingRequest
  | TransportFailed
  | ReadBodyFailed
  | HttpError int
  | ResponseNotJson
  | BusinessError string string
  | AccountsNotJson
  | BadNumber parse_error

record client =
  cl_baseURL :: string
  cl_signer :: signer
  cl_circuitBreaker :: circuit_breaker
  cl_isTestnet :: bool
  cl_sent :: "request list"

text \<open>What a call takes from its surroundings: the functions of the libraries, the User-Agent, and
  the clock when the breaker is asked, when the request is signed and when it is answered.\<close>

record env =
  env_hmac :: "string \<Rightarrow> string \<Rightarrow> string"
  env_text :: "json \<Rightarrow> string"
  env_http :: "request \<Rightarrow> http_response option"
  env_url_ok :: "string \<Rightarrow> bool"
  env_userAgent :: string
  env_allowAt :: int
  env_nowMs :: int
  env_doneAt :: int

definition BaseURLMainnet :: string where
  "BaseURLMainnet = ''https://api.bitget.com''"

definition NewClient :: "config \<Rightarrow> bool \<Rightarrow> client" where
  "NewClient cfg isTestnet =
     \<lparr>cl_baseURL = (if bg_RestURL (cfg_Bitget cfg) \<noteq> [] then bg_RestURL (cfg_Bitget cfg) else BaseURLMainnet),
      cl_signer = NewSigner (bg_AccessKey (cfg_Bitget cfg)) (bg_SecretKey (cfg_Bitget cfg))
        (bg_Passphrase (cfg_Bitget cfg)),
      cl_circuitBreaker = NewCircuitBreaker (DefaultCircuitBreakerConfig ''bitget-api''),
      cl_isTestnet = isTestnet, cl_sent = []\<rparr>"

definition Close_client :: "client \<Rightarrow> client_error option \<times> client" where
  "Close_client c = (None, c\<lparr>cl_signer := Wipe (cl_signer c)\<rparr>)"

definition build_request :: "env \<Rightarrow> string \<Rightarrow> string \<Rightarrow> json option \<Rightarrow> client \<Rightarrow> request" where
  "build_request E method path payload c =
     (let bodyStr = (case payload of None \<Rightarrow> [] | Some v \<Rightarrow> env_text E v);
          signPath = takeWhile (\<lambda>ch. ch \<noteq> CHR ''?'') path;
          signQuery = dropWhile (\<lambda>ch. ch \<noteq> CHR ''?'') path;
          headers = GenerateHeaders (env_hmac E) (env_nowMs E) method signPath signQuery bodyStr (cl_signer c);
          headers = (if cl_isTestnet c then headers(''paptrading'' \<mapsto> ''1'') else headers)
      in \<lparr>rq_method = method, rq_url = cl_baseURL c @ path,
          rq_headers = headers(''User-Agent'' \<mapsto> env_userAgent E),
          rq_body = map_option (env_text E) payload\<rparr>)"

definition doRequest ::
  "env \<Rightarrow> string \<Rightarrow> string \<Rightarrow> json option \<Rightarrow> client \<Rightarrow> (client_error + http_response) \<times> client" where
  "doRequest E method path payload c =
     (case Allow (env_allowAt E) (cl_circuitBreaker c) of (allowed, cb) \<Rightarrow>
        let c = c\<lparr>cl_circuitBreaker := cb\<rparr> in
        if \<not> allowed then (Inl CircuitOpen, c)
        else if \<not> env_url_ok E (cl_baseURL c @ path) then (Inl CreatingRequest, c)
        else
          let req = build_request E method path payload c; c = c\<lparr>cl_sent := cl_sent c @ [req]\<rparr> in
          (case env_http E req of
             None \<Rightarrow> (Inl TransportFailed, c\<lparr>cl_circuitBreaker := RecordFailure (env_doneAt E) cb\<rparr>)
           | Some resp \<Rightarrow> (Inr resp, c\<lparr>cl_circuitBreaker := RecordSuccess cb\<rparr>)))"

record api_response =
  ar_Code :: string
  ar_Msg :: string
  ar_Data :: "json option"

definition api_response_fields :: "api_response field list" where
  "api_response_fields =
     [(''code'', set_string (\<lambda>x. ar_Code_update (\<lambda>_. x))),
      (''msg'', set_string (\<lambda>x. ar_Msg_update (\<lambda>_. x))),
      (''data'', \<lambda>v r. Some (r\<lparr>ar_Data := Some v\<rparr>))]"

definition parseResponse :: "http_response \<Rightarrow> client_error + json option" where
  "parseResponse resp =
     (case hr_Body resp of
        ReadFails \<Rightarrow> Inl ReadBodyFailed
      | body \<Rightarrow>
          if hr_StatusCode resp \<noteq> 200 then Inl (HttpError (hr_StatusCode resp))
          else
            (case body of
               BodyJson v \<Rightarrow>
                 (case Unmarshal api_response_fields v \<lparr>ar_Code = [], ar_Msg = [], ar_Data = None\<rparr> of
                    None \<Rightarrow> Inl ResponseNotJson
                  | Some r \<Rightarrow>
                      if ar_Code r \<noteq> ''00000'' then Inl (BusinessError (ar_Code r) (ar_Msg r))
                      else Inr (ar_Data r))
             | _ \<Rightarrow> Inl ResponseNotJson))"

text \<open>The struct that is marshalled as the body of an order; two of its fields are left out when
  empty (\<open>omitempty\<close>).\<close>

record place_order_request =
  po_Symbol :: string
  po_ProductType :: string
  po_MarginMode :: string
  po_MarginCoin :: string
  po_Side :: string
  po_TradeSide :: string
  po_OrderType :: string
  po_Force :: string
  po_Price :: string
  po_Size :: string
  po_ClientOrderId :: string

definition json_omitempty :: "string \<Rightarrow> string \<Rightarrow> (string \<times> json) list" where
  "json_omitempty name x = (if x = [] then [] else [(name, json_string x)])"

definition Marshal_place_order :: "place_order_request \<Rightarrow> json" where
  "Marshal_place_order r =
     JObj ([(''symbol'', json_string (po_Symbol r)), (''productType'', json_string (po_ProductType r)),
            (''marginMode'', json_string (po_MarginMode r)), (''marginCoin'', json_string (po_MarginCoin r)),
            (''side'', json_string (po_Side r)), (''tradeSide'', json_string (po_TradeSide r)),
            (''orderType'', json_string (po_OrderType r))]
           @ json_omitempty ''force'' (po_Force r) @ json_omitempty ''price'' (po_Price r)
           @ [(''size'', json_string (po_Size r)), (''clientOid'', json_string (po_ClientOrderId r))])"

definition place_order_reqBody :: "order \<Rightarrow> place_order_request" where
  "place_order_reqBody ord =
     (let priceStr = formatFixedPoint (ord_PriceMicros ord) 6;
          sizeStr = formatFixedPoint (ord_QtySats ord) 8;
          side = (if ord_Side ord = SideSell then ''sell'' else ''buy'');
          reqBody =
            \<lparr>po_Symbol = ord_Symbol ord, po_ProductType = ''USDT-FUTURES'', po_MarginMode = ''crossed'', po_MarginCoin = ''USDT'',
             po_Side = side, po_TradeSide = ''open'', po_OrderType = ''limit'', po_Force = [], po_Price = priceStr,
             po_Size = sizeStr, po_ClientOrderId = ord_ID ord\<rparr>
      in if ord_Type ord = OrderTypeMarket then reqBody\<lparr>po_OrderType := ''market'', po_Price := []\<rparr> else reqBody)"

definition place_order_body :: "order \<Rightarrow> json" where
  "place_order_body ord = Marshal_place_order (place_order_reqBody ord)"

definition PlaceOrder :: "env \<Rightarrow> order \<Rightarrow> client \<Rightarrow> client_error option \<times> client" where
  "PlaceOrder E ord c =
     (case doRequest E ''POST'' ''/api/v2/mix/order/place-order'' (Some (place_order_body ord)) c of
        (Inl e, c) \<Rightarrow> (Some e, c)
      | (Inr resp, c) \<Rightarrow>
          (case parseResponse resp of Inl e \<Rightarrow> (Some e, c) | Inr _ \<Rightarrow> (None, c)))"

text \<open>The body of a cancellation is a Go map, which \<open>json.Marshal\<close> writes with sorted keys.\<close>

definition cancel_order_body :: "string \<Rightarrow> string \<Rightarrow> json" where
  "cancel_order_body orderID symbol =
     JObj [(''clientOid'', json_string orderID), (''productType'', JStr ''USDT-FUTURES''),
           (''symbol'', json_string symbol)]"

definition CancelOrder_client :: "env \<Rightarrow> string \<Rightarrow> string \<Rightarrow> client \<Rightarrow> client_error option \<times> client" where
  "CancelOrder_client E orderID symbol c =
     (case doRequest E ''POST'' ''/api/v2/mix/order/cancel-order'' (Some (cancel_order_body orderID symbol)) c of
        (Inl e, c) \<Rightarrow> (Some e, c)
      | (Inr resp, c) \<Rightarrow>
          (case parseResponse resp of Inl e \<Rightarrow> (Some e, c) | Inr _ \<Rightarrow> (None, c)))"

record account =
  ac_MarginCoin :: string
  ac_Available :: string

definition account_fields :: "account field list" where
  "account_fields =
     [(''marginCoin'', set_string (\<lambda>x. ac_MarginCoin_update (\<lambda>_. x))),
      (''available'', set_string (\<lambda>x. ac_Available_update (\<lambda>_. x)))]"

definition find_balance :: "string \<Rightarrow> account list \<Rightarrow> client_error + i64" where
  "find_balance coin accounts =
     (case find (\<lambda>a. ac_MarginCoin a = coin) accounts of
        None \<Rightarrow> Inr 0
      | Some a \<Rightarrow>
          (case (if coin = ''USDT'' then ParseValueToMicros (ac_Available a) else ParseValueToSats (ac_Available a)) of
             Inl e \<Rightarrow> Inl (BadNumber e)
           | Inr x \<Rightarrow> Inr x))"

definition GetBalance_client :: "env \<Rightarrow> string \<Rightarrow> client \<Rightarrow> (client_error + i64) \<times> client" where
  "GetBalance_client E coin c =
     (case doRequest E ''GET'' ''/api/v2/mix/account/accounts?productType=USDT-FUTURES'' None c of
        (Inl e, c) \<Rightarrow> (Inl e, c)
      | (Inr resp, c) \<Rightarrow>
          (case parseResponse resp of
             Inl e \<Rightarrow> (Inl e, c)
           | Inr None \<Rightarrow> (Inl AccountsNotJson, c)
           | Inr (Some v) \<Rightarrow>
               (case set_structs account_fields \<lparr>ac_MarginCoin = [], ac_Available = []\<rparr> (\<lambda>as _. as) v [] of
                  None \<Rightarrow> (Inl AccountsNotJson, c)
                | Some accounts \<Rightarrow> (find_balance coin accounts, c))))"

section \<open>Executors\<close>

datatype executor = PaperExecutor paper | RealExecutor client

datatype factory_error = FailedToLoadSecrets config_error | UnknownMode string

text \<open>The credentials of a secrets file replace those of the configuration the factory holds.\<close>

definition with_secrets :: "secrets \<Rightarrow> config \<Rightarrow> config" where
  "with_secrets s cfg =
     cfg\<lparr>cfg_Bitget := (cfg_Bitget cfg)
           \<lparr>bg_AccessKey := sc_AccessKey s, bg_SecretKey := sc_SecretKey s, bg_Passphrase := sc_Passphrase s\<rparr>\<rparr>"

text \<open>\<open>load\<close> is \<open>LoadSecretConfig\<close> on the file system and the YAML parser, \<open>getenv\<close> the
  environment. The second component is the configuration afterwards.
  \<open>ToPriceMicros(100_000_000.0)\<close> is exactly \<open>10^14\<close>.\<close>

definition CreateExecution ::
  "(string \<Rightarrow> config_error + secrets) \<Rightarrow> (string \<Rightarrow> string) \<Rightarrow> config \<Rightarrow>
     (panic + factory_error + executor) \<times> config" where
  "CreateExecution load getenv cfg =
     (let mode = cfg_TradingMode cfg in
      if mode = ''PAPER'' then
        (case NewPaperExecution 100000000000000 of
           Panicked p _ \<Rightarrow> (Inl p, cfg)
         | Done _ p \<Rightarrow> (Inr (Inr (PaperExecutor p)), cfg))
      else if mode = ''DEMO'' then
        (case load ''_workspace/secrets/demo.yaml'' of
           Inl e \<Rightarrow> (Inr (Inl (FailedToLoadSecrets e)), cfg)
         | Inr s \<Rightarrow>
             let cfg = with_secrets s cfg in (Inr (Inr (RealExecutor (NewClient cfg True))), cfg))
      else if mode = ''REAL'' then
        (if getenv ''CONFIRM_REAL_MONEY'' \<noteq> ''true'' then (Inl SAFETY_GUARD, cfg)
         else case load ''_workspace/secrets/real.yaml'' of
           Inl e \<Rightarrow> (Inr (Inl (FailedToLoadSecrets e)), cfg)
         | Inr s \<Rightarrow>
             let cfg = with_secrets s cfg in (Inr (Inr (RealExecutor (NewClient cfg False))), cfg))
      else (Inr (Inl (UnknownMode mode)), cfg))"

definition RealExecuteOrder :: "env \<Rightarrow> order \<Rightarrow> client \<Rightarrow> client_error option \<times> client" where
  "RealExecuteOrder E ord c = PlaceOrder E ord c"

definition RealCancelOrder :: "env \<Rightarrow> string \<Rightarrow> string \<Rightarrow> client \<Rightarrow> client_error option \<times> client" where
  "RealCancelOrder E orderID symbol c = CancelOrder_client E orderID symbol c"

definition RealClose :: "client \<Rightarrow> client_error option \<times> client" where
  "RealClose c = Close_client c"

section \<open>Requests\<close>

text \<open>What a call adds to the requests sent: nothing, and then it failed, or the one request it stands for.\<close>

lemma doRequest_sent:
  "doRequest E m path payload c = (r, c') \<Longrightarrow>
     cl_isTestnet c' = cl_isTestnet c \<and> cl_baseURL c' = cl_baseURL c \<and> cl_signer c' = cl_signer c \<and>
     (cl_sent c' = cl_sent c \<and> (\<exists>e. r = Inl e) \<or> cl_sent c' = cl_sent c @ [build_request E m path payload c])"
  by (auto simp: doRequest_def build_request_def Let_def split: prod.splits if_splits option.splits)

lemma PlaceOrder_sent:
  "PlaceOrder E ord c = (e, c') \<Longrightarrow>
     cl_isTestnet c' = cl_isTestnet c \<and> cl_baseURL c' = cl_baseURL c \<and> cl_signer c' = cl_signer c \<and>
     (cl_sent c' = cl_sent c \<and> e \<noteq> None \<or>
      cl_sent c' = cl_sent c @ [build_request E ''POST'' ''/api/v2/mix/order/place-order'' (Some (place_order_body ord)) c])"
  unfolding PlaceOrder_def by (auto dest!: doRequest_sent split: prod.splits sum.splits)

lemma CancelOrder_sent:
  "CancelOrder_client E i y c = (e, c') \<Longrightarrow>
     cl_isTestnet c' = cl_isTestnet c \<and> cl_baseURL c' = cl_baseURL c \<and> cl_signer c' = cl_signer c \<and>
     (cl_sent c' = cl_sent c \<and> e \<noteq> None \<or>
      cl_sent c' = cl_sent c @ [build_request E ''POST'' ''/api/v2/mix/order/cancel-order'' (Some (cancel_order_body i y)) c])"
  unfolding CancelOrder_client_def by (auto dest!: doRequest_sent split: prod.splits sum.splits)

lemma GetBalance_sent:
  "GetBalance_client E coin c = (r, c') \<Longrightarrow>
     cl_sent c' = cl_sent c \<and> (\<exists>e. r = Inl e) \<or>
     cl_sent c' = cl_sent c @ [build_request E ''GET'' ''/api/v2/mix/account/accounts?productType=USDT-FUTURES'' None c]"
  unfolding GetBalance_client_def by (auto dest!: doRequest_sent split: prod.splits sum.splits option.splits)

lemma build_request_simps [simp]:
  "rq_method (build_request E m path payload c) = m" "rq_body (build_request E m path payload c) = map_option (env_text E) payload"
  by (auto simp: build_request_def Let_def split: option.splits)

lemmas call_sent = PlaceOrder_sent [OF prod.collapse [symmetric]]
  CancelOrder_sent [OF prod.collapse [symmetric]] GetBalance_sent [OF prod.collapse [symmetric]]

lemma doRequest_rejected:
  assumes "cb_state (cl_circuitBreaker c) = StateOpen" "cb_lastFailure (cl_circuitBreaker c) = Some t"
    and "env_allowAt E \<le> t + cb_timeout (cl_circuitBreaker c)"
  shows "doRequest E method path payload c = (Inl CircuitOpen, c)"
proof -
  have "Allow (env_allowAt E) (cl_circuitBreaker c) = (False, cl_circuitBreaker c)"
    using assms by (simp add: Allow_def time_since_def)
  then show ?thesis by (simp add: doRequest_def)
qed

fun place_all :: "(env \<times> order) list \<Rightarrow> client \<Rightarrow> client" where
  "place_all [] c = c"
| "place_all ((E, ord) # xs) c = place_all xs (snd (PlaceOrder E ord c))"

definition outage :: "int \<Rightarrow> env \<Rightarrow> bool" where
  "outage t E \<longleftrightarrow> (\<forall>req. env_http E req = None) \<and> (\<forall>u. env_url_ok E u) \<and>
     t \<le> env_doneAt E \<and> env_allowAt E \<le> t + 30000000000"

lemma place_all_open:
  assumes "cb_state (cl_circuitBreaker c) = StateOpen" "cb_lastFailure (cl_circuitBreaker c) = Some d"
    and "t \<le> d" "cb_timeout (cl_circuitBreaker c) = 30000000000" "\<forall>(E, ord) \<in> set xs. outage t E"
  shows "place_all xs c = c"
  using assms
proof (induction xs)
  case (Cons x xs)
  obtain E ord where x: "x = (E, ord)" by (cases x)
  have "env_allowAt E \<le> d + cb_timeout (cl_circuitBreaker c)"
    using Cons.prems x by (auto simp: outage_def)
  then have "PlaceOrder E ord c = (Some CircuitOpen, c)"
    using doRequest_rejected [OF Cons.prems(1,2)] by (simp add: PlaceOrder_def)
  then show ?case using Cons x by simp
qed simp

lemma PlaceOrder_outage:
  assumes "outage t E" "cb_state (cl_circuitBreaker c) = StateClosed"
  shows "\<exists>req. snd (PlaceOrder E ord c) =
    c\<lparr>cl_sent := cl_sent c @ [req], cl_circuitBreaker := RecordFailure (env_doneAt E) (cl_circuitBreaker c)\<rparr>"
proof -
  have "Allow (env_allowAt E) (cl_circuitBreaker c) = (True, cl_circuitBreaker c)"
    using assms(2) by (simp add: Allow_def)
  then show ?thesis using assms(1)
    by (intro exI [of _ "build_request E ''POST'' ''/api/v2/mix/order/place-order'' (Some (place_order_body ord)) c"])
      (simp add: PlaceOrder_def doRequest_def outage_def Let_def)
qed

lemma place_all_closed:
  assumes "cb_state (cl_circuitBreaker c) = StateClosed" "cb_failureCount (cl_circuitBreaker c) = int k" "k < 5"
    and "cb_failureThreshold (cl_circuitBreaker c) = 5" "cb_timeout (cl_circuitBreaker c) = 30000000000"
    and "\<forall>(E, ord) \<in> set xs. outage t E"
  shows "length (cl_sent (place_all xs c)) = length (cl_sent c) + min (length xs) (5 - k)"
  using assms
proof (induction xs arbitrary: c k)
  case (Cons x xs)
  obtain E ord where x: "x = (E, ord)" by (cases x)
  have out: "outage t E" "\<forall>(E, ord) \<in> set xs. outage t E" using Cons.prems(6) x by auto
  let ?cb = "cl_circuitBreaker c"
  obtain req where p: "snd (PlaceOrder E ord c) =
      c\<lparr>cl_sent := cl_sent c @ [req], cl_circuitBreaker := RecordFailure (env_doneAt E) ?cb\<rparr>"
    using PlaceOrder_outage [OF out(1) Cons.prems(1)] by blast
  show ?case
  proof (cases "Suc k < 5")
    case True
    then have "RecordFailure (env_doneAt E) ?cb =
        ?cb\<lparr>cb_lastFailure := Some (env_doneAt E), cb_failureCount := int (Suc k)\<rparr>"
      using Cons.prems by (simp add: RecordFailure_def Let_def)
    then show ?thesis
      using Cons.IH [of "snd (PlaceOrder E ord c)" "Suc k"] Cons.prems True out(2) x p by simp
  next
    case False
    then have rf: "cb_state (RecordFailure (env_doneAt E) ?cb) = StateOpen"
      "cb_lastFailure (RecordFailure (env_doneAt E) ?cb) = Some (env_doneAt E)"
      "cb_timeout (RecordFailure (env_doneAt E) ?cb) = 30000000000"
      using Cons.prems by (simp_all add: RecordFailure_def Let_def)
    have "place_all xs (snd (PlaceOrder E ord c)) = snd (PlaceOrder E ord c)"
      by (rule place_all_open [of _ "env_doneAt E" t]) (use rf p out in \<open>auto simp: outage_def\<close>)
    then show ?thesis using x p False Cons.prems(3) by simp
  qed
qed simp

text \<open>The times of the calls, in the order in which the clock is read.\<close>

definition call_clock :: "(env \<times> order) list \<Rightarrow> int list" where
  "call_clock xs = concat (map (\<lambda>(E, ord). [env_allowAt E, env_doneAt E]) xs)"

text \<open>A breaker at time \<open>now\<close> of an outage that began at \<open>t\<close>: the requests sent so far are the failures it has
  counted, or five and one for each timeout that has passed.\<close>

definition outage_inv :: "int \<Rightarrow> int \<Rightarrow> client \<Rightarrow> bool" where
  "outage_inv t now c \<longleftrightarrow>
     (let cb = cl_circuitBreaker c; n = int (length (cl_sent c)) in
      cb_failureThreshold cb = 5 \<and> cb_timeout cb = 30000000000 \<and>
      (cb_state cb = StateClosed \<and> cb_failureCount cb = n \<and> n < 5 \<or>
       cb_state cb = StateOpen \<and> (\<exists>d. t \<le> d \<and> d \<le> now \<and> cb_lastFailure cb = Some d \<and> n \<le> 5 + (d - t) div 30000000000)))"

lemma PlaceOrder_fails:
  assumes "\<forall>req. env_http E req = None" "\<forall>u. env_url_ok E u" "Allow (env_allowAt E) (cl_circuitBreaker c) = (True, cb)"
  shows "cl_circuitBreaker (snd (PlaceOrder E ord c)) = RecordFailure (env_doneAt E) cb \<and>
    length (cl_sent (snd (PlaceOrder E ord c))) = Suc (length (cl_sent c))"
  using assms by (simp add: PlaceOrder_def doRequest_def Let_def)

lemma one_more_timeout:
  fixes n :: int
  assumes "n \<le> 5 + (d - t) div 30000000000" "30000000000 < a - d" "a \<le> b"
  shows "n + 1 \<le> 5 + (b - t) div 30000000000"
proof -
  have "(d - t) div 30000000000 + 1 = (d - t + 30000000000) div 30000000000" by simp
  also have "\<dots> \<le> (b - t) div 30000000000" using assms(2,3) by (intro zdiv_mono1) auto
  finally show ?thesis using assms(1) by simp
qed

lemma PlaceOrder_outage_inv:
  assumes "outage_inv t now c" "\<forall>req. env_http E req = None" "\<forall>u. env_url_ok E u"
    and "t \<le> now" "now \<le> env_allowAt E" "env_allowAt E \<le> env_doneAt E"
  shows "outage_inv t (env_doneAt E) (snd (PlaceOrder E ord c))"
proof -
  let ?cb = "cl_circuitBreaker c" and ?c = "snd (PlaceOrder E ord c)"
  have le: "t \<le> env_doneAt E" using assms(4-6) by simp
  from assms(1) consider (closed) "cb_state ?cb = StateClosed"
    | (opened) d where "cb_state ?cb = StateOpen" "cb_lastFailure ?cb = Some d" "t \<le> d" "d \<le> now"
      "int (length (cl_sent c)) \<le> 5 + (d - t) div 30000000000"
    by (auto simp: outage_inv_def Let_def)
  then show ?thesis
  proof cases
    case closed
    then have "Allow (env_allowAt E) ?cb = (True, ?cb)" by (simp add: Allow_def)
    from PlaceOrder_fails [OF assms(2,3) this, of ord] show ?thesis
      using assms(1) closed le pos_imp_zdiv_nonneg_iff [of 30000000000 "env_doneAt E - t"]
      by (simp add: outage_inv_def Let_def RecordFailure_def)
  next
    case opened
    show ?thesis
    proof (cases "30000000000 < env_allowAt E - d")
      case True
      then have "Allow (env_allowAt E) ?cb = (True, ?cb\<lparr>cb_state := StateHalfOpen, cb_successCount := 0\<rparr>)"
        using opened assms(1) by (simp add: Allow_def time_since_def outage_inv_def Let_def)
      from PlaceOrder_fails [OF assms(2,3) this, of ord] one_more_timeout [OF opened(5) True assms(6)] show ?thesis
        using assms(1) le by (simp add: outage_inv_def Let_def RecordFailure_def add.commute)
    next
      case False
      then have "?c = c"
        using doRequest_rejected [OF opened(1,2), of E] assms(1) by (simp add: PlaceOrder_def outage_inv_def Let_def)
      then show ?thesis using assms(1,5,6) opened by (simp add: outage_inv_def Let_def)
    qed
  qed
qed

lemma place_all_outage_inv:
  assumes "outage_inv t now c" "\<forall>(E, ord) \<in> set xs. (\<forall>req. env_http E req = None) \<and> (\<forall>u. env_url_ok E u)"
    and "t \<le> now" "sorted (now # call_clock xs @ [tEnd])"
  shows "outage_inv t tEnd (place_all xs c)"
  using assms
proof (induction xs arbitrary: c now)
  case Nil
  then show ?case by (fastforce simp: outage_inv_def Let_def call_clock_def)
next
  case (Cons x xs)
  obtain E ord where x: "x = (E, ord)" by (cases x)
  have "outage_inv t (env_doneAt E) (snd (PlaceOrder E ord c))"
    by (rule PlaceOrder_outage_inv [OF Cons.prems(1)]) (use Cons.prems x in \<open>auto simp: call_clock_def\<close>)
  then show ?case using Cons.IH [of "env_doneAt E" "snd (PlaceOrder E ord c)"] Cons.prems x by (auto simp: call_clock_def)
qed

section \<open>Properties\<close>

text \<open>C20. An exchange that is down is left alone. A new client that is asked to place any number of
  orders while every request fails sends at most five requests within the 30 seconds after the
  outage began, exactly as many as it is asked to up to five; and as long as the outage lasts it
  sends at most one more for every further 30 seconds. The other orders are refused by the
  circuit breaker without touching the network.\<close>

theorem outage_costs_five_requests:
  assumes "\<forall>(E, ord) \<in> set xs. (\<forall>req. env_http E req = None) \<and> (\<forall>u. env_url_ok E u)"
  shows "((\<forall>(E, ord) \<in> set xs. t \<le> env_doneAt E \<and> env_allowAt E \<le> t + 30000000000) \<longrightarrow>
      length (cl_sent (place_all xs (NewClient cfg testnet))) = min (length xs) 5) \<and>
    (sorted (t # call_clock xs @ [tEnd]) \<longrightarrow>
      int (length (cl_sent (place_all xs (NewClient cfg testnet)))) \<le> 5 + (tEnd - t) div 30000000000)"
proof (intro conjI impI)
  assume "\<forall>(E, ord) \<in> set xs. t \<le> env_doneAt E \<and> env_allowAt E \<le> t + 30000000000"
  then have "\<forall>(E, ord) \<in> set xs. outage t E" using assms by (auto simp: outage_def)
  then show "length (cl_sent (place_all xs (NewClient cfg testnet))) = min (length xs) 5"
    using place_all_closed [of "NewClient cfg testnet" 0 xs t]
    by (simp add: NewClient_def NewCircuitBreaker_def DefaultCircuitBreakerConfig_def)
next
  assume so: "sorted (t # call_clock xs @ [tEnd])"
  have "outage_inv t t (NewClient cfg testnet)"
    by (simp add: outage_inv_def NewClient_def NewCircuitBreaker_def DefaultCircuitBreakerConfig_def)
  then have "outage_inv t tEnd (place_all xs (NewClient cfg testnet))"
    by (rule place_all_outage_inv [OF _ assms order_refl so])
  then show "int (length (cl_sent (place_all xs (NewClient cfg testnet)))) \<le> 5 + (tEnd - t) div 30000000000"
    using so pos_imp_zdiv_nonneg_iff [of 30000000000 "tEnd - t"]
    by (fastforce simp: outage_inv_def Let_def intro: order_trans [OF _ add_left_mono [OF zdiv_mono1]])
qed

definition example_env :: env where
  "example_env =
     \<lparr>env_hmac = (\<lambda>k p. k @ p), env_text = (\<lambda>_. ''{}''), env_http = (\<lambda>_. None), env_url_ok = (\<lambda>_. True),
      env_userAgent = ''ua'', env_allowAt = 5, env_nowMs = 0, env_doneAt = 6\<rparr>"

theorem outage_costs_five_requests_witness:
  "length (cl_sent (place_all (replicate 9 (example_env, zero_order)) (NewClient example_config True))) = 5 \<and>
   length (cl_sent (place_all [(example_env, zero_order), (example_env\<lparr>env_allowAt := 7, env_doneAt := 8\<rparr>, zero_order)]
     (NewClient example_config True))) \<le> 5"
  using outage_costs_five_requests [of "replicate 9 (example_env, zero_order)" 0 example_config True 0]
    outage_costs_five_requests [of "[(example_env, zero_order), (example_env\<lparr>env_allowAt := 7, env_doneAt := 8\<rparr>, zero_order)]"
      0 example_config True 9]
  by (simp add: example_env_def call_clock_def)

lemma take_drop_While: "takeWhile P xs @ dropWhile P xs @ ys = xs @ ys"
  by (simp flip: append_assoc)

text \<open>C21. Every request that leaves the client is signed over what it asks: the signature header is
  the HMAC, under the secret key, of the timestamp in the timestamp header, the method, the full
  path with its query as in the URL, and the body that is sent; and the simulated-trading header
  is present exactly on a testnet client.\<close>

theorem requests_are_signed:
  assumes "doRequest E method path payload c = (r, c')"
  shows "cl_sent c' = cl_sent c \<or>
    (\<exists>req ts. cl_sent c' = cl_sent c @ [req] \<and> rq_method req = method \<and> rq_url req = cl_baseURL c @ path \<and>
       rq_headers req ''ACCESS-TIMESTAMP'' = Some ts \<and>
       rq_headers req ''ACCESS-SIGN'' = Some (env_hmac E (sg_secretKey (cl_signer c))
         (ts @ method @ path @ (case rq_body req of None \<Rightarrow> [] | Some b \<Rightarrow> b))) \<and>
       (rq_headers req ''paptrading'' = Some ''1'' \<longleftrightarrow> cl_isTestnet c))"
proof -
  obtain ok cb where a: "Allow (env_allowAt E) (cl_circuitBreaker c) = (ok, cb)"
    by (cases "Allow (env_allowAt E) (cl_circuitBreaker c)")
  let ?c = "c\<lparr>cl_circuitBreaker := cb\<rparr>"
  let ?req = "build_request E method path payload ?c"
  have req: "rq_method ?req = method" "rq_url ?req = cl_baseURL c @ path"
    "rq_headers ?req ''ACCESS-TIMESTAMP'' = Some (fmt_d (env_nowMs E))"
    "rq_headers ?req ''ACCESS-SIGN'' = Some (env_hmac E (sg_secretKey (cl_signer c))
       (fmt_d (env_nowMs E) @ method @ path @ (case rq_body ?req of None \<Rightarrow> [] | Some b \<Rightarrow> b)))"
    "rq_headers ?req ''paptrading'' = Some ''1'' \<longleftrightarrow> cl_isTestnet c"
    by (cases payload; simp add: build_request_def GenerateHeaders_def Let_def take_drop_While)+
  show ?thesis
  proof (cases "ok \<and> env_url_ok E (cl_baseURL c @ path)")
    case True
    then have "cl_sent c' = cl_sent c @ [?req]"
      using assms a by (auto simp: doRequest_def Let_def split: option.splits)
    with req show ?thesis by blast
  next
    case False
    then have "cl_sent c' = cl_sent c" using assms a by (auto simp: doRequest_def Let_def split: if_splits)
    then show ?thesis by simp
  qed
qed

theorem requests_are_signed_witness:
  "\<exists>req. cl_sent (snd (doRequest example_env ''GET'' ''/a?b=c'' None (NewClient example_config True))) = [req] \<and>
     rq_headers req ''ACCESS-SIGN'' = Some ''d0GET/a?b=c''"
proof -
  let ?c = "NewClient example_config True"
  obtain r c' where d: "doRequest example_env ''GET'' ''/a?b=c'' None ?c = (r, c')"
    by (cases "doRequest example_env ''GET'' ''/a?b=c'' None ?c")
  have "cl_sent c' \<noteq> []"
    using d by (auto simp: doRequest_def Let_def Allow_def NewClient_def NewCircuitBreaker_def example_env_def)
  moreover have "rq_body req = None" "rq_headers req ''ACCESS-TIMESTAMP'' = Some ''0''" if "cl_sent c' = [req]" for req
    using d that by (auto simp: doRequest_def Let_def Allow_def NewClient_def NewCircuitBreaker_def
        example_env_def build_request_def GenerateHeaders_def fmt_d_def dec.simps digit_char_def char_of_def bit_0)
  ultimately show ?thesis
    using requests_are_signed [OF d] d
    by (auto simp: NewClient_def NewSigner_def example_env_def example_config_def)
qed

lemma formatFixedPoint_ascii:
  assumes "v \<noteq> MinInt64" "0 < p" "p \<le> 18"
  shows "json_string (formatFixedPoint v p) = JStr (formatFixedPoint v p)" "formatFixedPoint v p \<noteq> []"
proof -
  let ?s = "formatFixedPoint v p"
  have digit: "byte_in 0 127 c" if "digit_val c \<noteq> None" for c
    using that by (auto simp: digit_val_def byte_in_def Let_def split: if_splits)
  have "\<forall>c \<in> set ?s. byte_in 0 127 c"
    unfolding formatFixedPoint_decimal [OF assms] decimal_def pad0_def
    using digits_dec digit by (auto simp: byte_in_def split: if_splits)
  then show "json_string ?s = JStr ?s" by (simp add: json_string_def ascii_well_encoded)
  show "?s \<noteq> []" by (simp add: formatFixedPoint_decimal [OF assms] decimal_def)
qed

text \<open>C31. The numbers on the wire are exact: in the body of a limit order the price and the size
  are decimals that read back as exactly the order's \<open>int64\<close> price and quantity, and a market
  order carries no price.\<close>

theorem order_numbers_exact_on_wire:
  assumes "ord_PriceMicros ord \<noteq> MinInt64" "ord_QtySats ord \<noteq> MinInt64" "place_order_body ord = JObj ms"
  shows "(\<exists>s. map_of ms ''size'' = Some (JStr s) \<and> ParseValueToSats s = Inr (ord_QtySats ord)) \<and>
    (case map_of ms ''price'' of
       None \<Rightarrow> ord_Type ord = ''MARKET''
     | Some v \<Rightarrow> ord_Type ord \<noteq> ''MARKET'' \<and>
         (\<exists>p. v = JStr p \<and> ParseValueToMicros p = Inr (ord_PriceMicros ord)))"
  using assms format_parse_exact [OF assms(1), of 6] format_parse_exact [OF assms(2), of 8]
    formatFixedPoint_ascii [OF assms(1), of 6] formatFixedPoint_ascii [OF assms(2), of 8]
  by (auto simp: place_order_body_def Marshal_place_order_def json_omitempty_def place_order_reqBody_def Let_def
      OrderTypeMarket_def ParseValueToSats_def ParseValueToMicros_def)

theorem order_numbers_exact_on_wire_witness:
  "\<exists>ms s. place_order_body (example_order ''BUY'' 10000000) = JObj ms \<and> map_of ms ''size'' = Some (JStr s) \<and>
     ParseValueToSats s = Inr 10000000"
proof -
  obtain ms where ms: "place_order_body (example_order ''BUY'' 10000000) = JObj ms"
    by (simp add: place_order_body_def Marshal_place_order_def)
  show ?thesis
    using order_numbers_exact_on_wire [OF _ _ ms] ms by (simp add: example_order_def i64_eq_iff)
qed

text \<open>Closing a client wipes its credentials: every byte of the three keys becomes zero, and
  nothing else of the client changes.\<close>

lemma close_wipes_credentials:
  "\<exists>c'. Close_client c = (None, c') \<and>
    (\<forall>ch \<in> set (sg_accessKey (cl_signer c') @ sg_secretKey (cl_signer c') @ sg_passphrase (cl_signer c')).
       of_char ch = (0 :: nat)) \<and>
    length (sg_secretKey (cl_signer c')) = length (sg_secretKey (cl_signer c)) \<and>
    c'\<lparr>cl_signer := cl_signer c\<rparr> = c"
  by (auto simp: Close_client_def Wipe_def wipeSlice_def)

lemma close_wipes_credentials_witness:
  "map of_char (sg_secretKey (cl_signer (snd (Close_client (NewClient example_config True))))) = [0 :: nat]"
proof -
  obtain c' where c': "Close_client (NewClient example_config True) = (None, c')"
    "\<forall>ch \<in> set (sg_secretKey (cl_signer c')). of_char ch = (0 :: nat)" "length (sg_secretKey (cl_signer c')) = 1"
    using close_wipes_credentials [of "NewClient example_config True"]
    by (auto simp: NewClient_def NewSigner_def example_config_def)
  obtain ch where ch: "sg_secretKey (cl_signer c') = [ch]" using c'(3) by (cases "sg_secretKey (cl_signer c')") auto
  with c'(1,2) show ?thesis by simp
qed

text \<open>C35. Real money is behind a latch: the factory returns a client for the live exchange only in
  mode \<open>REAL\<close> with \<open>CONFIRM_REAL_MONEY=true\<close> in the environment, and it signs with the keys of
  \<open>real.yaml\<close>; without the confirmation the factory panics; the demo mode never returns a
  client without the simulated-trading header.\<close>

theorem real_money_needs_confirmation:
  "(fst (CreateExecution load getenv cfg) = Inr (Inr (RealExecutor c)) \<and> \<not> cl_isTestnet c \<longrightarrow>
      cfg_TradingMode cfg = ''REAL'' \<and> getenv ''CONFIRM_REAL_MONEY'' = ''true'' \<and>
      (\<exists>s. load ''_workspace/secrets/real.yaml'' = Inr s \<and>
         cl_signer c = NewSigner (sc_AccessKey s) (sc_SecretKey s) (sc_Passphrase s))) \<and>
   (cfg_TradingMode cfg = ''REAL'' \<and> getenv ''CONFIRM_REAL_MONEY'' \<noteq> ''true'' \<longrightarrow>
      fst (CreateExecution load getenv cfg) = Inl SAFETY_GUARD) \<and>
   (cfg_TradingMode cfg = ''DEMO'' \<and> fst (CreateExecution load getenv cfg) = Inr (Inr (RealExecutor c)) \<longrightarrow>
      cl_isTestnet c)"
  by (auto simp: CreateExecution_def NewClient_def with_secrets_def Let_def
      split: outcome.splits sum.splits if_splits)

theorem real_money_needs_confirmation_witness:
  "fst (CreateExecution (LoadSecretConfig (\<lambda>_. None) (\<lambda>_. None)) (\<lambda>_. ''yes'')
     (example_config\<lparr>cfg_TradingMode := ''REAL''\<rparr>)) = Inl SAFETY_GUARD"
  using real_money_needs_confirmation [of "LoadSecretConfig (\<lambda>_. None) (\<lambda>_. None)" "\<lambda>_. ''yes''"
      "example_config\<lparr>cfg_TradingMode := ''REAL''\<rparr>"] by simp

end
