(* ===== verification/Main_App.thy ===== *)
theory Main_App
  imports Application Startup Gateways Bitget_Client
begin

text \<open>
  The program itself: \<open>main\<close> of \<open>cmd/app/main.go\<close> from the bootstrap to the running goroutines, and the
  banner it prints (\<open>internal/infra/banner.go\<close>). It composes \<open>Initialize\<close> (theory \<open>Startup\<close>), the recovery
  (theory \<open>Application\<close>) and the constructors of the gateways (theories \<open>Gateways\<close> and \<open>Exchange_Rate\<close>).
  The profiling server and the signals are left out.
\<close>

section \<open>The banner\<close>

text \<open>\<open>utf8.RuneCountInString\<close>, which the width of a verb counts in: a byte that starts no valid sequence
  counts as one.\<close>

function rune_count :: "string \<Rightarrow> nat" where
  "rune_count [] = 0"
| "rune_count (c # s) = 1 + rune_count (drop (rune_size (c # s) - 1) s)"
  by pat_completeness auto
termination by (relation "measure length") auto

text \<open>The verb \<open>%-36s\<close>.\<close>

definition pad_right36 :: "string \<Rightarrow> string" where
  "pad_right36 s = s @ replicate (36 - rune_count s) (CHR '' '')"

definition ansi :: "string \<Rightarrow> string" where
  "ansi code = CHR 0x1B # ''['' @ code @ ''m''"

definition ColorReset :: string where
  "ColorReset = ansi ''0''"

definition ColorRed :: string where
  "ColorRed = ansi ''31''"

definition ColorGreen :: string where
  "ColorGreen = ansi ''32''"

definition ColorYellow :: string where
  "ColorYellow = ansi ''33''"

definition ColorCyan :: string where
  "ColorCyan = ansi ''36''"

text \<open>The rocket and the warning sign as bytes.\<close>

definition rocket :: string where
  "rocket = map char_of [240 :: nat, 159, 154, 128]"

definition warning_sign :: string where
  "warning_sign = map char_of [226 :: nat, 154, 160, 239, 184, 143]"

definition banner_mode :: "string \<Rightarrow> string \<times> string" where
  "banner_mode mode =
     (if mode = ''REAL'' then (ColorRed, ''REAL MONEY TRADING'')
      else if mode = ''DEMO'' then (ColorYellow, ''TESTNET (PLAY MONEY)'')
      else if mode = ''PAPER'' then (ColorCyan, ''INTERNAL SIMULATION'')
      else (ColorGreen, ''SIMULATION''))"

definition banner_line :: "string \<Rightarrow> string \<Rightarrow> string" where
  "banner_line color t = color @ t @ ColorReset"

definition real_warning :: "string list" where
  "real_warning =
     map (banner_line ColorRed)
       [''#   '' @ warning_sign @ ''  WARNING: YOU ARE TRADING WITH REAL MONEY  '' @ warning_sign @ ''      #'',
        ''#   ENSURE YOU HAVE VERIFIED YOUR STRATEGY IN DEMO        #'']"

text \<open>The lines printed.\<close>

definition PrintBanner :: "config \<Rightarrow> string list" where
  "PrintBanner cfg =
     (let mode = ToUpper (cfg_TradingMode cfg); version = cfg_AppVersion cfg in
      case banner_mode mode of (color, modeDesc) \<Rightarrow>
        let frame = ''###########################################################'';
            blank = ''#                                                         #''
        in [[]] @
           map (banner_line color)
             [frame, blank,
              ''#               '' @ rocket @ '' CryptoGo Trading System                #'',
              blank,
              ''#   MODE:    '' @ pad_right36 mode @ '' #'',
              ''#   TYPE:    '' @ pad_right36 modeDesc @ '' #'',
              ''#   VERSION: '' @ pad_right36 version @ '' #'',
              blank] @
           (if mode = ''REAL'' then real_warning else []) @
           [banner_line color frame, []])"

section \<open>Main\<close>

text \<open>What runs once \<open>main\<close> waits for the signal: the sequencer with its inbox, the rate client, the
  workers whose symbols are configured, and the asset synchronisation.\<close>

record running_app =
  ra_app :: "sma_cross application"
  ra_rate :: rate_client
  ra_upbit :: "string list feed ws_system option"
  ra_spot :: "(string \<times> string) list feed ws_system option"
  ra_futures :: "(string \<times> string) list feed ws_system option"
  ra_sync :: sync_state

text \<open>An error ends the process with status 1; so does a panic of the constructor or of the recovery.\<close>

datatype main_end =
    BootstrapFailed init_error
  | NilDereference
  | StrategyPanicked panic
  | RecoveryFailed
  | Running running_app

definition start_gateways :: "(string \<times> string) list \<Rightarrow> string list \<Rightarrow> config \<Rightarrow> event_store \<Rightarrow> sma_cross application \<Rightarrow> running_app" where
  "start_gateways bitget icons cfg store a =
     (let upbit = up_Symbols (cfg_Upbit cfg); inbox = ap_inbox a; cap = ap_cap a; nextSeq = ap_nextSeq a
      in \<lparr>ra_app = a,
          ra_rate = NewExchangeRateClientWithConfig inbox cap nextSeq (rt_URL (cfg_ExchangeRate cfg))
            (word_of_int (rt_PollIntervalSec (cfg_ExchangeRate cfg))),
          ra_upbit = (if upbit \<noteq> [] then Some (Connect_worker (upbit_NewWorker upbit inbox cap nextSeq)) else None),
          ra_spot = (if bitget \<noteq> [] then Some (Connect_worker (NewSpotWorker bitget inbox cap nextSeq)) else None),
          ra_futures = (if bitget \<noteq> [] then Some (Connect_worker (NewFuturesWorker bitget inbox cap nextSeq)) else None),
          ra_sync = sync_init store icons\<rparr>)"

text \<open>\<open>bitget\<close> lists the symbols of the configuration in the order the runtime iterates over the map,
  \<open>icons\<close> the icon files there are. The second component is what was printed.\<close>

definition app_main ::
  "init_world \<Rightarrow> pid \<Rightarrow> globals \<Rightarrow> lock_os \<Rightarrow> (string \<times> string) list \<Rightarrow> string list \<Rightarrow> string list \<Rightarrow> bool \<Rightarrow> db_fault \<Rightarrow>
     main_end \<times> string list \<times> lock_os" where
  "app_main W p g s bitget icons order lastFault loadFault =
     (case Initialize W p NewBootstrap g s of
        (Some e, _, _, s) \<Rightarrow> (BootstrapFailed e, [], s)
      | (None, b, g, s) \<Rightarrow>
          (case (bs_Config b, bs_EventStore b) of
             (Some cfg, Some (_, evStore)) \<Rightarrow>
               let out = PrintBanner cfg in
               (case NewSMACrossStrategy ''BTC-USDT'' 3 5 of
                  Inl e \<Rightarrow> (StrategyPanicked e, out, s)
                | Inr strat \<Rightarrow>
                    (case boot OnMarketUpdate order lastFault loadFault evStore strat of
                       None \<Rightarrow> (RecoveryFailed, out, s)
                     | Some a \<Rightarrow> (Running (start_gateways bitget icons cfg evStore a), out, s)))
           | _ \<Rightarrow> (NilDereference, [], s)))"


section \<open>The start\<close>

lemma main_strategy: "\<exists>strat. NewSMACrossStrategy ''BTC-USDT'' 3 5 = Inr strat"
  by (simp add: NewSMACrossStrategy_def)

lemma Initialize_parts:
  assumes "Initialize W p NewBootstrap g s = (None, b, g', s')"
  obtains cfg st where "bs_Config b = Some cfg" "load_config W = Inr cfg"
    "bs_EventStore b = Some (db_path (workspace W) (cfg_TradingMode cfg), st)"
    "NewEventStore None (iw_database W (db_path (workspace W) (cfg_TradingMode cfg))) = Inr st"
  using assms
  by (auto simp: Initialize_def NewBootstrap_def Let_def db_path_def load_config_def NewEventStore_def
      split: sum.splits if_splits prod.splits option.splits)

lemma app_main_running:
  assumes "app_main W p g s bitget icons order lastFault loadFault = (Running r, out, s')"
    and "NewSMACrossStrategy ''BTC-USDT'' 3 5 = Inr strat"
  obtains b g' cfg st where "Initialize W p NewBootstrap g s = (None, b, g', s')" "load_config W = Inr cfg"
    "NewEventStore None (iw_database W (db_path (workspace W) (cfg_TradingMode cfg))) = Inr st"
    "boot OnMarketUpdate order lastFault loadFault st strat = Some (ra_app r)" "out = PrintBanner cfg"
proof -
  obtain e b g' s1 where i: "Initialize W p NewBootstrap g s = (e, b, g', s1)" by (cases "Initialize W p NewBootstrap g s")
  then have e: "e = None" using assms(1) by (cases e) (simp_all add: app_main_def)
  obtain cfg st where c: "bs_Config b = Some cfg" "load_config W = Inr cfg"
    "bs_EventStore b = Some (db_path (workspace W) (cfg_TradingMode cfg), st)"
    "NewEventStore None (iw_database W (db_path (workspace W) (cfg_TradingMode cfg))) = Inr st"
    using Initialize_parts i e by blast
  have "boot OnMarketUpdate order lastFault loadFault st strat = Some (ra_app r)" "s1 = s'" "out = PrintBanner cfg"
    using assms i e c by (auto simp: app_main_def start_gateways_def Let_def split: option.splits)
  then show ?thesis using that i e c by simp
qed

text \<open>Whatever happened to the metadata table, recovery reads the events alone.\<close>

lemma replay_all_store: "replay_all om evs (set_store x s) = on_state (set_store x) (replay_all om evs s)"
proof (induction evs arbitrary: s)
  case (Cons ev evs)
  have "ReplayEvent om ev (set_store x s) = on_state (set_store x) (ReplayEvent om ev s)"
    unfolding ReplayEvent_def dispatch_store by (cases "dispatch om ev s") simp_all
  then show ?case using Cons by (cases "ReplayEvent om ev s") simp_all
qed simp

lemma LoadEvents_events:
  assumes "es_events st = es_events st'"
  shows "LoadEvents f n st = LoadEvents f n st'"
  unfolding LoadEvents_def select_from_def assms by (rule refl)

lemma boot_events_only:
  assumes "es_events st' = es_events st" "boot om order f lf st strat = Some a"
  shows "boot om order f lf st' strat = Some (a\<lparr>ap_engine := set_store (Some st') (ap_engine a)\<rparr>)"
proof -
  let ?s = "NewSequencer (Some st) (Some strat) True" and ?x = "Some st'"
  have n: "NewSequencer ?x (Some strat) True = set_store ?x ?s" by (simp add: NewSequencer_def)
  have l: "GetLastSeq f st' = GetLastSeq f st" using assms(1) by (simp add: GetLastSeq_def)
  have "RecoverFromWAL om order f lf (set_store ?x ?s) = on_state (set_store ?x) (RecoverFromWAL om order f lf ?s)"
    unfolding RecoverFromWAL_def replay_all_store
    by (cases "GetLastSeq f st"; cases "LoadEvents lf 1 st"; cases "replay_all om (projr (LoadEvents lf 1 st)) ?s";
        cases "VerifyAll order (sq_balanceBook (final (replay_all om (projr (LoadEvents lf 1 st)) ?s)))")
      (simp_all add: l LoadEvents_events [OF assms(1)])
  then show ?thesis using assms(2) unfolding boot_def n
    by (cases "RecoverFromWAL om order f lf ?s") (auto split: option.splits)
qed


text \<open>C1. The process resumes where it stopped. Suppose \<open>main\<close> ran on a database without events, its
  goroutines took any steps, and the process died. A later start, of any process on the same
  workspace with the same mode, whose bootstrap succeeds on the events that were left in the database
  (the metadata may have changed) gets to the running state, and its engine is in exactly the state the
  old one was in, on the database found; the inbox is empty.\<close>

theorem main_resumes:
  assumes "app_main W p g s bitget icons order False NoFault = (Running r, out, s1)"
    and "NewSMACrossStrategy ''BTC-USDT'' 3 5 = Inr strat"
    and "load_config W = Inr cfg" "path = db_path (workspace W) (cfg_TradingMode cfg)"
    and "db_events (iw_database W path) = None \<or> db_events (iw_database W path) = Some []"
    and "app_run OnMarketUpdate order strat (ra_app r) ls b" "\<forall>(f, ev) \<in> set (processed ls). event_well_encoded ev"
    and "Initialize W' q NewBootstrap g' s' = (None, b', g2, s2)" "load_config W' = Inr cfg'"
    and "db_path (workspace W') (cfg_TradingMode cfg') = path"
    and "sq_store (ap_engine b) = Some st" "db_events (iw_database W' path) = Some (es_events st)"
  shows "\<exists>r' out' st'. app_main W' q g' s' bitget' icons' order False NoFault = (Running r', out', s2) \<and>
    es_events st' = es_events st \<and> ap_inbox (ra_app r') = [] \<and>
    ap_engine (ra_app r') = (ap_engine b)\<lparr>sq_store := Some st'\<rparr>"
proof -
  obtain st0 where st0: "NewEventStore None (iw_database W path) = Inr st0"
    "boot OnMarketUpdate order False NoFault st0 strat = Some (ra_app r)"
    using app_main_running [OF assms(1,2)] assms(3,4) by (metis Inr_inject)
  have em: "es_events st0 = []" using st0(1) assms(5) by (auto simp: NewEventStore_def create_if_missing_def)
  have "app_inv OnMarketUpdate strat st0 ls b" by (rule app_run_inv [OF assms(6) boot_inv [OF st0(2) em] em assms(7)])
  then have "process_all OnMarketUpdate (processed ls) (NewSequencer (Some st0) (Some strat) True) = Done () (ap_engine b)"
    by (simp add: app_inv_def)
  note boot = boot_of_run [OF this em assms(7,11), of order]
  obtain cfg'' st' where c: "bs_Config b' = Some cfg''" "load_config W' = Inr cfg''"
    "bs_EventStore b' = Some (db_path (workspace W') (cfg_TradingMode cfg''), st')"
    "NewEventStore None (iw_database W' (db_path (workspace W') (cfg_TradingMode cfg''))) = Inr st'"
    using Initialize_parts [OF assms(8)] by blast
  then have ev: "es_events st' = es_events st" using assms(9,10,12) by (auto simp: NewEventStore_def create_if_missing_def)
  let ?a = "\<lparr>ap_inbox = [], ap_cap = 1024, ap_nextSeq = 1, ap_engine = set_store (Some st') (ap_engine b)\<rparr>"
  have "boot OnMarketUpdate order False NoFault st' strat = Some ?a"
    using boot_events_only [OF ev boot] by simp
  then have "app_main W' q g' s' bitget' icons' order False NoFault =
      (Running (start_gateways bitget' icons' cfg'' st' ?a), PrintBanner cfg'', s2)"
    using assms(2,8) c by (simp add: app_main_def)
  then show ?thesis using ev by (auto simp: start_gateways_def Let_def)
qed


theorem main_resumes_witness:
  "\<exists>r out s1 strat b st r' out' st' s2.
    app_main (example_world\<lparr>iw_database := (\<lambda>_. \<lparr>db_events = None, db_metadata = None\<rparr>)\<rparr>) 1 empty_globals initial_os [] [] [] False NoFault =
      (Running r, out, s1) \<and>
    app_run OnMarketUpdate [] strat (ra_app r) ([] @ [Accepted btc_update]) b \<and> sq_store (ap_engine b) = Some st \<and>
    app_main (example_world\<lparr>iw_database := (\<lambda>_. \<lparr>db_events = Some (es_events st), db_metadata = None\<rparr>)\<rparr>) 2
      empty_globals initial_os [] [] [] False NoFault = (Running r', out', s2) \<and>
    ap_inbox b \<noteq> [] \<and> ap_inbox (ra_app r') = [] \<and> ap_engine (ra_app r') = (ap_engine b)\<lparr>sq_store := Some st'\<rparr>"
proof -
  let ?W = "\<lambda>d. example_world\<lparr>iw_database := (\<lambda>_. \<lparr>db_events = d, db_metadata = None\<rparr>)\<rparr>"
  let ?st = "\<lparr>es_events = [], es_metadata = Map.empty\<rparr> :: event_store"
  obtain strat where strat: "NewSMACrossStrategy ''BTC-USDT'' 3 5 = Inr strat" using main_strategy by blast
  let ?s = "NewSequencer (Some ?st) (Some strat) True"
  let ?a = "\<lparr>ap_inbox = [], ap_cap = 1024, ap_nextSeq = 1, ap_engine = ?s\<rparr>"
  have boot: "boot OnMarketUpdate [] False NoFault ?st strat = Some ?a"
    using boot_of_run [of OnMarketUpdate "[]" ?st strat ?s ?st] by simp
  obtain b1 g1 s1 where i: "Initialize (?W None) 1 NewBootstrap empty_globals initial_os = (None, b1, g1, s1)"
    using example_initialize_on by blast
  obtain cfg st0 where "bs_Config b1 = Some cfg" "load_config (?W None) = Inr cfg"
    "bs_EventStore b1 = Some (db_path (workspace (?W None)) (cfg_TradingMode cfg), st0)"
    "NewEventStore None (iw_database (?W None) (db_path (workspace (?W None)) (cfg_TradingMode cfg))) = Inr st0"
    using Initialize_parts [OF i] by blast
  then have b1: "bs_Config b1 = Some startup_config" "\<exists>pth. bs_EventStore b1 = Some (pth, ?st)"
    using example_load by (auto simp: NewEventStore_def create_if_missing_def)
  let ?r = "start_gateways [] [] startup_config ?st ?a"
  have m: "app_main (?W None) 1 empty_globals initial_os [] [] [] False NoFault = (Running ?r, PrintBanner startup_config, s1)"
    using i b1 strat boot by (auto simp: app_main_def)
  have ra: "ra_app ?r = ?a" by (simp add: start_gateways_def Let_def)
  let ?b = "?a\<lparr>ap_inbox := ap_inbox ?a @ [MarketUpdate btc_update]\<rparr>"
  have "app_step OnMarketUpdate [] strat ?a (Accepted btc_update) ?b" by (rule app_step.accepted) simp
  then have run: "app_run OnMarketUpdate [] strat (ra_app ?r) ([] @ [Accepted btc_update]) ?b"
    unfolding ra by (rule app_run.step [OF app_run.stop])
  obtain b2 g2 s2 where j: "Initialize (?W (Some (es_events ?st))) 2 NewBootstrap empty_globals initial_os = (None, b2, g2, s2)"
    using example_initialize_on by blast
  have w: "workspace (?W d) = workspace example_world" for d by (simp add: workspace_def)
  obtain r' out' st' where r': "app_main (?W (Some (es_events ?st))) 2 empty_globals initial_os [] [] [] False NoFault = (Running r', out', s2)"
    "ap_inbox (ra_app r') = []" "ap_engine (ra_app r') = (ap_engine ?b)\<lparr>sq_store := Some st'\<rparr>"
    using main_resumes [OF m strat example_load refl _ run _ j example_load, where st = ?st and bitget' = "[]" and icons' = "[]"]
    by (auto simp: w)
  have "sq_store (ap_engine ?b) = Some ?st" "ap_inbox ?b \<noteq> []" by simp_all
  then show ?thesis by (intro exI conjI) (rule m, rule run, assumption, rule r', assumption, rule r', rule r')
qed

section \<open>The banner tells real money\<close>

lemma ansi_line_eq: "banner_line (ansi [a, b]) t = banner_line (ansi [c, d]) u \<Longrightarrow> a = c \<and> b = d"
  by (simp add: banner_line_def ansi_def)

lemma banner_warns_iff: "set real_warning \<subseteq> set (PrintBanner cfg) \<longleftrightarrow> ToUpper (cfg_TradingMode cfg) = ''REAL''"
proof (cases "ToUpper (cfg_TradingMode cfg) = ''REAL''")
  case False
  have "fst (banner_mode (ToUpper (cfg_TradingMode cfg))) \<in> {ansi ''32'', ansi ''33'', ansi ''36''}"
    using False by (simp add: banner_mode_def ColorYellow_def ColorCyan_def ColorGreen_def)
  then obtain a b d where ab: "banner_mode (ToUpper (cfg_TradingMode cfg)) = (ansi [a, b], d)" "[a, b] \<noteq> ''31''"
    by (cases "banner_mode (ToUpper (cfg_TradingMode cfg))") fastforce
  have "\<forall>l \<in> set (PrintBanner cfg). l = [] \<or> (\<exists>t. l = banner_line (ansi [a, b]) t)"
    using False ab(1) by (auto simp: PrintBanner_def Let_def)
  moreover have "banner_line ColorRed t \<noteq> []" "banner_line ColorRed t \<noteq> banner_line (ansi [a, b]) u" for t u
    using ab(2) ansi_line_eq [of "CHR ''3''" "CHR ''1''" t a b u] by (auto simp: ColorRed_def banner_line_def ansi_def)
  ultimately show ?thesis using False by (fastforce simp: real_warning_def)
qed (auto simp: PrintBanner_def banner_mode_def Let_def)

text \<open>C36. Real money is announced: whenever the factory hands out a client for the live exchange, the banner
  of that configuration carries the warning; and the warning is shown for no other mode than
  \<open>REAL\<close>, in whatever case it is written.\<close>

theorem real_money_is_announced:
  "(fst (CreateExecution load getenv cfg) = Inr (Inr (RealExecutor c)) \<and> \<not> cl_isTestnet c \<longrightarrow>
      set real_warning \<subseteq> set (PrintBanner cfg)) \<and>
   (set real_warning \<subseteq> set (PrintBanner cfg) \<longrightarrow> ToUpper (cfg_TradingMode cfg) = ''REAL'')"
proof -
  have "ToUpper ''REAL'' = ''REAL''" by (simp add: ToUpper_def byte_in_def)
  moreover have "fst (CreateExecution load getenv cfg) = Inr (Inr (RealExecutor c)) \<and> \<not> cl_isTestnet c \<longrightarrow>
      cfg_TradingMode cfg = ''REAL''"
    by (auto simp: CreateExecution_def NewClient_def Let_def split: outcome.splits sum.splits if_splits)
  ultimately show ?thesis by (auto simp: banner_warns_iff)
qed

theorem real_money_is_announced_witness:
  "set real_warning \<subseteq> set (PrintBanner (startup_config\<lparr>cfg_TradingMode := ''REAL''\<rparr>)) \<and>
   \<not> set real_warning \<subseteq> set (PrintBanner startup_config)"
proof -
  let ?cfg = "startup_config\<lparr>cfg_TradingMode := ''REAL''\<rparr>" and ?s = "\<lparr>sc_AccessKey = ''a'', sc_SecretKey = ''s'', sc_Passphrase = ''p''\<rparr>"
  have "\<exists>c. fst (CreateExecution (\<lambda>_. Inr ?s) (\<lambda>_. ''true'') ?cfg) = Inr (Inr (RealExecutor c)) \<and> \<not> cl_isTestnet c"
    by (simp add: CreateExecution_def NewClient_def Let_def)
  moreover have "ToUpper (cfg_TradingMode startup_config) \<noteq> ''REAL''"
    by (simp add: startup_config_def ToUpper_def byte_in_def)
  ultimately show ?thesis
    using real_money_is_announced [of "\<lambda>_. Inr ?s" "\<lambda>_. ''true''" ?cfg]
      real_money_is_announced [of "\<lambda>_. Inr ?s" "\<lambda>_. ''true''" startup_config] by blast
qed

text \<open>A mode in lower case shows the warning, but the factory, which compares exactly, rejects it.\<close>

lemma lower_case_mode_announced_not_accepted:
  "set real_warning \<subseteq> set (PrintBanner (cfg\<lparr>cfg_TradingMode := ''real''\<rparr>)) \<and>
   fst (CreateExecution load getenv (cfg\<lparr>cfg_TradingMode := ''real''\<rparr>)) = Inr (Inl (UnknownMode ''real''))"
  by (simp add: banner_warns_iff ToUpper_def byte_in_def CreateExecution_def Let_def char_of_def bit_iff_odd)

end
