(* ===== verification/System.thy ===== *)
theory System
  imports Main_App
begin

text \<open>
  The running process with all its goroutines (\<open>cmd/app/main.go\<close> from the start of the sequencer on): the
  sequencer, the three WebSocket workers with their connection loops, ping goroutines and \<open>Stop\<close>, and
  the poller of the exchange rate, all on one inbox and one counter; and restarts after a crash. A
  step is one atomic action of one goroutine: a step of a worker (theory \<open>Ws_Worker\<close>), the drawing of one
  number, one non-blocking send, one request of the poller, one event of the sequencer. Between
  two draws or sends of one message the other goroutines go on. The main result is that every
  run is a run of theory \<open>Application\<close> whose sends are exactly what the frames and answers of the run quote.
\<close>

section \<open>State\<close>

datatype venue = Upbit | BitgetSpot | BitgetFutures

text \<open>The goroutines that offer events.\<close>

datatype source = Venue venue | Rate

text \<open>What a goroutine still has to do for an event: draw its number and send it, or only send it.\<close>

datatype emission = Offer market_update | Numbered market_update

text \<open>The poller waits for its ticker, asks for the \<open>i\<close>-th time, or sleeps before the \<open>i\<close>-th attempt.\<close>

datatype poll_pc = PollWaits | PollAsks nat | PollSleeps nat

record poller =
  pl_pc :: poll_pc
  pl_todo :: "emission list"

text \<open>The handler's state of a worker is what its \<open>OnMessage\<close> still has to do.\<close>

record 'st process =
  ps_app :: "'st application"
  ps_workers :: "venue \<rightharpoonup> emission list ws_system"
  ps_rate :: rate_settings
  ps_poller :: poller

definition venue_quotes :: "string list \<Rightarrow> (string \<times> string) list \<Rightarrow> venue \<Rightarrow> ws_msg \<Rightarrow> market_update list" where
  "venue_quotes us bs v msg =
     (case v of
        Upbit \<Rightarrow> upbit_quotes us msg
      | BitgetSpot \<Rightarrow> bitget_quotes td_BaseVolume ''BITGET_SPOT'' bs msg
      | BitgetFutures \<Rightarrow> bitget_quotes td_Volume24h ''BITGET_FUTURES'' bs msg)"

text \<open>The start of \<open>OnMessage\<close>: every event the message quotes is to be numbered and sent, in order.\<close>

definition venue_handler ::
  "string list \<Rightarrow> (string \<times> string) list \<Rightarrow> venue \<Rightarrow> ws_msg \<Rightarrow> emission list \<Rightarrow> emission list" where
  "venue_handler us bs v msg h = h @ map Offer (venue_quotes us bs v msg)"

text \<open>\<open>Start\<close> of the rate client fetches at once.\<close>

definition new_poller :: poller where
  "new_poller = \<lparr>pl_pc = PollAsks 0, pl_todo = []\<rparr>"

definition restart_workers :: "(venue \<rightharpoonup> emission list ws_system) \<Rightarrow> (venue \<rightharpoonup> emission list ws_system)" where
  "restart_workers ws v = map_option (\<lambda>_. ws_start []) (ws v)"

text \<open>The process that \<open>main\<close> leaves running. The first fetch of the rate, which \<open>main\<close> waits for before it
  starts the workers, may here overlap with them.\<close>

definition process_of :: "running_app \<Rightarrow> sma_cross process" where
  "process_of r =
     \<lparr>ps_app = ra_app r,
      ps_workers = (\<lambda>v. if (case v of Upbit \<Rightarrow> ra_upbit r \<noteq> None | BitgetSpot \<Rightarrow> ra_spot r \<noteq> None | BitgetFutures \<Rightarrow> ra_futures r \<noteq> None)
        then Some (ws_start []) else None),
      ps_rate = fd_symbols (ra_rate r),
      ps_poller = new_poller\<rparr>"

definition pending :: "'st process \<Rightarrow> source \<Rightarrow> emission list" where
  "pending s src =
     (case src of
        Venue v \<Rightarrow> (case ps_workers s v of Some w \<Rightarrow> wy_handler w | None \<Rightarrow> [])
      | Rate \<Rightarrow> pl_todo (ps_poller s))"

definition with_pending :: "source \<Rightarrow> emission list \<Rightarrow> 'st process \<Rightarrow> 'st process" where
  "with_pending src es s =
     (case src of
        Venue v \<Rightarrow> s\<lparr>ps_workers := (ps_workers s)(v := map_option (\<lambda>w. w\<lparr>wy_handler := es\<rparr>) (ps_workers s v))\<rparr>
      | Rate \<Rightarrow> s\<lparr>ps_poller := (ps_poller s)\<lparr>pl_todo := es\<rparr>\<rparr>)"

section \<open>Steps\<close>

text \<open>The non-blocking send on the shared inbox.\<close>

definition app_send :: "market_update \<Rightarrow> 'st application \<Rightarrow> 'st application" where
  "app_send e a =
     (if length (ap_inbox a) < ap_cap a then a\<lparr>ap_inbox := ap_inbox a @ [MarketUpdate e]\<rparr> else a)"

text \<open>One attempt of \<open>fetchRate\<close>: the answer is offered and the loop ends, or the next attempt follows after its
  delay, or the third failure ends the loop.\<close>

definition poll_answer :: "rate_settings \<Rightarrow> rate_attempt \<Rightarrow> nat \<Rightarrow> poller" where
  "poll_answer settings att i =
     (if rate_quotes settings att \<noteq> [] then \<lparr>pl_pc = PollWaits, pl_todo = map Offer (rate_quotes settings att)\<rparr>
      else if i + 1 < 3 then \<lparr>pl_pc = PollSleeps (i + 1), pl_todo = []\<rparr>
      else \<lparr>pl_pc = PollWaits, pl_todo = []\<rparr>)"

text \<open>A step of a worker; a number drawn; an event sent, and whether there was room; the ticker, an answer and
  a delay of the poller; an event taken by the sequencer; a restart on the same database.\<close>

datatype process_label =
    Worked venue ws_label
  | Draws source u64
  | Sends source market_update bool
  | Ticked | Asked rate_attempt | Slept i64
  | Takes event
  | Restarts

text \<open>While \<open>OnMessage\<close> has something to do the connection loop of its worker stays where it is, but not the other
  goroutines of the worker; the poller does not go on while it has something to send.\<close>

inductive process_step ::
  "'st on_market \<Rightarrow> string list \<Rightarrow> 'st \<Rightarrow> string list \<Rightarrow> (string \<times> string) list \<Rightarrow>
     'st process \<Rightarrow> process_label \<Rightarrow> 'st process \<Rightarrow> bool"
  for om order strat us bs where
  worked: "ps_workers s v = Some w \<Longrightarrow> ws_step (venue_handler us bs v) w l w' \<Longrightarrow>
    wy_handler w = [] \<or> wy_loop w' = wy_loop w \<Longrightarrow>
    process_step om order strat us bs s (Worked v l) (s\<lparr>ps_workers := (ps_workers s)(v \<mapsto> w')\<rparr>)"
| draws: "pending s src = Offer e # es \<Longrightarrow> NextSeq (ap_nextSeq (ps_app s)) = (n, seq) \<Longrightarrow>
    process_step om order strat us bs s (Draws src n)
      (with_pending src (Numbered (e\<lparr>mu_Seq := n\<rparr>) # es) (s\<lparr>ps_app := (ps_app s)\<lparr>ap_nextSeq := seq\<rparr>\<rparr>))"
| sends: "pending s src = Numbered e # es \<Longrightarrow>
    process_step om order strat us bs s (Sends src e (length (ap_inbox (ps_app s)) < ap_cap (ps_app s)))
      (with_pending src es (s\<lparr>ps_app := app_send e (ps_app s)\<rparr>))"
| ticked: "ps_poller s = \<lparr>pl_pc = PollWaits, pl_todo = []\<rparr> \<Longrightarrow>
    process_step om order strat us bs s Ticked (s\<lparr>ps_poller := \<lparr>pl_pc = PollAsks 0, pl_todo = []\<rparr>\<rparr>)"
| asked: "ps_poller s = \<lparr>pl_pc = PollAsks i, pl_todo = []\<rparr> \<Longrightarrow>
    process_step om order strat us bs s (Asked att) (s\<lparr>ps_poller := poll_answer (ps_rate s) att i\<rparr>)"
| slept: "ps_poller s = \<lparr>pl_pc = PollSleeps i, pl_todo = []\<rparr> \<Longrightarrow>
    process_step om order strat us bs s (Slept (CalculateBackoff (int i)))
      (s\<lparr>ps_poller := \<lparr>pl_pc = PollAsks i, pl_todo = []\<rparr>\<rparr>)"
| takes: "ap_inbox (ps_app s) = ev # rest \<Longrightarrow> processEvent om False ev (ap_engine (ps_app s)) = Done r e \<Longrightarrow>
    process_step om order strat us bs s (Takes ev) (s\<lparr>ps_app := (ps_app s)\<lparr>ap_inbox := rest, ap_engine := e\<rparr>\<rparr>)"
| restarts: "sq_store (ap_engine (ps_app s)) = Some store \<Longrightarrow> boot om order False NoFault store strat = Some a \<Longrightarrow>
    process_step om order strat us bs s Restarts
      (s\<lparr>ps_app := a, ps_workers := restart_workers (ps_workers s), ps_poller := new_poller\<rparr>)"

inductive_cases process_stepE: "process_step om order strat us bs s l t"

inductive process_run ::
  "'st on_market \<Rightarrow> string list \<Rightarrow> 'st \<Rightarrow> string list \<Rightarrow> (string \<times> string) list \<Rightarrow>
     'st process \<Rightarrow> process_label list \<Rightarrow> 'st process \<Rightarrow> bool"
  for om order strat us bs where
  start: "process_run om order strat us bs s [] s"
| go_on: "process_run om order strat us bs s ls t \<Longrightarrow> process_step om order strat us bs t l u \<Longrightarrow>
    process_run om order strat us bs s (ls @ [l]) u"

lemma process_run_trans:
  "process_run om order strat us bs t ms u \<Longrightarrow> process_run om order strat us bs s ls t \<Longrightarrow>
   process_run om order strat us bs s (ls @ ms) u"
proof (induction arbitrary: ls rule: process_run.induct)
  case (go_on t ms u l v)
  from process_run.go_on [OF go_on(3) [OF go_on(4)] go_on(2)] show ?case by simp
qed simp

lemma process_run_step: "process_step om order strat us bs s l t \<Longrightarrow> process_run om order strat us bs s [l] t"
  using process_run.go_on [OF process_run.start] by fastforce

section \<open>What a run shows\<close>

text \<open>The steps of the application.\<close>

definition app_label_of :: "process_label \<Rightarrow> app_label list" where
  "app_label_of l =
     (case l of
        Draws src n \<Rightarrow> [Drew]
      | Sends src e ok \<Rightarrow> [if ok then Accepted e else Dropped e]
      | Takes ev \<Rightarrow> [Took ev]
      | Restarts \<Rightarrow> [Restarted]
      | _ \<Rightarrow> [])"

definition app_trace :: "process_label list \<Rightarrow> app_label list" where
  "app_trace ls = concat (map app_label_of ls)"

text \<open>The part after the last restart.\<close>

definition since_restart :: "process_label list \<Rightarrow> process_label list" where
  "since_restart ls = fold (\<lambda>l cur. if l = Restarts then [] else cur @ [l]) ls []"

text \<open>The steps of one worker; what a goroutine sent, whether or not there was room; the numbers it drew; and
  all numbers drawn.\<close>

definition worker_trace :: "venue \<Rightarrow> process_label list \<Rightarrow> ws_label list" where
  "worker_trace v ls = concat (map (\<lambda>l. case l of Worked u x \<Rightarrow> if u = v then [x] else [] | _ \<Rightarrow> []) ls)"

definition sent :: "source \<Rightarrow> process_label list \<Rightarrow> market_update list" where
  "sent src ls = concat (map (\<lambda>l. case l of Sends x e ok \<Rightarrow> if x = src then [e] else [] | _ \<Rightarrow> []) ls)"

definition drawn :: "source \<Rightarrow> process_label list \<Rightarrow> u64 list" where
  "drawn src ls = concat (map (\<lambda>l. case l of Draws x n \<Rightarrow> if x = src then [n] else [] | _ \<Rightarrow> []) ls)"

definition all_drawn :: "process_label list \<Rightarrow> u64 list" where
  "all_drawn ls = concat (map (\<lambda>l. case l of Draws x n \<Rightarrow> [n] | _ \<Rightarrow> []) ls)"

text \<open>What a goroutine was given to send: the quotes in the frames its worker read, or in the answers to the
  poller.\<close>

definition answers :: "process_label list \<Rightarrow> rate_attempt list" where
  "answers ls = concat (map (\<lambda>l. case l of Asked att \<Rightarrow> [att] | _ \<Rightarrow> []) ls)"

definition quoted :: "string list \<Rightarrow> (string \<times> string) list \<Rightarrow> rate_settings \<Rightarrow> source \<Rightarrow> process_label list \<Rightarrow> market_update list" where
  "quoted us bs settings src ls =
     (case src of
        Venue v \<Rightarrow> concat (map (venue_quotes us bs v) (frames_of (worker_trace v ls)))
      | Rate \<Rightarrow> concat (map (rate_quotes settings) (answers ls)))"

text \<open>An event without its number, of an event still to be sent too; and the numbers already drawn for events
  still to be sent.\<close>

definition unnumbered :: "market_update \<Rightarrow> market_update" where
  "unnumbered e = e\<lparr>mu_Seq := 0\<rparr>"

definition emission_quote :: "emission \<Rightarrow> market_update" where
  "emission_quote x = (case x of Offer e \<Rightarrow> unnumbered e | Numbered e \<Rightarrow> unnumbered e)"

definition emission_number :: "emission \<Rightarrow> u64 list" where
  "emission_number x = (case x of Offer e \<Rightarrow> [] | Numbered e \<Rightarrow> [mu_Seq e])"

lemma process_trace_Nil [simp]:
  "app_trace [] = []" "since_restart [] = []" "worker_trace v [] = []" "sent src [] = []" "drawn src [] = []" "all_drawn [] = []"
  "answers [] = []"
  by (simp_all add: app_trace_def since_restart_def worker_trace_def sent_def drawn_def all_drawn_def answers_def)

lemma process_trace_snoc [simp]:
  "app_trace (ls @ [l]) = app_trace ls @ app_label_of l"
  "since_restart (ls @ [l]) = (if l = Restarts then [] else since_restart ls @ [l])"
  "worker_trace v (ls @ [l]) = worker_trace v ls @ (case l of Worked u x \<Rightarrow> if u = v then [x] else [] | _ \<Rightarrow> [])"
  "sent src (ls @ [l]) = sent src ls @ (case l of Sends x e ok \<Rightarrow> if x = src then [e] else [] | _ \<Rightarrow> [])"
  "drawn src (ls @ [l]) = drawn src ls @ (case l of Draws x n \<Rightarrow> if x = src then [n] else [] | _ \<Rightarrow> [])"
  "all_drawn (ls @ [l]) = all_drawn ls @ (case l of Draws x n \<Rightarrow> [n] | _ \<Rightarrow> [])"
  "answers (ls @ [l]) = answers ls @ (case l of Asked att \<Rightarrow> [att] | _ \<Rightarrow> [])"
  by (simp_all add: app_trace_def since_restart_def worker_trace_def sent_def drawn_def all_drawn_def answers_def)

lemma pending_with_pending:
  "pending s src \<noteq> [] \<Longrightarrow> pending (with_pending src es s) x = (if x = src then es else pending s x)"
  by (auto simp: pending_def with_pending_def split: source.splits option.splits)

lemma with_pending_simps [simp]:
  "ps_app (with_pending src es s) = ps_app s" "ps_rate (with_pending src es s) = ps_rate s"
  by (simp_all add: with_pending_def split: source.splits)

lemma pending_app [simp]: "pending (s\<lparr>ps_app := a\<rparr>) x = pending s x"
  by (simp add: pending_def split: source.splits)

text \<open>A quote has no number yet.\<close>

lemma unnumbered_quotes [simp]:
  "map unnumbered (venue_quotes us bs v msg) = venue_quotes us bs v msg" "map unnumbered (rate_quotes settings att) = rate_quotes settings att"
  by (auto simp: venue_quotes_def upbit_quotes_def bitget_quotes_def ticker_quote_def rate_quotes_def unnumbered_def Let_def
      intro!: map_idI split: venue.splits ws_msg.splits option.splits sum.splits if_splits)

lemma emission_offers [simp]:
  "map (emission_quote \<circ> Offer) es = map unnumbered es" "concat (map (emission_number \<circ> Offer) es) = []"
  by (simp_all add: emission_quote_def emission_number_def comp_def)

section \<open>The process refines the application\<close>

lemma process_step_app:
  assumes "process_step om order strat us bs s l t" "app_run om order strat a ls (ps_app s)"
  shows "app_run om order strat a (ls @ app_label_of l) (ps_app t)"
  using assms(1)
proof cases
  case (draws src e es n seq)
  have "app_step om order strat (ps_app s) Drew (ps_app t)"
    using draws app_step.drew [of om order strat "ps_app s"] by (auto simp: NextSeq_def)
  then show ?thesis using app_run.step [OF assms(2)] draws(1) by (simp add: app_label_of_def)
next
  case (sends src e es)
  have "app_step om order strat (ps_app s)
      (if length (ap_inbox (ps_app s)) < ap_cap (ps_app s) then Accepted e else Dropped e) (app_send e (ps_app s))"
    by (simp add: app_send_def app_step.accepted app_step.dropped)
  then show ?thesis using app_run.step [OF assms(2)] sends(1,2) by (simp add: app_label_of_def)
next
  case (takes ev rest r e)
  then show ?thesis using app_run.step [OF assms(2) app_step.took [OF takes(3,4)]] by (simp add: app_label_of_def)
next
  case (restarts store b)
  then show ?thesis using app_run.step [OF assms(2) app_step.restarted [OF restarts(3,4)]] by (simp add: app_label_of_def)
qed (use assms(2) in \<open>simp_all add: app_label_of_def\<close>)

text \<open>What a goroutine has sent and still has to send is what it was given, and it has drawn the numbers
  of both, at most one of them for an event not yet sent; the numbers drawn count up.\<close>

definition balanced ::
  "string list \<Rightarrow> (string \<times> string) list \<Rightarrow> rate_settings \<Rightarrow> process_label list \<Rightarrow> source \<Rightarrow> emission list \<Rightarrow> bool" where
  "balanced us bs settings cur src es \<longleftrightarrow>
     map unnumbered (sent src cur) @ map emission_quote es = quoted us bs settings src cur \<and>
     map mu_Seq (sent src cur) @ concat (map emission_number es) = drawn src cur \<and>
     concat (map emission_number (tl es)) = []"

definition counted :: "process_label list \<Rightarrow> u64 \<Rightarrow> bool" where
  "counted cur seq \<longleftrightarrow>
     all_drawn cur = map (\<lambda>i. of_nat i + 2) [0..<length (all_drawn cur)] \<and> seq = of_nat (length (all_drawn cur)) + 1"

definition process_inv :: "string list \<Rightarrow> (string \<times> string) list \<Rightarrow> process_label list \<Rightarrow> 'st process \<Rightarrow> bool" where
  "process_inv us bs cur s \<longleftrightarrow>
     (\<forall>src. balanced us bs (ps_rate s) cur src (pending s src)) \<and> counted cur (ap_nextSeq (ps_app s))"

text \<open>A process that was just started.\<close>

definition just_started :: "'st process \<Rightarrow> bool" where
  "just_started s \<longleftrightarrow>
     ap_nextSeq (ps_app s) = 1 \<and> (\<forall>v w. ps_workers s v = Some w \<longrightarrow> w = ws_start []) \<and> ps_poller s = new_poller"

lemma ws_start_handler [simp]: "wy_handler (ws_start h) = h"
  by (simp add: ws_start_def)

lemma just_started_pending: "just_started s \<Longrightarrow> pending s src = []"
  by (cases src) (fastforce simp: just_started_def pending_def new_poller_def split: option.splits)+

lemma just_started_inv: "just_started s \<Longrightarrow> process_inv us bs [] s"
  by (simp add: process_inv_def balanced_def counted_def just_started_pending)
    (simp add: just_started_def quoted_def split: source.splits)

lemma boot_nextSeq: "boot om order lf df store strat = Some a \<Longrightarrow> ap_nextSeq a = 1 \<and> ap_inbox a = []"
  by (auto simp: boot_def split: outcome.splits option.splits)

lemma restart_just_started:
  "boot om order lf df store strat = Some a \<Longrightarrow>
   just_started (s\<lparr>ps_app := a, ps_workers := restart_workers (ps_workers s), ps_poller := new_poller\<rparr>)"
  using boot_nextSeq [of om order lf df store strat a] by (auto simp: just_started_def restart_workers_def)

lemma quoted_snoc:
  "quoted us bs settings src (ls @ [l]) = quoted us bs settings src ls @
     (case l of
        Worked v (Frame c msg) \<Rightarrow> if src = Venue v then venue_quotes us bs v msg else []
      | Asked att \<Rightarrow> if src = Rate then rate_quotes settings att else []
      | _ \<Rightarrow> [])"
  by (cases src; cases l) (simp_all add: quoted_def split: ws_label.splits)

lemma emission_simps [simp]:
  "emission_number (Offer e) = []" "emission_number (Numbered e) = [mu_Seq e]"
  "emission_quote (Offer e) = unnumbered e" "emission_quote (Numbered e) = unnumbered e" "unnumbered (e\<lparr>mu_Seq := n\<rparr>) = unnumbered e"
  by (simp_all add: emission_number_def emission_quote_def unnumbered_def)

text \<open>A step that neither sends nor draws nor brings anything; new quotes; a number drawn; an event sent.\<close>

lemma balanced_idle:
  assumes "balanced us bs settings cur src es" "app_label_of l = [] \<or> (\<exists>ev. l = Takes ev)" "quoted us bs settings src (cur @ [l]) = quoted us bs settings src cur"
  shows "balanced us bs settings (cur @ [l]) src es"
  using assms by (cases l) (auto simp: balanced_def app_label_of_def)

lemma balanced_quotes:
  assumes "balanced us bs settings cur src []" "app_label_of l = []"
    "quoted us bs settings src (cur @ [l]) = quoted us bs settings src cur @ qs" "map unnumbered qs = qs"
  shows "balanced us bs settings (cur @ [l]) src (map Offer qs)"
  using assms by (cases l) (simp_all add: balanced_def app_label_of_def flip: map_tl)

lemma balanced_draws:
  "balanced us bs settings cur src (Offer e # es) \<Longrightarrow>
   balanced us bs settings (cur @ [Draws src n]) src (Numbered (e\<lparr>mu_Seq := n\<rparr>) # es)"
  by (auto simp: balanced_def quoted_snoc simp del: concat_eq_Nil_conv)

lemma balanced_sends:
  "balanced us bs settings cur src (Numbered e # es) \<Longrightarrow> balanced us bs settings (cur @ [Sends src e ok]) src es"
  by (cases es) (auto simp: balanced_def quoted_snoc simp del: concat_eq_Nil_conv)

lemma balanced_others:
  "balanced us bs settings cur src es \<Longrightarrow> x \<noteq> src \<Longrightarrow> balanced us bs settings (cur @ [Draws x n]) src es"
  "balanced us bs settings cur src es \<Longrightarrow> x \<noteq> src \<Longrightarrow> balanced us bs settings (cur @ [Sends x e ok]) src es"
  by (simp_all add: balanced_def quoted_snoc)

lemma counted_snoc: "counted cur seq \<Longrightarrow> \<forall>src n. l \<noteq> Draws src n \<Longrightarrow> counted (cur @ [l]) seq"
  by (cases l) (simp_all add: counted_def)

lemma counted_draws: "counted cur seq \<Longrightarrow> counted (cur @ [Draws src (seq + 1)]) (seq + 1)"
  by (simp add: counted_def)

lemma worked_balanced:
  assumes "ws_step (venue_handler us bs v) w x w'" "wy_handler w = [] \<or> wy_loop w' = wy_loop w"
    and "balanced us bs settings cur (Venue v) (wy_handler w)"
  shows "balanced us bs settings (cur @ [Worked v x]) (Venue v) (wy_handler w')"
proof (cases "\<exists>c msg. x = Frame c msg")
  case True
  then obtain c msg where x: "x = Frame c msg" by blast
  then have h: "wy_handler w = []" "wy_handler w' = map Offer (venue_quotes us bs v msg)"
    using assms(1,2) by (auto simp: venue_handler_def elim: ws_stepE)
  show ?thesis unfolding h(2)
    by (rule balanced_quotes) (use assms(3) h(1) x in \<open>simp_all add: app_label_of_def quoted_snoc\<close>)
next
  case False
  then have "wy_handler w' = wy_handler w" using ws_step_handler [OF assms(1)] by (cases x) simp_all
  then show ?thesis using assms(3) False
    by (cases x) (auto intro!: balanced_idle simp: app_label_of_def quoted_snoc)
qed

lemma process_step_inv:
  assumes "process_step om order strat us bs s l t" "process_inv us bs cur s"
  shows "process_inv us bs (if l = Restarts then [] else cur @ [l]) t"
proof -
  have b: "balanced us bs (ps_rate s) cur src (pending s src)" for src using assms(2) by (simp add: process_inv_def)
  have c: "counted cur (ap_nextSeq (ps_app s))" using assms(2) by (simp add: process_inv_def)
  from assms(1) show ?thesis
  proof cases
    case (worked v w x w')
    have "balanced us bs (ps_rate s) (cur @ [Worked v x]) src (pending t src)" for src
    proof (cases "src = Venue v")
      case True
      then show ?thesis using worked_balanced [OF worked(4,5)] b [of "Venue v"] worked(2,3) by (simp add: pending_def)
    next
      case False
      then have "pending t src = pending s src" using worked(2) by (auto simp: pending_def split: source.splits)
      then show ?thesis using b [of src] False
        by (auto intro!: balanced_idle simp: app_label_of_def quoted_snoc split: ws_label.splits)
    qed
    then show ?thesis using c worked(1,2) by (simp add: process_inv_def counted_snoc)
  next
    case (draws src e es n seq)
    have "n = ap_nextSeq (ps_app s) + 1" "seq = n" using draws(4) by (auto simp: NextSeq_def)
    then show ?thesis using b [of src] b c draws(1-3) counted_draws [OF c, of src]
      by (auto simp: process_inv_def pending_with_pending intro: balanced_draws balanced_others(1))
  next
    case (sends src e es)
    have "ap_nextSeq (app_send e (ps_app s)) = ap_nextSeq (ps_app s)" by (simp add: app_send_def)
    then show ?thesis using b [of src] b c sends
      by (auto simp: process_inv_def pending_with_pending counted_snoc intro: balanced_sends balanced_others(2))
  next
    case ticked
    have "pending t src = pending s src" for src using ticked by (simp add: pending_def split: source.splits)
    then show ?thesis using b c ticked by (simp add: process_inv_def counted_snoc balanced_idle app_label_of_def quoted_snoc)
  next
    case (asked i att)
    have "pending t (Venue v) = pending s (Venue v)" for v using asked by (simp add: pending_def)
    moreover have "pending t Rate = map Offer (rate_quotes (ps_rate s) att)" "pending s Rate = []"
      using asked by (simp_all add: pending_def poll_answer_def)
    moreover have "balanced us bs (ps_rate s) (cur @ [Asked att]) Rate (map Offer (rate_quotes (ps_rate s) att))"
      by (rule balanced_quotes) (use b [of Rate] calculation(3) in \<open>simp_all add: app_label_of_def quoted_snoc\<close>)
    ultimately have "balanced us bs (ps_rate s) (cur @ [Asked att]) src (pending t src)" for src
      using b [of src] by (cases src) (simp_all add: balanced_idle app_label_of_def quoted_snoc)
    then show ?thesis using c asked(1,2) by (simp add: process_inv_def counted_snoc)
  next
    case (slept i)
    have "pending t src = pending s src" for src using slept by (simp add: pending_def split: source.splits)
    then show ?thesis using b c slept by (simp add: process_inv_def counted_snoc balanced_idle app_label_of_def quoted_snoc)
  next
    case (takes ev rest r e)
    then show ?thesis using b c by (simp add: process_inv_def counted_snoc balanced_idle quoted_snoc)
  next
    case (restarts store a)
    then show ?thesis using just_started_inv [OF restart_just_started [OF restarts(4)]] by simp
  qed
qed

lemma process_step_rate: "process_step om order strat us bs s l t \<Longrightarrow> ps_rate t = ps_rate s"
  by (induction rule: process_step.induct) simp_all

lemma process_run_inv:
  assumes "process_run om order strat us bs s ls t" "just_started s"
  shows "app_run om order strat (ps_app s) (app_trace ls) (ps_app t) \<and> process_inv us bs (since_restart ls) t \<and> ps_rate t = ps_rate s"
  using assms
proof (induction rule: process_run.induct)
  case (start s)
  then show ?case by (simp add: app_run.stop just_started_inv)
next
  case (go_on s ls t l u)
  then show ?case
    using process_step_app [OF go_on(2)] process_step_inv [OF go_on(2)] process_step_rate [OF go_on(2)] by simp
qed

section \<open>A goroutine left alone\<close>

text \<open>What is still to be done for some events, done without interruption.\<close>

fun emit_all :: "emission list \<Rightarrow> 'st application \<Rightarrow> 'st application" where
  "emit_all [] a = a"
| "emit_all (Offer e # es) a =
     (case NextSeq (ap_nextSeq a) of (n, seq) \<Rightarrow> emit_all es (app_send (e\<lparr>mu_Seq := n\<rparr>) (a\<lparr>ap_nextSeq := seq\<rparr>)))"
| "emit_all (Numbered e # es) a = emit_all es (app_send e a)"

text \<open>The worker's \<open>OnMessage\<close> of theory \<open>Feeds\<close> on the shared inbox and counter.\<close>

definition venue_OnMessage ::
  "string list \<Rightarrow> (string \<times> string) list \<Rightarrow> venue \<Rightarrow> ws_msg \<Rightarrow> 'st application \<Rightarrow> 'st application" where
  "venue_OnMessage us bs v msg =
     (case v of
        Upbit \<Rightarrow> with_gateway (upbit_OnMessage msg) us
      | BitgetSpot \<Rightarrow> with_gateway (spot_OnMessage msg) bs
      | BitgetFutures \<Rightarrow> with_gateway (futures_OnMessage msg) bs)"

lemma emit_offers: "emit_all (map Offer es) a = with_gateway (fold offer_event es) y a"
proof (induction es arbitrary: a)
  case (Cons e es)
  show ?case using Cons [of "app_send (e\<lparr>mu_Seq := ap_nextSeq a + 1\<rparr>) (a\<lparr>ap_nextSeq := ap_nextSeq a + 1\<rparr>)"]
    by (simp add: with_gateway_def NextSeq_def app_send_def offer_event_def send_event_def Let_def)
qed (simp add: with_gateway_def)

lemma venue_handler_emits: "emit_all (venue_handler us bs v msg []) a = venue_OnMessage us bs v msg a"
proof (cases v)
  case Upbit
  show ?thesis unfolding venue_handler_def append_Nil emit_offers [of _ _ us]
    by (simp add: Upbit venue_OnMessage_def venue_quotes_def with_gateway_def upbit.offers_quotes)
next
  case BitgetSpot
  show ?thesis unfolding venue_handler_def append_Nil emit_offers [of _ _ bs]
    by (simp add: BitgetSpot venue_OnMessage_def venue_quotes_def with_gateway_def spot.offers_quotes)
next
  case BitgetFutures
  show ?thesis unfolding venue_handler_def append_Nil emit_offers [of _ _ bs]
    by (simp add: BitgetFutures venue_OnMessage_def venue_quotes_def with_gateway_def futures.offers_quotes)
qed

lemma with_pending_triv: "pending s src = es \<Longrightarrow> with_pending src es s = s"
  by (cases src) (auto simp: pending_def with_pending_def fun_upd_idem_iff split: option.splits)

lemma with_pending_again:
  "with_pending src es (with_pending src es' s) = with_pending src es s"
  "(with_pending src es s)\<lparr>ps_app := a\<rparr> = with_pending src es (s\<lparr>ps_app := a\<rparr>)"
  by (cases src; simp add: with_pending_def option.map_comp comp_def)+

definition emits :: "source \<Rightarrow> process_label \<Rightarrow> bool" where
  "emits src l \<longleftrightarrow> (case l of Draws x n \<Rightarrow> x = src | Sends x e ok \<Rightarrow> x = src | _ \<Rightarrow> False)"

lemma emission_sent:
  assumes "pending s src = Numbered e # es"
  shows "\<exists>ls. process_run om order strat us bs s ls (with_pending src es (s\<lparr>ps_app := app_send e (ps_app s)\<rparr>)) \<and> list_all (emits src) ls"
  using process_run_step [OF process_step.sends [OF assms]] by (intro exI conjI) (assumption, simp add: emits_def)

lemma drains:
  assumes "pending s src = es"
  shows "\<exists>ls. process_run om order strat us bs s ls (with_pending src [] (s\<lparr>ps_app := emit_all es (ps_app s)\<rparr>)) \<and> list_all (emits src) ls"
  using assms
proof (induction es arbitrary: s)
  case Nil
  then show ?case by (intro exI [of _ "[]"]) (simp add: with_pending_triv process_run.start)
next
  case (Cons x es)
  have rest: ?case if p: "pending s1 src = Numbered e # es" and r: "process_run om order strat us bs s ms s1" "list_all (emits src) ms"
    and a: "with_pending src [] (s\<lparr>ps_app := emit_all (x # es) (ps_app s)\<rparr>) =
      with_pending src [] (s1\<lparr>ps_app := emit_all es (app_send e (ps_app s1))\<rparr>)" for s1 ms e
  proof -
    let ?s2 = "with_pending src es (s1\<lparr>ps_app := app_send e (ps_app s1)\<rparr>)"
    obtain ks where k: "process_run om order strat us bs s1 ks ?s2" "list_all (emits src) ks" using emission_sent [OF p] by blast
    have "pending ?s2 src = es" using p by (simp add: pending_with_pending)
    from Cons.IH [OF this] obtain ls where
      l: "process_run om order strat us bs ?s2 ls (with_pending src [] (?s2\<lparr>ps_app := emit_all es (ps_app ?s2)\<rparr>))" "list_all (emits src) ls"
      by blast
    have "with_pending src [] (?s2\<lparr>ps_app := emit_all es (ps_app ?s2)\<rparr>) = with_pending src [] (s\<lparr>ps_app := emit_all (x # es) (ps_app s)\<rparr>)"
      unfolding a by (simp add: with_pending_again)
    then show ?thesis using process_run_trans [OF l(1) process_run_trans [OF k(1) r(1)]] l(2) k(2) r(2)
      by (intro exI conjI) (simp, simp)
  qed
  show ?case
  proof (cases x)
    case (Numbered e)
    then show ?thesis using rest [OF _ process_run.start] Cons.prems by simp
  next
    case (Offer e)
    let ?n = "ap_nextSeq (ps_app s) + 1"
    let ?s1 = "with_pending src (Numbered (e\<lparr>mu_Seq := ?n\<rparr>) # es) (s\<lparr>ps_app := (ps_app s)\<lparr>ap_nextSeq := ?n\<rparr>\<rparr>)"
    have "process_step om order strat us bs s (Draws src ?n) ?s1"
      by (rule process_step.draws) (use Cons.prems Offer in \<open>simp_all add: NextSeq_def\<close>)
    then have r: "process_run om order strat us bs s [Draws src ?n] ?s1" by (rule process_run_step)
    have p: "pending ?s1 src = Numbered (e\<lparr>mu_Seq := ?n\<rparr>) # es"
      using Cons.prems Offer pending_with_pending [of "s\<lparr>ps_app := (ps_app s)\<lparr>ap_nextSeq := ?n\<rparr>\<rparr>" src] by simp
    show ?thesis
      by (rule rest [OF p r]) (simp_all only: Offer with_pending_again with_pending_simps, simp_all add: emits_def NextSeq_def)
  qed
qed

section \<open>Properties\<close>

text \<open>C2. The whole process refines the application, and its traffic is what it received. Whatever the three
  workers' goroutines, the poller and the sequencer do in any order, with draws and sends of different
  goroutines interleaved, connections lost and made again and restarts in between: the
  inbox, the counter and the engine make the steps of the application that the labels of the
  run tell. Since the last restart every goroutine has sent exactly the quotes in the frames it read or
  the answers it got, in order, each once and with its contents unchanged, except for those it is still about to
  send; each with a number the goroutine drew for it, and the numbers drawn are \<open>2, 3, 4, \<dots>\<close> without
  a gap. Left alone, a message is handled as \<open>OnMessage\<close> does.\<close>

theorem process_refines_application:
  fixes om :: "'st on_market"
  assumes "process_run om order strat us bs s ls t" "just_started s" "cur = since_restart ls"
  shows "app_run om order strat (ps_app s) (app_trace ls) (ps_app t) \<and>
    (\<forall>src. map unnumbered (sent src cur) @ map emission_quote (pending t src) = quoted us bs (ps_rate s) src cur \<and>
       map mu_Seq (sent src cur) @ concat (map emission_number (pending t src)) = drawn src cur) \<and>
    all_drawn cur = map (\<lambda>i. of_nat i + 2) [0..<length (all_drawn cur)] \<and>
    (\<forall>v msg a. emit_all (venue_handler us bs v msg []) (a :: 'st application) = venue_OnMessage us bs v msg a)"
  using process_run_inv [OF assms(1,2)] assms(3) by (simp add: process_inv_def balanced_def counted_def venue_handler_emits)

lemma process_of_just_started: "ap_nextSeq (ra_app r) = 1 \<Longrightarrow> just_started (process_of r)"
  by (auto simp: just_started_def process_of_def split: if_splits)

text \<open>Steps of a worker that read no frame, run inside the process.\<close>

lemma process_worker_steps:
  assumes "ws_steps (venue_handler us bs v) w ls w'" "ps_workers s v = Some w" "wy_handler w = []" "frames_of ls = []"
  shows "process_run om order strat us bs s (map (Worked v) ls) (s\<lparr>ps_workers := (ps_workers s)(v \<mapsto> w')\<rparr>)"
  using assms
proof (induction rule: ws_steps.induct)
  case (here w)
  then have w: "(ps_workers s)(v \<mapsto> w) = ps_workers s" by (simp add: fun_upd_idem)
  show ?case unfolding w by (simp add: process_run.start)
next
  case (further w ls w1 l w2)
  let ?s1 = "s\<lparr>ps_workers := (ps_workers s)(v \<mapsto> w1)\<rparr>"
  have f: "frames_of ls = []" using further(6) by simp
  have "wy_handler w1 = []" using ws_steps_handler [OF further(1)] further(5) f by simp
  then have "process_step om order strat us bs ?s1 (Worked v l) (?s1\<lparr>ps_workers := (ps_workers ?s1)(v \<mapsto> w2)\<rparr>)"
    by (intro process_step.worked [OF _ further(2)]) simp_all
  then have "process_step om order strat us bs ?s1 (Worked v l) (s\<lparr>ps_workers := (ps_workers s)(v \<mapsto> w2)\<rparr>)" by simp
  from process_run.go_on [OF further(3) [OF further(4,5) f] this] show ?case by (simp only: map_append list.map)
qed

text \<open>The Upbit worker connects and reads a ticker; its event is numbered and sent.\<close>

definition ticker_msg :: ws_msg where
  "ticker_msg = JsonMsg (JObj [(''type'', JStr ''ticker''), (''code'', JStr ''KRW-BTC'')])"

lemma ticker_quotes:
  "\<exists>e. venue_quotes [''BTC''] [] Upbit ticker_msg = [e] \<and> mu_Symbol e = ''BTC'' \<and> unnumbered e = e"
  by (simp add: venue_quotes_def upbit_quotes_def ticker_msg_def Unmarshal_def upbit_ticker_fields_def find_field_def set_string_def
      zero_upbit_ticker_def TrimPrefix_def unnumbered_def)

theorem process_refines_application_witness:
  "\<exists>(strat :: sma_cross) s ls t e. process_run OnMarketUpdate [] strat [''BTC''] [] s ls t \<and> just_started s \<and>
    venue_quotes [''BTC''] [] Upbit ticker_msg = [e] \<and> sent (Venue Upbit) (since_restart ls) = [e\<lparr>mu_Seq := 2\<rparr>] \<and>
    app_run OnMarketUpdate [] strat (ps_app s) [Drew, Accepted (e\<lparr>mu_Seq := 2\<rparr>)] (ps_app t)"
proof -
  obtain strat where "NewSMACrossStrategy ''BTC-USDT'' 3 5 = Inr strat" using main_strategy by blast
  obtain e where e: "venue_quotes [''BTC''] [] Upbit ticker_msg = [e]" "unnumbered e = e" using ticker_quotes by blast
  let ?run = "process_run OnMarketUpdate [] strat [''BTC''] []"
  let ?a = "\<lparr>ap_inbox = [], ap_cap = 1024, ap_nextSeq = 1, ap_engine = NewSequencer (Some empty_store) (Some strat) True\<rparr>"
  let ?s = "\<lparr>ps_app = ?a, ps_workers = [Upbit \<mapsto> ws_start []], ps_rate = \<lparr>rs_pollInterval = 1, rs_apiURL = []\<rparr>, ps_poller = new_poller\<rparr>"
  let ?h = "venue_handler [''BTC''] [] Upbit"
  let ?w1 = "(connected_state (ws_start []))\<lparr>wy_loop := Reading 0\<rparr>"
  let ?w2 = "?w1\<lparr>wy_handler := ?h ticker_msg (wy_handler ?w1), wy_loop := InProcess\<rparr>"
  let ?s1 = "?s\<lparr>ps_workers := (ps_workers ?s)(Upbit \<mapsto> ?w1)\<rparr>"
  let ?s2 = "?s1\<lparr>ps_workers := (ps_workers ?s1)(Upbit \<mapsto> ?w2)\<rparr>"
  let ?s3 = "with_pending (Venue Upbit) [Numbered (e\<lparr>mu_Seq := 2\<rparr>)] (?s2\<lparr>ps_app := ?a\<lparr>ap_nextSeq := 2\<rparr>\<rparr>)"
  let ?s4 = "with_pending (Venue Upbit) [] (?s3\<lparr>ps_app := app_send (e\<lparr>mu_Seq := 2\<rparr>) (ps_app ?s3)\<rparr>)"
  let ?l1 = "[Silent, Dialed 0, Silent, Connected, Silent]"
  let ?ls = "map (Worked Upbit) ?l1 @ [Worked Upbit (Frame 0 ticker_msg), Draws (Venue Upbit) 2, Sends (Venue Upbit) (e\<lparr>mu_Seq := 2\<rparr>) True]"
  have start: "just_started ?s" by (simp add: just_started_def)
  have "ws_steps ?h (ws_start []) [Silent, Dialed 0, Silent, Connected] (connected_state (ws_start []))"
    using ws_connects [of "ws_start []" ?h] by (simp add: ws_start_def)
  then have "ws_steps ?h (ws_start []) ?l1 ?w1"
    by (rule ws_steps_snoc [OF _ ws_step.has_conn]) (simp_all add: connected_state_def ws_start_def)
  then have "?run ?s (map (Worked Upbit) ?l1) ?s1"
    by (rule process_worker_steps) (simp_all add: frames_of_def)
  moreover have "process_step OnMarketUpdate [] strat [''BTC''] [] ?s1 (Worked Upbit (Frame 0 ticker_msg)) ?s2"
    by (rule process_step.worked [OF _ ws_step.message]) (simp_all add: connected_state_def)
  ultimately have "?run ?s (map (Worked Upbit) ?l1 @ [Worked Upbit (Frame 0 ticker_msg)]) ?s2" by (rule process_run.go_on)
  moreover have p: "pending ?s2 (Venue Upbit) = [Offer e]"
    by (simp add: pending_def connected_state_def venue_handler_def e(1))
  have "process_step OnMarketUpdate [] strat [''BTC''] [] ?s2 (Draws (Venue Upbit) 2) ?s3"
    using process_step.draws [OF p, of 2 2] by (simp add: NextSeq_def)
  ultimately have "?run ?s ((map (Worked Upbit) ?l1 @ [Worked Upbit (Frame 0 ticker_msg)]) @ [Draws (Venue Upbit) 2]) ?s3"
    by (rule process_run.go_on)
  moreover have "pending ?s3 (Venue Upbit) = [Numbered (e\<lparr>mu_Seq := 2\<rparr>)]" by (simp add: pending_def with_pending_def)
  from process_step.sends [OF this, of OnMarketUpdate "[]" strat]
  have "process_step OnMarketUpdate [] strat [''BTC''] [] ?s3 (Sends (Venue Upbit) (e\<lparr>mu_Seq := 2\<rparr>) True) ?s4" by simp
  ultimately have run: "?run ?s ?ls ?s4" using process_run.go_on by fastforce
  have "sent (Venue Upbit) (since_restart ?ls) = [e\<lparr>mu_Seq := 2\<rparr>]" "app_trace ?ls = [Drew, Accepted (e\<lparr>mu_Seq := 2\<rparr>)]"
    by (simp_all add: sent_def since_restart_def app_trace_def app_label_of_def)
  then show ?thesis using process_refines_application [OF run start refl] run start e(1)
    by (intro exI [of _ strat] exI [of _ ?s] exI [of _ ?ls] exI [of _ ?s4] exI [of _ e]) simp
qed

section \<open>A worker inside the process\<close>

text \<open>Seen alone, every worker of the process is a run of theory \<open>Ws_Worker\<close> since the last restart, with the
  frames it read as what its handler has got; so what that theory shows of a worker holds in the
  process.\<close>

definition with_handler :: "'g \<Rightarrow> 'h ws_system \<Rightarrow> 'g ws_system" where
  "with_handler h w =
     \<lparr>wy_handler = h, wy_conn = wy_conn w, wy_opened = wy_opened w, wy_closed = wy_closed w, wy_cancelled = wy_cancelled w,
      wy_loop = wy_loop w, wy_retry = wy_retry w, wy_delays = wy_delays w, wy_pings = wy_pings w, wy_stop = wy_stop w\<rparr>"

definition keep_frame :: "ws_msg \<Rightarrow> ws_msg list \<Rightarrow> ws_msg list" where
  "keep_frame msg msgs = msgs @ [msg]"

lemma with_handler_simps [simp]:
  "wy_handler (with_handler h w) = h" "wy_conn (with_handler h w) = wy_conn w" "wy_opened (with_handler h w) = wy_opened w"
  "wy_closed (with_handler h w) = wy_closed w" "wy_cancelled (with_handler h w) = wy_cancelled w" "wy_loop (with_handler h w) = wy_loop w"
  "wy_retry (with_handler h w) = wy_retry w" "wy_delays (with_handler h w) = wy_delays w" "wy_pings (with_handler h w) = wy_pings w"
  "wy_stop (with_handler h w) = wy_stop w" "with_handler h (w\<lparr>wy_handler := x\<rparr>) = with_handler h w"
  "with_handler h (w\<lparr>wy_handler := x, wy_loop := pc\<rparr>) = with_handler h (w\<lparr>wy_loop := pc\<rparr>)"
  by (simp_all add: with_handler_def)

lemma with_handler_moves:
  "close_conn (with_handler h w) = with_handler h (close_conn w)" "attempt_failed (with_handler h w) = with_handler h (attempt_failed w)"
  by (simp_all add: with_handler_def close_conn_def attempt_failed_def split: option.splits)

lemma with_handler_updates:
  "(with_handler h w)\<lparr>wy_loop := x\<rparr> = with_handler h (w\<lparr>wy_loop := x\<rparr>)" "(with_handler h w)\<lparr>wy_opened := n\<rparr> = with_handler h (w\<lparr>wy_opened := n\<rparr>)"
  "(with_handler h w)\<lparr>wy_conn := c\<rparr> = with_handler h (w\<lparr>wy_conn := c\<rparr>)" "(with_handler h w)\<lparr>wy_pings := ps\<rparr> = with_handler h (w\<lparr>wy_pings := ps\<rparr>)"
  "(with_handler h w)\<lparr>wy_retry := r\<rparr> = with_handler h (w\<lparr>wy_retry := r\<rparr>)" "(with_handler h w)\<lparr>wy_cancelled := b\<rparr> = with_handler h (w\<lparr>wy_cancelled := b\<rparr>)"
  "(with_handler h w)\<lparr>wy_stop := x'\<rparr> = with_handler h (w\<lparr>wy_stop := x'\<rparr>)" "(with_handler h w)\<lparr>wy_handler := g\<rparr> = with_handler g w"
  by (simp_all add: with_handler_def)

lemmas with_handler_steps = ws_step.intros [where s = "with_handler h w" for h w, unfolded with_handler_moves with_handler_updates with_handler_simps
  Suc_eq_plus1 [symmetric]]

lemma ws_step_with_handler:
  "ws_step om w l w' \<Longrightarrow> ws_step f (with_handler h w) l (with_handler (fold f (case l of Frame c msg \<Rightarrow> [msg] | _ \<Rightarrow> []) h) w')"
  by (induction rule: ws_step.induct) (auto intro: with_handler_steps)

lemma keep_frames: "fold keep_frame msgs h = h @ msgs"
  by (induction msgs arbitrary: h) (simp_all add: keep_frame_def)

lemma process_workers_run:
  assumes "process_run om order strat us bs s ls t" "just_started s" "ps_workers t v = Some w"
  shows "ws_steps keep_frame (ws_start []) (worker_trace v (since_restart ls)) (with_handler (frames_of (worker_trace v (since_restart ls))) w)"
  using assms
proof (induction arbitrary: w rule: process_run.induct)
  case (start s)
  then have "w = ws_start []" by (simp add: just_started_def)
  then have "with_handler ([] :: ws_msg list) w = ws_start []" by (simp add: with_handler_def ws_start_def)
  then show ?case using ws_steps.here [of keep_frame "ws_start []"] by simp
next
  case (go_on s ls t l u)
  have same: ?case if "ps_workers t v = Some w0" "with_handler h w0 = with_handler h w" "\<And>x. l \<noteq> Worked v x" "l \<noteq> Restarts" for w0 h
  proof -
    have "with_handler g w0 = with_handler g w" for g :: "ws_msg list" using that(2) by (simp add: with_handler_def)
    then show ?thesis using go_on(3) [OF go_on(4) that(1)] that(3,4) by (cases l) auto
  qed
  from go_on(2) show ?case
  proof cases
    case (worked v' w0 x w1)
    show ?thesis
    proof (cases "v' = v")
      case True
      let ?ls = "worker_trace v (since_restart ls)"
      have w: "w = w1" "ps_workers t v = Some w0" using worked(2,3) go_on(5) True by simp_all
      have "ws_step keep_frame (with_handler (frames_of ?ls) w0) x
          (with_handler (fold keep_frame (case x of Frame c msg \<Rightarrow> [msg] | _ \<Rightarrow> []) (frames_of ?ls)) w1)"
        by (rule ws_step_with_handler [OF worked(4)])
      then show ?thesis using ws_steps.further [OF go_on(3) [OF go_on(4) w(2)]] worked(1) True w(1) by (simp add: keep_frames)
    next
      case False
      then show ?thesis using same [of w] worked(1,2) go_on(5) by simp
    qed
  next
    case (draws src e es n seq)
    then show ?thesis using same go_on(5) by (cases src) (auto simp: with_pending_def split: if_splits)
  next
    case (sends src e es)
    then show ?thesis using same go_on(5) by (cases src) (auto simp: with_pending_def split: if_splits)
  next
    case (restarts store a)
    then have "w = ws_start []" using go_on(5) by (auto simp: restart_workers_def)
    then have "with_handler ([] :: ws_msg list) w = ws_start []" by (simp add: with_handler_def ws_start_def)
    then show ?thesis using restarts(1) ws_steps.here [of keep_frame "ws_start []"] by simp
  qed (use same [of w] go_on(5) in simp_all)
qed

end
