(* ===== verification/Shutdown.thy ===== *)
theory Shutdown
  imports System
begin

text \<open>
  The end of \<open>main\<close> in \<open>cmd/app/main.go\<close>: a signal cancels the context of the process and with it that of every
  worker; \<open>main\<close> then runs its deferred calls in reverse order, which disconnects the workers one after the
  other, each with the \<open>Stop\<close> of theory \<open>Ws_Worker\<close>, and returns, which ends the process. Meanwhile the
  other goroutines go on: the sequencer and the poller stop when they look at the context. The deferred \<open>Stop\<close> of
  the exchange rate client and \<open>stop\<close> of the signal context only cancel contexts that are cancelled already, and
  are not steps of their own.
\<close>

section \<open>State and steps\<close>

datatype main_pc = Serving | Disconnecting "venue list" | MainReturned

record 'st lifecycle =
  lf_process :: "'st process"
  lf_main :: main_pc
  lf_cancelled :: bool
  lf_sequencer :: bool
  lf_poller :: bool

definition serving :: "'st process \<Rightarrow> 'st lifecycle" where
  "serving P = \<lparr>lf_process = P, lf_main = Serving, lf_cancelled = False, lf_sequencer = True, lf_poller = True\<rparr>"

text \<open>The deferred \<open>Disconnect\<close> calls, last deferred first.\<close>

definition stop_order :: "'st process \<Rightarrow> venue list" where
  "stop_order P = filter (\<lambda>v. ps_workers P v \<noteq> None) [BitgetFutures, BitgetSpot, Upbit]"

definition cancel_workers :: "'st process \<Rightarrow> 'st process" where
  "cancel_workers P = P\<lparr>ps_workers := (\<lambda>v. map_option (\<lambda>w. w\<lparr>wy_cancelled := True\<rparr>) (ps_workers P v))\<rparr>"

text \<open>The calls of \<open>main\<close> on a worker, and what the other goroutines may do: those of the workers everything
  else, the sequencer and the poller as long as they run.\<close>

definition stop_label :: "ws_label \<Rightarrow> bool" where
  "stop_label x \<longleftrightarrow> x = StopCancels \<or> x = StopCloses \<or> x = StopReturns"

definition goroutine_label :: "'st lifecycle \<Rightarrow> process_label \<Rightarrow> bool" where
  "goroutine_label s l \<longleftrightarrow>
     (case l of
        Worked v x \<Rightarrow> \<not> stop_label x \<and> x \<noteq> Cancelled
      | Draws src n \<Rightarrow> src = Rate \<longrightarrow> lf_poller s
      | Sends src e ok \<Rightarrow> src = Rate \<longrightarrow> lf_poller s
      | Takes ev \<Rightarrow> lf_sequencer s
      | Restarts \<Rightarrow> False
      | _ \<Rightarrow> lf_poller s)"

inductive lifecycle_step ::
  "'st on_market \<Rightarrow> string list \<Rightarrow> 'st \<Rightarrow> string list \<Rightarrow> (string \<times> string) list \<Rightarrow> 'st lifecycle \<Rightarrow> 'st lifecycle \<Rightarrow> bool"
  for om order strat us bs where
  signal: "lf_main s = Serving \<Longrightarrow>
    lifecycle_step om order strat us bs s
      (s\<lparr>lf_main := Disconnecting (stop_order (lf_process s)), lf_cancelled := True, lf_process := cancel_workers (lf_process s)\<rparr>)"
| goroutine: "lf_main s \<noteq> MainReturned \<Longrightarrow> process_step om order strat us bs (lf_process s) l P \<Longrightarrow> goroutine_label s l \<Longrightarrow>
    lifecycle_step om order strat us bs s (s\<lparr>lf_process := P\<rparr>)"
| disconnect: "lf_main s = Disconnecting (v # vs) \<Longrightarrow> process_step om order strat us bs (lf_process s) (Worked v x) P \<Longrightarrow>
    stop_label x \<Longrightarrow> lifecycle_step om order strat us bs s (s\<lparr>lf_process := P\<rparr>)"
| disconnected: "lf_main s = Disconnecting (v # vs) \<Longrightarrow> ps_workers (lf_process s) v = Some w \<Longrightarrow> wy_stop w = StopReturned \<Longrightarrow>
    lifecycle_step om order strat us bs s (s\<lparr>lf_main := Disconnecting vs\<rparr>)"
| main_returns: "lf_main s = Disconnecting [] \<Longrightarrow> lifecycle_step om order strat us bs s (s\<lparr>lf_main := MainReturned\<rparr>)"
| poller_stops: "lf_cancelled s \<Longrightarrow> ps_poller (lf_process s) = \<lparr>pl_pc = PollWaits, pl_todo = []\<rparr> \<Longrightarrow>
    lifecycle_step om order strat us bs s (s\<lparr>lf_poller := False\<rparr>)"
| sequencer_stops: "lf_cancelled s \<Longrightarrow> lifecycle_step om order strat us bs s (s\<lparr>lf_sequencer := False\<rparr>)"

inductive lifecycle_run ::
  "'st on_market \<Rightarrow> string list \<Rightarrow> 'st \<Rightarrow> string list \<Rightarrow> (string \<times> string) list \<Rightarrow> 'st lifecycle \<Rightarrow> 'st lifecycle \<Rightarrow> bool"
  for om order strat us bs where
  begin_run: "lifecycle_run om order strat us bs s s"
| continue: "lifecycle_run om order strat us bs s t \<Longrightarrow> lifecycle_step om order strat us bs t u \<Longrightarrow> lifecycle_run om order strat us bs s u"

section \<open>The workers during the shutdown\<close>

lemma ws_inv_handler [simp]: "ws_inv (w\<lparr>wy_handler := h\<rparr>) = ws_inv w"
  by (simp add: ws_inv_def split: option.splits loop_pc.splits)

lemma ws_inv_cancelled: "ws_inv w \<Longrightarrow> ws_inv (w\<lparr>wy_cancelled := True\<rparr>)"
  by (simp add: ws_inv_def split: option.splits loop_pc.splits)

lemma ws_step_stopped: "ws_step om s l t \<Longrightarrow> wy_stop s = StopReturned \<Longrightarrow> wy_stop t = StopReturned"
  by (induction rule: ws_step.induct) simp_all

lemma ws_step_cancelled: "ws_step om s l t \<Longrightarrow> wy_cancelled s \<Longrightarrow> wy_cancelled t"
  by (induction rule: ws_step.induct) simp_all

text \<open>A step of the process does to a worker a step of the worker, or takes something off what its \<open>OnMessage\<close>
  has to do.\<close>

lemma process_step_worker:
  assumes "process_step om order strat us bs P l P'" "l \<noteq> Restarts"
  shows "ps_workers P' v = None \<longleftrightarrow> ps_workers P v = None"
    and "ps_workers P' v = Some w' \<Longrightarrow>
      \<exists>w. ps_workers P v = Some w \<and> ((\<exists>h. w' = w\<lparr>wy_handler := h\<rparr>) \<or> (\<exists>x. ws_step (venue_handler us bs v) w x w'))"
proof -
  have same: "\<exists>h. w = w\<lparr>wy_handler := h\<rparr>" for w :: "emission list ws_system"
    by (intro exI [of _ "wy_handler w"]) simp
  from assms show "ps_workers P' v = None \<longleftrightarrow> ps_workers P v = None"
    by cases (auto simp: with_pending_def split: source.splits)
  from assms show "ps_workers P' v = Some w' \<Longrightarrow>
      \<exists>w. ps_workers P v = Some w \<and> ((\<exists>h. w' = w\<lparr>wy_handler := h\<rparr>) \<or> (\<exists>x. ws_step (venue_handler us bs v) w x w'))"
    using same by cases (auto simp: with_pending_def split: source.splits if_splits)
qed

text \<open>Every worker keeps its own invariant; after the signal its context is cancelled; those that \<open>main\<close>
  is done with have been stopped.\<close>

definition stopped :: "'st process \<Rightarrow> venue \<Rightarrow> bool" where
  "stopped P v \<longleftrightarrow> (\<forall>w. ps_workers P v = Some w \<longrightarrow> wy_stop w = StopReturned)"

definition lifecycle_inv :: "'st lifecycle \<Rightarrow> bool" where
  "lifecycle_inv s \<longleftrightarrow>
     (\<forall>v w. ps_workers (lf_process s) v = Some w \<longrightarrow> ws_inv w \<and> (lf_main s \<noteq> Serving \<longrightarrow> wy_cancelled w)) \<and>
     (case lf_main s of
        Serving \<Rightarrow> True
      | Disconnecting vs \<Rightarrow> (\<forall>v \<in> set vs. ps_workers (lf_process s) v \<noteq> None) \<and> (\<forall>v. v \<notin> set vs \<longrightarrow> stopped (lf_process s) v)
      | MainReturned \<Rightarrow> \<forall>v. stopped (lf_process s) v)"

lemma process_step_lifecycle_inv:
  assumes "process_step om order strat us bs (lf_process s) l P" "l \<noteq> Restarts" "lifecycle_inv s"
  shows "lifecycle_inv (s\<lparr>lf_process := P\<rparr>)"
proof -
  note old = process_step_worker [OF assms(1,2)]
  have "ws_inv w' \<and> (lf_main s \<noteq> Serving \<longrightarrow> wy_cancelled w')" if w': "ps_workers P v = Some w'" for v w'
  proof -
    obtain w where w: "ps_workers (lf_process s) v = Some w" "(\<exists>h. w' = w\<lparr>wy_handler := h\<rparr>) \<or> (\<exists>x. ws_step (venue_handler us bs v) w x w')"
      using old(2) [OF w'] by blast
    moreover have "ws_inv w \<and> (lf_main s \<noteq> Serving \<longrightarrow> wy_cancelled w)" using assms(3) w(1) by (simp add: lifecycle_inv_def)
    ultimately show ?thesis using ws_step_inv ws_step_cancelled by fastforce
  qed
  moreover have "stopped P v" if "stopped (lf_process s) v" for v
    using that old(2) [of v] ws_step_stopped by (fastforce simp: stopped_def)
  ultimately show ?thesis using assms(3) old(1) by (auto simp: lifecycle_inv_def split: main_pc.splits)
qed

lemma stop_order_set: "v \<in> set (stop_order P) \<longleftrightarrow> ps_workers P v \<noteq> None"
  by (cases v) (auto simp: stop_order_def)

lemma lifecycle_step_inv:
  assumes "lifecycle_step om order strat us bs s t" "lifecycle_inv s"
  shows "lifecycle_inv t"
  using assms
proof cases
  case signal
  then show ?thesis using assms(2) by (auto simp: lifecycle_inv_def cancel_workers_def stopped_def stop_order_set ws_inv_cancelled)
next
  case (goroutine l P)
  have "l \<noteq> Restarts" using goroutine(4) by (auto simp: goroutine_label_def)
  then show ?thesis using process_step_lifecycle_inv [OF goroutine(3) _ assms(2)] goroutine(1) by simp
next
  case (disconnect v vs x P)
  then show ?thesis using process_step_lifecycle_inv [OF disconnect(3) _ assms(2)] by simp
next
  case (disconnected v vs w)
  have "stopped (lf_process s) u" if "u \<notin> set vs" for u
    using that disconnected assms(2) by (cases "u = v") (auto simp: lifecycle_inv_def stopped_def)
  then show ?thesis using disconnected assms(2) by (simp add: lifecycle_inv_def)
qed (use assms(2) in \<open>auto simp: lifecycle_inv_def split: main_pc.splits\<close>)

lemma lifecycle_run_inv: "lifecycle_run om order strat us bs s t \<Longrightarrow> lifecycle_inv s \<Longrightarrow> lifecycle_inv t"
  by (induction rule: lifecycle_run.induct) (auto intro: lifecycle_step_inv)

lemma lifecycle_run_trans:
  "lifecycle_run om order strat us bs t u \<Longrightarrow> lifecycle_run om order strat us bs s t \<Longrightarrow> lifecycle_run om order strat us bs s u"
  by (induction rule: lifecycle_run.induct) (auto intro: lifecycle_run.continue)

lemma lifecycle_run_step: "lifecycle_step om order strat us bs s t \<Longrightarrow> lifecycle_run om order strat us bs s t"
  by (rule lifecycle_run.continue [OF lifecycle_run.begin_run])

text \<open>What happens to the application during a shutdown are steps of the application without a restart.\<close>

lemma lifecycle_run_simulated:
  "lifecycle_run om order strat us bs s t \<Longrightarrow>
   \<exists>ls. app_run om order strat (ps_app (lf_process s)) ls (ps_app (lf_process t)) \<and> Restarted \<notin> set ls"
proof (induction rule: lifecycle_run.induct)
  case (begin_run s)
  show ?case by (intro exI [of _ "[]"]) (simp add: app_run.stop)
next
  case (continue s t u)
  then obtain ls where ls: "app_run om order strat (ps_app (lf_process s)) ls (ps_app (lf_process t))" "Restarted \<notin> set ls" by blast
  have proc: ?case if "process_step om order strat us bs (lf_process t) l (lf_process u)" "l \<noteq> Restarts" for l
    using process_step_app [OF that(1) ls(1)] ls(2) that(2)
    by (intro exI conjI) (assumption, cases l, simp_all add: app_label_of_def)
  from continue(2) show ?case
  proof cases
    case (goroutine l P)
    have "l \<noteq> Restarts" using goroutine(4) by (auto simp: goroutine_label_def)
    then show ?thesis using proc [of l] goroutine(1,3) by simp
  next
    case (disconnect v vs x P)
    then show ?thesis using proc by simp
  qed (use ls in \<open>auto simp: cancel_workers_def\<close>)
qed

section \<open>The shutdown can always be completed\<close>

text \<open>How many steps a cancelled connection loop is from its end.\<close>

definition rank :: "loop_pc \<Rightarrow> nat" where
  "rank pc = (case pc of LoopReturned \<Rightarrow> 0 | AtTop \<Rightarrow> 1 | Sleeping \<Rightarrow> 1 | Dialling \<Rightarrow> 2 | Reading _ \<Rightarrow> 2 | Subscribing \<Rightarrow> 2
     | InProcess \<Rightarrow> 3 | Dialled _ \<Rightarrow> 3)"

lemma cancelled_loop_ends:
  assumes "wy_cancelled w" "wy_loop w \<noteq> LoopReturned"
  shows "\<exists>l w'. ws_step om w l w' \<and> \<not> stop_label l \<and> l \<noteq> Cancelled \<and> rank (wy_loop w') < rank (wy_loop w) \<and> wy_stop w' = wy_stop w \<and>
    wy_cancelled w' \<and> wy_handler w' = wy_handler w"
proof (cases "wy_loop w")
  case AtTop
  show ?thesis by (intro exI conjI) (rule ws_step.top_done [OF AtTop assms(1)], simp_all add: AtTop rank_def assms(1) stop_label_def)
next
  case Dialling
  show ?thesis by (intro exI conjI) (rule ws_step.dial_fails [OF Dialling], simp_all add: Dialling rank_def assms(1) stop_label_def)
next
  case (Dialled c)
  show ?thesis by (intro exI conjI) (rule ws_step.install [OF Dialled], simp_all add: Dialled rank_def assms(1) stop_label_def)
next
  case Subscribing
  show ?thesis by (intro exI conjI) (rule ws_step.subscribe_fails [OF Subscribing], simp_all add: Subscribing rank_def assms(1) stop_label_def)
next
  case Sleeping
  show ?thesis by (intro exI conjI) (rule ws_step.sleep_done [OF Sleeping assms(1)], simp_all add: Sleeping rank_def assms(1) stop_label_def)
next
  case InProcess
  show ?thesis
  proof (cases "wy_conn w")
    case None
    show ?thesis by (intro exI conjI) (rule ws_step.no_conn [OF InProcess None], simp_all add: InProcess rank_def assms(1) stop_label_def)
  next
    case (Some c)
    show ?thesis by (intro exI conjI) (rule ws_step.has_conn [OF InProcess Some], simp_all add: InProcess rank_def assms(1) stop_label_def)
  qed
next
  case (Reading c)
  show ?thesis by (intro exI conjI) (rule ws_step.read_fails [OF Reading], simp_all add: Reading rank_def assms(1) stop_label_def)
qed (use assms(2) in simp)

text \<open>What a shutdown does to the application: events are added to the inbox, and the engine stays as it is.\<close>

definition only_offered :: "'st application \<Rightarrow> 'st application \<Rightarrow> bool" where
  "only_offered a b \<longleftrightarrow> (\<exists>evs. ap_inbox b = ap_inbox a @ evs) \<and> ap_engine b = ap_engine a"

lemma only_offered_refl [simp]: "only_offered a a"
  by (simp add: only_offered_def)

lemma only_offered_trans: "only_offered a b \<Longrightarrow> only_offered b c \<Longrightarrow> only_offered a c"
  by (auto simp: only_offered_def)

lemma app_send_offered: "only_offered a (app_send e a)"
  by (simp add: only_offered_def app_send_def)

lemma emit_offered: "only_offered a (emit_all es a)"
proof (induction es arbitrary: a)
  case (Cons x es)
  show ?case
  proof (cases x)
    case (Offer e)
    let ?b = "a\<lparr>ap_nextSeq := ap_nextSeq a + 1\<rparr>"
    have "only_offered a ?b" by (simp add: only_offered_def)
    then have "only_offered a (app_send (e\<lparr>mu_Seq := ap_nextSeq a + 1\<rparr>) ?b)" using app_send_offered by (rule only_offered_trans)
    from only_offered_trans [OF this Cons] show ?thesis by (simp add: Offer NextSeq_def)
  next
    case (Numbered e)
    from only_offered_trans [OF app_send_offered Cons] show ?thesis by (simp add: Numbered)
  qed
qed simp

text \<open>Goroutines finish what they have to do.\<close>

lemma process_run_in_lifecycle:
  assumes "process_run om order strat us bs P ls Q" "lf_process s = P" "lf_main s \<noteq> MainReturned" "list_all (emits (Venue v)) ls"
  shows "lifecycle_run om order strat us bs s (s\<lparr>lf_process := Q\<rparr>)"
  using assms
proof (induction rule: process_run.induct)
  case (start P)
  then have "s\<lparr>lf_process := P\<rparr> = s" by simp
  then show ?case by (simp add: lifecycle_run.begin_run)
next
  case (go_on P ls Q l R)
  let ?t = "s\<lparr>lf_process := Q\<rparr>"
  have "goroutine_label ?t l" using go_on(6) by (auto simp: emits_def goroutine_label_def split: process_label.splits)
  then have "lifecycle_step om order strat us bs ?t (?t\<lparr>lf_process := R\<rparr>)"
    by (intro lifecycle_step.goroutine [of _ _ _ _ _ _ l]) (use go_on in simp_all)
  with lifecycle_run.continue [OF go_on(3)] go_on show ?case by simp
qed

lemma worker_drains:
  assumes "lf_main s \<noteq> MainReturned" "ps_workers (lf_process s) v = Some w"
  shows "\<exists>t. lifecycle_run om order strat us bs s t \<and> lf_main t = lf_main s \<and>
    ps_workers (lf_process t) = (ps_workers (lf_process s))(v \<mapsto> w\<lparr>wy_handler := []\<rparr>) \<and>
    only_offered (ps_app (lf_process s)) (ps_app (lf_process t))"
proof -
  let ?P = "lf_process s"
  let ?Q = "with_pending (Venue v) [] (?P\<lparr>ps_app := emit_all (pending ?P (Venue v)) (ps_app ?P)\<rparr>)"
  obtain ls where "process_run om order strat us bs ?P ls ?Q" "list_all (emits (Venue v)) ls" 
    using drains [of ?P "Venue v" "pending ?P (Venue v)" om order strat us bs] by blast
  from process_run_in_lifecycle [OF this(1) refl assms(1) this(2)] show ?thesis
    by (intro exI [of _ "s\<lparr>lf_process := ?Q\<rparr>"]) (simp add: with_pending_def assms(2) emit_offered)
qed

text \<open>A step of a worker with nothing to send, as a step of the process.\<close>

lemma idle_worker_step:
  assumes "ps_workers (lf_process s) v = Some w" "wy_handler w = []" "ws_step (venue_handler us bs v) w x w'"
  shows "process_step om order strat us bs (lf_process s) (Worked v x) ((lf_process s)\<lparr>ps_workers := (ps_workers (lf_process s))(v \<mapsto> w')\<rparr>)"
  by (rule process_step.worked [OF assms(1,3)]) (simp add: assms(2))

lemma idle_worker_finishes:
  assumes "lf_main s \<noteq> MainReturned" "ps_workers (lf_process s) v = Some w" "wy_cancelled w" "wy_handler w = []"
  shows "\<exists>t w'. lifecycle_run om order strat us bs s t \<and> lf_main t = lf_main s \<and>
    ps_workers (lf_process t) = (ps_workers (lf_process s))(v \<mapsto> w') \<and>
    wy_loop w' = LoopReturned \<and> wy_cancelled w' \<and> wy_handler w' = [] \<and> ps_app (lf_process t) = ps_app (lf_process s)"
  using assms
proof (induction "rank (wy_loop w)" arbitrary: s w rule: less_induct)
  case less
  show ?case
  proof (cases "wy_loop w = LoopReturned")
    case True
    then show ?thesis using less.prems
      by (intro exI [of _ s] exI [of _ w]) (auto intro: lifecycle_run.begin_run)
  next
    case False
    obtain x w1 where w1: "ws_step (venue_handler us bs v) w x w1" "\<not> stop_label x" "x \<noteq> Cancelled" "rank (wy_loop w1) < rank (wy_loop w)"
      "wy_cancelled w1" "wy_handler w1 = []"
      using cancelled_loop_ends [of w "venue_handler us bs v"] less.prems(3,4) False by auto
    let ?s = "s\<lparr>lf_process := (lf_process s)\<lparr>ps_workers := (ps_workers (lf_process s))(v \<mapsto> w1)\<rparr>\<rparr>"
    have st: "lifecycle_step om order strat us bs s ?s"
      by (rule lifecycle_step.goroutine [OF less.prems(1) idle_worker_step [OF less.prems(2,4) w1(1)]])
        (simp add: goroutine_label_def w1(2,3))
    obtain t w' where t: "lifecycle_run om order strat us bs ?s t" "lf_main t = lf_main ?s"
      "ps_workers (lf_process t) = (ps_workers (lf_process ?s))(v \<mapsto> w')" "wy_loop w' = LoopReturned" "wy_cancelled w'" "wy_handler w' = []"
      "ps_app (lf_process t) = ps_app (lf_process ?s)"
      using less.hyps [OF w1(4), of ?s] less.prems(1) w1(5,6) by auto
    then show ?thesis using lifecycle_run_trans [OF t(1) lifecycle_run_step [OF st]]
      by (intro exI [of _ t] exI [of _ w']) simp
  qed
qed

definition stop_rank :: "stop_pc \<Rightarrow> nat" where
  "stop_rank pc = (case pc of StopReturned \<Rightarrow> 0 | StopWaits \<Rightarrow> 1 | CancelDone \<Rightarrow> 2 | NotStopping \<Rightarrow> 3)"

lemma returned_stop_proceeds:
  assumes "wy_loop w = LoopReturned" "wy_stop w \<noteq> StopReturned" "wy_cancelled w"
  shows "\<exists>l w'. ws_step om w l w' \<and> stop_label l \<and> stop_rank (wy_stop w') < stop_rank (wy_stop w) \<and> wy_loop w' = LoopReturned \<and>
    wy_cancelled w' \<and> wy_handler w' = wy_handler w"
proof (cases "wy_stop w")
  case NotStopping
  show ?thesis by (intro exI conjI) (rule ws_step.stop_cancels [OF NotStopping], simp_all add: assms NotStopping stop_rank_def stop_label_def)
next
  case CancelDone
  show ?thesis by (intro exI conjI) (rule ws_step.stop_closes [OF CancelDone], simp_all add: assms CancelDone stop_rank_def stop_label_def)
next
  case StopWaits
  show ?thesis by (intro exI conjI) (rule ws_step.stop_returns [OF StopWaits assms(1)], simp_all add: assms StopWaits stop_rank_def stop_label_def)
qed (use assms(2) in simp)

lemma stop_finishes:
  assumes "lf_main s = Disconnecting (v # vs)" "ps_workers (lf_process s) v = Some w" "wy_loop w = LoopReturned" "wy_cancelled w"
    "wy_handler w = []"
  shows "\<exists>t w'. lifecycle_run om order strat us bs s t \<and> lf_main t = lf_main s \<and>
    ps_workers (lf_process t) = (ps_workers (lf_process s))(v \<mapsto> w') \<and> wy_stop w' = StopReturned \<and> wy_cancelled w' \<and>
    ps_app (lf_process t) = ps_app (lf_process s)"
  using assms
proof (induction "stop_rank (wy_stop w)" arbitrary: s w rule: less_induct)
  case less
  show ?case
  proof (cases "wy_stop w = StopReturned")
    case True
    then show ?thesis using less.prems
      by (intro exI [of _ s] exI [of _ w]) (auto intro: lifecycle_run.begin_run)
  next
    case False
    obtain x w1 where w1: "ws_step (venue_handler us bs v) w x w1" "stop_label x" "stop_rank (wy_stop w1) < stop_rank (wy_stop w)"
      "wy_loop w1 = LoopReturned" "wy_cancelled w1" "wy_handler w1 = []"
      using returned_stop_proceeds [of w "venue_handler us bs v"] less.prems(3,4,5) False by auto
    let ?s = "s\<lparr>lf_process := (lf_process s)\<lparr>ps_workers := (ps_workers (lf_process s))(v \<mapsto> w1)\<rparr>\<rparr>"
    have st: "lifecycle_step om order strat us bs s ?s"
      by (rule lifecycle_step.disconnect [OF less.prems(1) idle_worker_step [OF less.prems(2,5) w1(1)] w1(2)])
    obtain t w' where t: "lifecycle_run om order strat us bs ?s t" "lf_main t = lf_main ?s"
      "ps_workers (lf_process t) = (ps_workers (lf_process ?s))(v \<mapsto> w')" "wy_stop w' = StopReturned" "wy_cancelled w'"
      "ps_app (lf_process t) = ps_app (lf_process ?s)"
      using less.hyps [OF w1(3), of ?s] less.prems(1) w1(4-6) by auto
    then show ?thesis using lifecycle_run_trans [OF t(1) lifecycle_run_step [OF st]]
      by (intro exI [of _ t] exI [of _ w']) simp
  qed
qed

lemma disconnect_one:
  assumes "lf_main s = Disconnecting (v # vs)" "ps_workers (lf_process s) v = Some w" "wy_cancelled w"
  shows "\<exists>t w'. lifecycle_run om order strat us bs s t \<and> lf_main t = Disconnecting vs \<and>
    ps_workers (lf_process t) = (ps_workers (lf_process s))(v \<mapsto> w') \<and> wy_cancelled w' \<and>
    only_offered (ps_app (lf_process s)) (ps_app (lf_process t))"
proof -
  obtain s0 where s0: "lifecycle_run om order strat us bs s s0" "lf_main s0 = lf_main s"
    "ps_workers (lf_process s0) = (ps_workers (lf_process s))(v \<mapsto> w\<lparr>wy_handler := []\<rparr>)"
    "only_offered (ps_app (lf_process s)) (ps_app (lf_process s0))"
    using worker_drains [OF _ assms(2), of om order strat us bs] assms(1) by auto
  obtain s1 w1 where s1: "lifecycle_run om order strat us bs s0 s1" "lf_main s1 = lf_main s0"
    "ps_workers (lf_process s1) = (ps_workers (lf_process s0))(v \<mapsto> w1)" "wy_loop w1 = LoopReturned" "wy_cancelled w1" "wy_handler w1 = []"
    "ps_app (lf_process s1) = ps_app (lf_process s0)"
    using idle_worker_finishes [of s0 v "w\<lparr>wy_handler := []\<rparr>" om order strat us bs] s0(2,3) assms(1,3) by auto
  obtain s2 w2 where s2: "lifecycle_run om order strat us bs s1 s2" "lf_main s2 = lf_main s1"
    "ps_workers (lf_process s2) = (ps_workers (lf_process s1))(v \<mapsto> w2)" "wy_stop w2 = StopReturned" "wy_cancelled w2"
    "ps_app (lf_process s2) = ps_app (lf_process s1)"
    using stop_finishes [of s1 v vs w1 om order strat us bs] s1(2-6) s0(2) assms(1) by auto
  let ?t = "s2\<lparr>lf_main := Disconnecting vs\<rparr>"
  have "lifecycle_step om order strat us bs s2 ?t"
    by (rule lifecycle_step.disconnected [OF _ _ s2(4), of _ v vs]) (use s2(2,3) s1(2) s0(2) assms(1) in simp_all)
  from lifecycle_run_trans [OF lifecycle_run_step [OF this] lifecycle_run_trans [OF s2(1) lifecycle_run_trans [OF s1(1) s0(1)]]]
  show ?thesis using s0(3,4) s1(3,7) s2(3,5,6) by (intro exI [of _ ?t] exI [of _ w2]) simp
qed

lemma disconnect_completes:
  assumes "lf_main s = Disconnecting vs" "\<forall>v w. ps_workers (lf_process s) v = Some w \<longrightarrow> wy_cancelled w"
    and "\<forall>v \<in> set vs. ps_workers (lf_process s) v \<noteq> None"
  shows "\<exists>t. lifecycle_run om order strat us bs s t \<and> lf_main t = MainReturned \<and> only_offered (ps_app (lf_process s)) (ps_app (lf_process t))"
  using assms
proof (induction vs arbitrary: s)
  case Nil
  then show ?case using lifecycle_run_step [OF lifecycle_step.main_returns [OF Nil(1)]]
    by (intro exI conjI) (assumption, simp_all)
next
  case (Cons v vs)
  obtain w where w: "ps_workers (lf_process s) v = Some w" "wy_cancelled w" using Cons.prems(2,3) by auto
  obtain s1 w1 where s1: "lifecycle_run om order strat us bs s s1" "lf_main s1 = Disconnecting vs"
    "ps_workers (lf_process s1) = (ps_workers (lf_process s))(v \<mapsto> w1)" "wy_cancelled w1"
    "only_offered (ps_app (lf_process s)) (ps_app (lf_process s1))"
    using disconnect_one [OF Cons.prems(1) w, of om order strat us bs] by blast
  have "\<forall>u w. ps_workers (lf_process s1) u = Some w \<longrightarrow> wy_cancelled w" "\<forall>u \<in> set vs. ps_workers (lf_process s1) u \<noteq> None"
    unfolding s1(3) using Cons.prems(2,3) s1(4) by (simp_all split: if_splits)
  then obtain t where "lifecycle_run om order strat us bs s1 t" "lf_main t = MainReturned"
    "only_offered (ps_app (lf_process s1)) (ps_app (lf_process t))"
    using Cons.IH [OF s1(2)] by blast
  then show ?case using lifecycle_run_trans [OF _ s1(1)] only_offered_trans [OF s1(5)] by blast
qed

text \<open>From every state \<open>main\<close> can come to its end without any event being taken from the inbox.\<close>

lemma main_can_return:
  assumes "lifecycle_inv s"
  shows "\<exists>t. lifecycle_run om order strat us bs s t \<and> lf_main t = MainReturned \<and> only_offered (ps_app (lf_process s)) (ps_app (lf_process t))"
proof (cases "lf_main s")
  case Serving
  let ?t = "s\<lparr>lf_main := Disconnecting (stop_order (lf_process s)), lf_cancelled := True, lf_process := cancel_workers (lf_process s)\<rparr>"
  have st: "lifecycle_step om order strat us bs s ?t" by (rule lifecycle_step.signal [OF Serving])
  have "\<forall>v w. ps_workers (lf_process ?t) v = Some w \<longrightarrow> wy_cancelled w"
    "\<forall>v \<in> set (stop_order (lf_process s)). ps_workers (lf_process ?t) v \<noteq> None"
    by (auto simp: cancel_workers_def stop_order_set)
  then obtain t where t: "lifecycle_run om order strat us bs ?t t" "lf_main t = MainReturned"
    "only_offered (ps_app (lf_process ?t)) (ps_app (lf_process t))"
    using disconnect_completes [of ?t "stop_order (lf_process s)" om order strat us bs] by auto
  show ?thesis using lifecycle_run_trans [OF t(1) lifecycle_run_step [OF st]] t(2,3) by (auto simp: cancel_workers_def)
next
  case (Disconnecting vs)
  then show ?thesis using disconnect_completes [OF Disconnecting] assms by (auto simp: lifecycle_inv_def)
next
  case MainReturned
  then show ?thesis using only_offered_refl by (blast intro: lifecycle_run.begin_run)
qed

section \<open>Properties\<close>

lemma serving_run_inv: "lifecycle_run om order strat us bs (serving (process_of r)) s \<Longrightarrow> lifecycle_inv s"
  by (erule lifecycle_run_inv) (auto simp: lifecycle_inv_def serving_def process_of_def ws_start_inv split: if_splits)

text \<open>C10. The program shuts down in order. From the process \<open>main\<close> leaves running, whatever the goroutines do: when
  \<open>main\<close> has returned, the loop of every worker has ended and every connection ever opened is closed, and the
  application has only made steps of its own, none of them a restart; and from every state, before or after the
  signal, there is a way to the end of \<open>main\<close>: no deadlock is reachable, although each \<open>Disconnect\<close> waits for
  its worker's loop.\<close>

theorem shutdown_in_order:
  assumes "lifecycle_run om order strat us bs (serving (process_of r)) s"
  shows "(lf_main s = MainReturned \<longrightarrow>
      (\<forall>v w. ps_workers (lf_process s) v = Some w \<longrightarrow> wy_loop w = LoopReturned \<and> (\<forall>c < wy_opened w. c \<in> wy_closed w))) \<and>
    (\<exists>ls. app_run om order strat (ra_app r) ls (ps_app (lf_process s)) \<and> Restarted \<notin> set ls) \<and>
    (\<exists>t. lifecycle_run om order strat us bs s t \<and> lf_main t = MainReturned)"
proof (intro conjI impI allI)
  note inv = serving_run_inv [OF assms]
  {
    fix v w assume e: "lf_main s = MainReturned" "ps_workers (lf_process s) v = Some w"
    have "stopped (lf_process s) v" using inv e(1) by (simp add: lifecycle_inv_def)
    then have i: "ws_inv w" "wy_stop w = StopReturned" using inv e by (auto simp: lifecycle_inv_def stopped_def)
    then show l: "wy_loop w = LoopReturned" by (simp add: ws_inv_def)
    fix c assume "c < wy_opened w"
    then show "c \<in> wy_closed w" using i(1) l by (auto simp: ws_inv_def unconnected_def)
  }
  show "\<exists>ls. app_run om order strat (ra_app r) ls (ps_app (lf_process s)) \<and> Restarted \<notin> set ls"
    using lifecycle_run_simulated [OF assms] by (simp add: serving_def process_of_def)
  show "\<exists>t. lifecycle_run om order strat us bs s t \<and> lf_main t = MainReturned"
    using main_can_return [OF inv] by blast
qed

theorem shutdown_in_order_witness:
  "\<exists>r t ls (strat :: sma_cross). (\<forall>v. ps_workers (process_of r) v \<noteq> None) \<and>
    lifecycle_run OnMarketUpdate [] strat [''BTC''] [(''BTC'', ''BTCUSDT'')] (serving (process_of r)) t \<and> lf_main t = MainReturned \<and>
    (\<forall>v w. ps_workers (lf_process t) v = Some w \<longrightarrow> wy_loop w = LoopReturned \<and> (\<forall>c < wy_opened w. c \<in> wy_closed w)) \<and>
    app_run OnMarketUpdate [] strat (ra_app r) ls (ps_app (lf_process t)) \<and> Restarted \<notin> set ls"
proof -
  obtain strat where "NewSMACrossStrategy ''BTC-USDT'' 3 5 = Inr strat" using main_strategy by blast
  let ?a = "\<lparr>ap_inbox = [], ap_cap = 1024, ap_nextSeq = 1, ap_engine = NewSequencer (Some empty_store) (Some strat) True\<rparr>"
  let ?r = "(start_gateways [(''BTC'', ''BTCUSDT'')] [] startup_config empty_store ?a)
    \<lparr>ra_upbit := Some (Connect_worker (upbit_NewWorker [''BTC''] [] 1024 1))\<rparr>"
  let ?run = "lifecycle_run OnMarketUpdate [] strat [''BTC''] [(''BTC'', ''BTCUSDT'')]"
  obtain t where t: "?run (serving (process_of ?r)) t" "lf_main t = MainReturned"
    using shutdown_in_order [OF lifecycle_run.begin_run, where om = OnMarketUpdate and order = "[]" and strat = strat
        and us = "[''BTC'']" and bs = "[(''BTC'', ''BTCUSDT'')]" and r = ?r] by blast
  have "\<forall>v. ps_workers (process_of ?r) v \<noteq> None"
    by (auto simp: process_of_def start_gateways_def Let_def split: venue.splits)
  with shutdown_in_order [OF t(1)] t show ?thesis by blast
qed

text \<open>All events in the inbox at the signal can be lost although nothing fails: \<open>main\<close> does not wait for the
  sequencer.\<close>

lemma shutdown_can_drop_inbox:
  assumes "lifecycle_run om order strat us bs (serving (process_of r)) s"
  shows "\<exists>t. lifecycle_run om order strat us bs s t \<and> lf_main t = MainReturned \<and>
    (\<exists>evs. ap_inbox (ps_app (lf_process t)) = ap_inbox (ps_app (lf_process s)) @ evs) \<and>
    ap_engine (ps_app (lf_process t)) = ap_engine (ps_app (lf_process s))"
  using main_can_return [OF serving_run_inv [OF assms], of om order strat us bs] by (auto simp: only_offered_def)

end
