(* ===== verification/Float64.thy ===== *)
theory Float64
  imports Prelude Complex_Main "HOL-Library.Log_Nat"
begin

text \<open>
  Go's \<open>float64\<close> as far as the program uses it: a finite binary64 value is the rational number it
  stands for, and each operation rounds its exact result to the nearest binary64, ties to even, with
  gradual underflow. No operation of the program comes near \<open>2^1024\<close>, so there are no infinities.
  The lemmas are the usual ones of floating-point proofs: rounding is monotone and odd, leaves
  integers up to \<open>2^53\<close> alone and has a relative error of at most \<open>2^-53\<close> above the subnormal range.
\<close>

section \<open>Rounding\<close>

definition log2_floor :: "rat \<Rightarrow> int" where
  "log2_floor x =
     (case quotient_of x of (a, b) \<Rightarrow>
        let k = bitlen a - bitlen b in if 2 powi k \<le> x then k else k - 1)"

definition ulp_exp :: "rat \<Rightarrow> int" where
  "ulp_exp x = max (log2_floor \<bar>x\<bar> - 52) (- 1074)"

definition round_even :: "rat \<Rightarrow> int" where
  "round_even y =
     (let f = \<lfloor>y\<rfloor>; d = y - of_int f
      in if d < 1 / 2 then f else if d > 1 / 2 then f + 1 else if even f then f else f + 1)"

definition fl :: "rat \<Rightarrow> rat" where
  "fl x = (let e = ulp_exp x in sgn x * (of_int (round_even (\<bar>x\<bar> / 2 powi e)) * 2 powi e))"

section \<open>Lemmas\<close>

lemma pow2_pos [simp]: "0 < (2 :: rat) powi k"
  by simp

lemma pow2_le: "(2 :: rat) powi j \<le> 2 powi k \<longleftrightarrow> j \<le> k"
  using power_int_increasing [of j k "2 :: rat"] power_int_strict_increasing [of k j "2 :: rat"]
  by (cases "j \<le> k") auto

lemma pow2_less: "(2 :: rat) powi j < 2 powi k \<longleftrightarrow> j < k"
  using pow2_le [of k j] by (simp add: not_le flip: not_less)

lemma pow2_nat: "(2 :: rat) ^ nat k = 2 powi k" if "0 \<le> k"
  using that by (metis int_nat_eq power_int_of_nat)

lemma log2_floor_bounds:
  assumes "0 < x"
  shows "2 powi log2_floor x \<le> x" "x < 2 powi (log2_floor x + 1)"
proof -
  obtain a b where q: "quotient_of x = (a, b)" by (cases "quotient_of x")
  then have b: "0 < b" and x: "x = of_int a / of_int b"
    by (simp_all add: quotient_of_denom_pos quotient_of_div)
  then have a: "0 < a" using assms by (simp add: zero_less_divide_iff)
  have bl: "1 \<le> bitlen c" if "0 < c" for c
    using that bitlen_nonneg [of c] bitlen_eq_zero_iff [of c] by linarith
  have bounds: "2 powi (bitlen c - 1) \<le> (of_int c :: rat) \<and> (of_int c :: rat) < 2 powi bitlen c" if "0 < c" for c
  proof -
    have "(of_int (2 ^ nat (bitlen c - 1)) :: rat) \<le> of_int c" "(of_int c :: rat) < of_int (2 ^ nat (bitlen c))"
      using bitlen_bounds [OF that] by (simp_all only: of_int_le_iff of_int_less_iff)
    then show ?thesis using bl [OF that] pow2_nat [of "bitlen c - 1"] pow2_nat [of "bitlen c"] by simp
  qed
  let ?k = "bitlen a - bitlen b"
  have bp: "(0 :: rat) < of_int b" using b by simp
  have "2 powi (?k - 1) * (of_int b :: rat) \<le> 2 powi (?k - 1) * 2 powi bitlen b"
    using bounds [OF b] by (simp add: mult_left_mono)
  also have "\<dots> = 2 powi (bitlen a - 1)" by (simp flip: power_int_add)
  also have "\<dots> \<le> of_int a" using bounds [OF a] by simp
  finally have lo: "2 powi (?k - 1) \<le> x" unfolding x using bp by (simp add: pos_le_divide_eq)
  have "(of_int a :: rat) < 2 powi bitlen a" using bounds [OF a] by simp
  also have "\<dots> = 2 powi (?k + 1) * 2 powi (bitlen b - 1)" by (simp flip: power_int_add)
  also have "\<dots> \<le> 2 powi (?k + 1) * of_int b" using bounds [OF b] by (simp add: mult_left_mono)
  finally have hi: "x < 2 powi (?k + 1)" unfolding x using bp by (simp add: pos_divide_less_eq)
  show "2 powi log2_floor x \<le> x" "x < 2 powi (log2_floor x + 1)"
    using lo hi by (simp_all add: log2_floor_def q Let_def)
qed

lemma log2_floor_eq:
  assumes "0 < x" "2 powi k \<le> x" "x < 2 powi (k + 1)"
  shows "log2_floor x = k"
proof -
  have "(2 :: rat) powi k < 2 powi (log2_floor x + 1)" "(2 :: rat) powi log2_floor x < 2 powi (k + 1)"
    using log2_floor_bounds [OF assms(1)] assms(2,3) by linarith+
  then show ?thesis by (simp add: pow2_less)
qed

lemma log2_floor_mono:
  assumes "0 < x" "x \<le> y"
  shows "log2_floor x \<le> log2_floor y"
proof -
  have "(2 :: rat) powi log2_floor x < 2 powi (log2_floor y + 1)"
    using log2_floor_bounds [OF assms(1)] log2_floor_bounds [of y] assms by linarith
  then have "\<not> log2_floor y + 1 \<le> log2_floor x" using pow2_le by (metis not_le)
  then show ?thesis by simp
qed

lemma ulp_exp_mono: "0 < x \<Longrightarrow> x \<le> y \<Longrightarrow> ulp_exp x \<le> ulp_exp y"
  using log2_floor_mono [of x y] by (simp add: ulp_exp_def)

lemma ulp_exp_upper: "0 < x \<Longrightarrow> x < 2 powi (ulp_exp x + 53)"
proof -
  assume x: "0 < x"
  have "(2 :: rat) powi (log2_floor x + 1) \<le> 2 powi (ulp_exp x + 53)"
    unfolding pow2_le using x by (simp add: ulp_exp_def)
  then show ?thesis using log2_floor_bounds(2) [OF x] by linarith
qed

lemma ulp_exp_lower: "0 < x \<Longrightarrow> ulp_exp x \<noteq> - 1074 \<Longrightarrow> 2 powi (ulp_exp x + 52) \<le> x"
  using log2_floor_bounds(1) [of x] by (auto simp: ulp_exp_def max_def split: if_splits)

lemma round_even_error: "\<bar>of_int (round_even y) - y\<bar> \<le> 1 / 2"
proof -
  define f where "f = \<lfloor>y\<rfloor>"
  have "of_int f \<le> y" "y < of_int f + 1" unfolding f_def by linarith+
  then show ?thesis unfolding round_even_def Let_def f_def [symmetric] by (auto simp: abs_if)
qed

lemma round_even_of_int [simp]: "round_even (of_int n) = n"
  by (simp add: round_even_def)

lemma round_even_mono:
  assumes "x \<le> y"
  shows "round_even x \<le> round_even y"
proof (cases "\<lfloor>x\<rfloor> = \<lfloor>y\<rfloor>")
  case True
  then show ?thesis using assms by (simp add: round_even_def Let_def)
next
  case False
  then have "\<lfloor>x\<rfloor> + 1 \<le> \<lfloor>y\<rfloor>" using floor_mono [OF assms] by linarith
  moreover have "round_even x \<le> \<lfloor>x\<rfloor> + 1" "\<lfloor>y\<rfloor> \<le> round_even y" by (simp_all add: round_even_def Let_def)
  ultimately show ?thesis by linarith
qed

lemma round_even_nonneg: "0 \<le> y \<Longrightarrow> 0 \<le> round_even y"
  using round_even_mono [of 0 y] round_even_of_int [of 0] by simp

lemma fl_0 [simp]: "fl 0 = 0"
  by (simp add: fl_def)

lemma fl_uminus: "fl (- x) = - fl x"
  by (simp add: fl_def ulp_exp_def Let_def sgn_if)

lemma fl_pos: "0 < x \<Longrightarrow> fl x = of_int (round_even (x / 2 powi ulp_exp x)) * 2 powi ulp_exp x"
  by (simp add: fl_def Let_def)

lemma fl_nonneg: "0 \<le> x \<Longrightarrow> 0 \<le> fl x"
  by (cases "x = 0") (auto simp: fl_pos round_even_nonneg)

lemma fl_pos_upper:
  assumes "0 < x"
  shows "fl x \<le> 2 powi (ulp_exp x + 53)"
proof -
  have "x / 2 powi ulp_exp x \<le> 2 ^ 53"
    using ulp_exp_upper [OF assms] by (simp add: pos_divide_le_eq power_int_add mult.commute)
  then have "round_even (x / 2 powi ulp_exp x) \<le> 2 ^ 53"
    using round_even_mono [of _ "of_int (2 ^ 53)"] by (metis of_int_power of_int_numeral round_even_of_int)
  then have "of_int (round_even (x / 2 powi ulp_exp x)) \<le> (2 :: rat) ^ 53"
    by (metis of_int_le_iff of_int_power of_int_numeral)
  then show ?thesis unfolding fl_pos [OF assms] by (simp add: power_int_add mult.commute)
qed

lemma fl_pos_lower:
  assumes "0 < y" "ulp_exp y \<noteq> - 1074"
  shows "2 powi (ulp_exp y + 52) \<le> fl y"
proof -
  have "2 ^ 52 \<le> y / 2 powi ulp_exp y"
    using ulp_exp_lower [OF assms] by (simp add: pos_le_divide_eq power_int_add mult.commute)
  then have "2 ^ 52 \<le> round_even (y / 2 powi ulp_exp y)"
    using round_even_mono [of "of_int (2 ^ 52)"] by (metis of_int_power of_int_numeral round_even_of_int)
  then have "(2 :: rat) ^ 52 \<le> of_int (round_even (y / 2 powi ulp_exp y))"
    by (metis of_int_le_iff of_int_power of_int_numeral)
  then show ?thesis unfolding fl_pos [OF assms(1)] by (simp add: power_int_add mult.commute)
qed

lemma fl_mono_pos:
  assumes "0 < x" "x \<le> y"
  shows "fl x \<le> fl y"
proof (cases "ulp_exp x = ulp_exp y")
  case True
  have "x / 2 powi ulp_exp y \<le> y / 2 powi ulp_exp y" using assms(2) by (simp add: divide_right_mono)
  from round_even_mono [OF this] show ?thesis
    using assms by (simp add: fl_pos True)
next
  case False
  then have lt: "ulp_exp x + 1 \<le> ulp_exp y" using ulp_exp_mono [OF assms] by simp
  then have "ulp_exp y \<noteq> - 1074" by (simp add: ulp_exp_def)
  then have "2 powi (ulp_exp y + 52) \<le> fl y" using fl_pos_lower assms by simp
  moreover have "(2 :: rat) powi (ulp_exp x + 53) \<le> 2 powi (ulp_exp y + 52)" unfolding pow2_le using lt by simp
  ultimately show ?thesis using fl_pos_upper [OF assms(1)] by linarith
qed

lemma fl_mono: "x \<le> y \<Longrightarrow> fl x \<le> fl y"
proof -
  assume xy: "x \<le> y"
  consider "0 < x" | "x \<le> 0" "0 \<le> y" | "y < 0" by linarith
  then show ?thesis
  proof cases
    case 1
    then show ?thesis using fl_mono_pos xy by simp
  next
    case 2
    then show ?thesis using fl_nonneg [of y] fl_nonneg [of "- x"] by (simp add: fl_uminus)
  next
    case 3
    then show ?thesis using fl_mono_pos [of "- y" "- x"] xy by (simp add: fl_uminus)
  qed
qed

lemma fl_of_int:
  assumes "\<bar>n\<bar> < 2 ^ 53"
  shows "fl (of_int n) = of_int n"
proof -
  have pos: "fl (of_int m) = of_int m" if m: "0 < m" "m < 2 ^ 53" for m :: int
  proof -
    have mp: "0 < (of_int m :: rat)" using m(1) by simp
    have "(of_int m :: rat) < of_int (2 ^ 53)" using m(2) by (simp only: of_int_less_iff)
    then have "(2 :: rat) powi log2_floor (of_int m) < 2 powi 53"
      using log2_floor_bounds(1) [OF mp] by simp
    then have "log2_floor (of_int m) < 53" by (simp only: pow2_less)
    then have e: "ulp_exp (of_int m) \<le> 0" using mp by (simp add: ulp_exp_def)
    have "(of_int m :: rat) / 2 powi ulp_exp (of_int m) = of_int (m * 2 ^ nat (- ulp_exp (of_int m)))"
      using pow2_nat [of "- ulp_exp (of_int m)"] e by (simp add: power_int_minus field_simps)
    then show ?thesis unfolding fl_pos [OF mp]
      by (metis nonzero_eq_divide_eq pow2_pos order_less_irrefl round_even_of_int)
  qed
  consider "0 < n" | "n = 0" | "n < 0" by linarith
  then show ?thesis
  proof cases
    case 3
    then show ?thesis using pos [of "- n"] assms by (simp add: fl_uminus)
  qed (use pos assms in auto)
qed

lemma fl_error: "\<bar>fl x - x\<bar> \<le> \<bar>x\<bar> / 2 ^ 53 + 2 powi (- 1075)"
proof -
  have pos: "\<bar>fl x - x\<bar> \<le> x / 2 ^ 53 + 2 powi (- 1075)" if x: "0 < x" for x
  proof -
    let ?u = "(2 :: rat) powi ulp_exp x"
    have "\<bar>fl x - x\<bar> = \<bar>of_int (round_even (x / ?u)) - x / ?u\<bar> * ?u"
      unfolding fl_pos [OF x] by (simp add: left_diff_distrib abs_mult [symmetric, of _ ?u, simplified] abs_mult_pos)
    also have "\<dots> \<le> 1 / 2 * ?u" by (intro mult_right_mono round_even_error) simp
    also have "\<dots> \<le> x / 2 ^ 53 + 2 powi (- 1075)"
    proof (cases "ulp_exp x = - 1074")
      case True
      then have "1 / 2 * ?u = 2 powi (- 1075)" by (simp add: power_int_minus flip: power_Suc)
      then show ?thesis using x by simp
    next
      case False
      have "1 / 2 * ?u = 2 powi (ulp_exp x + 52) / 2 ^ 53" by (simp add: power_int_add)
      also have "\<dots> \<le> x / 2 ^ 53" using ulp_exp_lower [OF x False] by (simp add: divide_right_mono)
      finally show ?thesis using pow2_pos [of "- 1075"] by linarith
    qed
    finally show ?thesis .
  qed
  consider "0 < x" | "x = 0" | "x < 0" by linarith
  then show ?thesis
  proof cases
    case 3
    then show ?thesis using pos [of "- x"] by (simp add: fl_uminus abs_minus_commute)
  qed (use pos in auto)
qed

text \<open>The absolute part of the error is far below anything the program computes with.\<close>

lemma fl_error_small: "\<bar>fl x - x\<bar> \<le> \<bar>x\<bar> / 2 ^ 53 + 1 / 2 ^ 200"
proof -
  have "(2 :: rat) powi (- 1075) \<le> 2 powi (- 200)" unfolding pow2_le by simp
  then have "(2 :: rat) powi (- 1075) \<le> 1 / 2 ^ 200" by (simp add: power_int_minus field_simps)
  then show ?thesis using fl_error [of x] by linarith
qed

end
