(* ===== verification/Quant_Float.thy ===== *)
theory Quant_Float
  imports Float64 Decimal
begin

text \<open>
  The conversions between fixed-point numbers and \<open>float64\<close> (\<open>pkg/quant/quant_types.go\<close>:
  \<open>ToPriceMicros\<close>, \<open>ToQtySats\<close> and the two \<open>String\<close> methods), and the price display of
  \<open>cmd/pricetest/main.go\<close> that uses the same arithmetic.
\<close>

section \<open>Conversions\<close>

text \<open>\<open>math.Round\<close> rounds halves away from zero. What the conversion to \<open>int64\<close> gives for a value out
  of range is up to the processor: an argument.\<close>

definition math_Round :: "rat \<Rightarrow> int" where
  "math_Round x = (if 0 \<le> x then \<lfloor>x + 1 / 2\<rfloor> else - \<lfloor>- x + 1 / 2\<rfloor>)"

definition float_to_i64 :: "i64 \<Rightarrow> int \<Rightarrow> i64" where
  "float_to_i64 outside n = (if in_i64 n then word_of_int n else outside)"

definition ToPriceMicros :: "i64 \<Rightarrow> rat \<Rightarrow> i64" where
  "ToPriceMicros outside f = float_to_i64 outside (math_Round (fl (f * 1000000)))"

definition ToQtySats :: "i64 \<Rightarrow> rat \<Rightarrow> i64" where
  "ToQtySats outside f = float_to_i64 outside (math_Round (fl (f * 100000000)))"

text \<open>The verbs \<open>%.6f\<close>, \<open>%.8f\<close>, \<open>%.2f\<close>: the exact binary value rounded to that many decimals, ties to even.\<close>

definition fmt_fixed :: "nat \<Rightarrow> rat \<Rightarrow> string" where
  "fmt_fixed k x =
     (let n = nat (round_even (\<bar>x\<bar> * 10 ^ k))
      in (if x < 0 then ''-'' else []) @ dec (n div 10 ^ k) @ ''.'' @ pad0 k (dec (n mod 10 ^ k)))"

definition PriceMicros_String :: "i64 \<Rightarrow> string" where
  "PriceMicros_String p = fmt_fixed 6 (fl (fl (of_int (sint p)) / 1000000))"

definition QtySats_String :: "i64 \<Rightarrow> string" where
  "QtySats_String q = fmt_fixed 8 (fl (fl (of_int (sint q)) / 100000000))"

text \<open>\<open>cmd/pricetest\<close>: won without decimals, dollars with two.\<close>

definition formatKRW :: "i64 \<Rightarrow> string" where
  "formatKRW micros = fmt_d (sint (go_div micros 1000000))"

definition formatUSD :: "i64 \<Rightarrow> string" where
  "formatUSD micros = fmt_fixed 2 (fl (fl (of_int (sint micros)) / 1000000))"

section \<open>Exactness\<close>

lemma round_even_close: "\<bar>x - of_int n\<bar> < 1 / 2 \<Longrightarrow> round_even x = n"
proof -
  assume "\<bar>x - of_int n\<bar> < 1 / 2"
  then have "\<bar>of_int (round_even x) - (of_int n :: rat)\<bar> < 1" using round_even_error [of x] by linarith
  then have "\<bar>round_even x - n\<bar> < 1" by (metis of_int_1_less_iff of_int_abs of_int_diff of_int_less_1_iff)
  then show ?thesis by linarith
qed

lemma math_Round_close: "\<bar>x - of_int n\<bar> < 1 / 2 \<Longrightarrow> math_Round x = n"
proof -
  assume x: "\<bar>x - of_int n\<bar> < 1 / 2"
  show ?thesis
  proof (cases "0 \<le> x")
    case True
    have "\<lfloor>x + 1 / 2\<rfloor> = n" by (rule floor_unique) (use x in linarith)+
    then show ?thesis using True by (simp add: math_Round_def)
  next
    case False
    have "\<lfloor>- x + 1 / 2\<rfloor> = - n" by (rule floor_unique; unfold of_int_minus) (use x in linarith)+
    then show ?thesis using False by (simp add: math_Round_def)
  qed
qed

text \<open>The division by a scale and back loses less than a half.\<close>

lemma scale_error:
  assumes "\<bar>n\<bar> \<le> 2 ^ 50" "1 \<le> s" "s \<le> 100000000"
  shows "\<bar>fl (of_int n / s) * s - of_int n\<bar> < 1 / 4"
proof -
  let ?x = "of_int n / s"
  have n: "\<bar>of_int n :: rat\<bar> \<le> 2 ^ 50" using assms(1) by (metis of_int_abs of_int_le_iff of_int_numeral of_int_power)
  have sp: "0 < s" using assms(2) by linarith
  have e: "\<bar>?x\<bar> * s = \<bar>of_int n\<bar>" using sp by (simp add: abs_divide)
  have "\<bar>fl ?x * s - of_int n\<bar> = \<bar>fl ?x - ?x\<bar> * s"
    using sp by (simp add: left_diff_distrib abs_mult_pos)
  also have "\<dots> \<le> (\<bar>?x\<bar> / 2 ^ 53 + 1 / 2 ^ 200) * s"
    by (rule mult_right_mono) (use fl_error_small [of ?x] sp in simp_all)
  also have "\<dots> = \<bar>of_int n\<bar> / 2 ^ 53 + s / 2 ^ 200" unfolding distrib_right e [symmetric] by simp
  also have "\<dots> \<le> 2 ^ 50 / 2 ^ 53 + 100000000 / 2 ^ 200" using n assms(3) by (intro add_mono divide_right_mono) simp_all
  also have "\<dots> < 1 / 4" by simp
  finally show ?thesis .
qed

lemma to_fixed_exact:
  assumes "\<bar>sint p\<bar> \<le> 2 ^ 50" "1 \<le> s" "s \<le> 100000000"
  shows "float_to_i64 outside (math_Round (fl (fl (of_int (sint p) / s) * s))) = p"
proof -
  let ?y = "fl (of_int (sint p) / s) * s"
  have y: "\<bar>?y - of_int (sint p)\<bar> < 1 / 4" by (rule scale_error [OF assms])
  have n: "\<bar>of_int (sint p) :: rat\<bar> \<le> 2 ^ 50" using assms(1) by (metis of_int_abs of_int_le_iff of_int_numeral of_int_power)
  have "\<bar>?y\<bar> \<le> 2 ^ 50 + 1" using n y by linarith
  then have "\<bar>?y\<bar> / 2 ^ 53 \<le> (2 ^ 50 + 1) / 2 ^ 53" by (rule divide_right_mono) simp
  then have "\<bar>fl ?y - ?y\<bar> \<le> (2 ^ 50 + 1) / 2 ^ 53 + 1 / 2 ^ 200" using fl_error_small [of ?y] by linarith
  also have "\<dots> < 1 / 4" by simp
  finally have "\<bar>fl ?y - of_int (sint p)\<bar> < 1 / 2" using y by linarith
  then have "math_Round (fl ?y) = sint p" by (rule math_Round_close)
  then show ?thesis by (simp add: float_to_i64_def)
qed

lemma fixed_string_exact:
  assumes "\<bar>sint p\<bar> \<le> 2 ^ 50" "k \<le> 8" "0 < k"
  shows "fmt_fixed k (fl (fl (of_int (sint p)) / 10 ^ k)) = formatFixedPoint p k"
proof -
  let ?x = "fl (of_int (sint p) / 10 ^ k)"
  have i: "fl (of_int (sint p)) = of_int (sint p)" using assms(1) by (intro fl_of_int) simp
  have k: "(1 :: rat) \<le> 10 ^ k" "(10 :: rat) ^ k \<le> 100000000"
    using power_increasing [OF assms(2), of "10 :: rat"] by simp_all
  have e: "\<bar>?x * 10 ^ k - of_int (sint p)\<bar> < 1 / 4" by (rule scale_error [OF assms(1) k])
  have sg: "?x < 0 \<longleftrightarrow> sint p < 0"
  proof (cases "sint p < 0")
    case True
    then have "(of_int (sint p) :: rat) \<le> - 1" by linarith
    then have "?x * 10 ^ k < 0" using e by linarith
    then show ?thesis using True by (simp add: mult_less_0_iff)
  next
    case False
    then have "(0 :: rat) \<le> of_int (sint p)" by linarith
    then have "0 \<le> ?x" by (intro fl_nonneg divide_nonneg_nonneg) simp_all
    then show ?thesis using False by simp
  qed
  have "\<bar>\<bar>?x\<bar> * 10 ^ k - of_int \<bar>sint p\<bar>\<bar> < 1 / 2"
  proof -
    have "\<bar>?x\<bar> * 10 ^ k = \<bar>?x * 10 ^ k\<bar>" by (simp add: abs_mult)
    moreover have "\<bar>\<bar>y\<bar> - \<bar>z\<bar>\<bar> < 1 / 2" if "\<bar>y - z\<bar> < 1 / 4" for y z :: rat using that by linarith
    ultimately show ?thesis using e by (simp only: of_int_abs)
  qed
  then have n: "nat (round_even (\<bar>?x\<bar> * 10 ^ k)) = nat \<bar>sint p\<bar>" by (simp only: round_even_close)
  have m: "p \<noteq> MinInt64" using assms(1) by auto
  have "k \<le> 18" using assms(2) by simp
  then show ?thesis
    unfolding fmt_fixed_def Let_def i n sg formatFixedPoint_decimal [OF m assms(3) \<open>k \<le> 18\<close>] decimal_def by simp
qed

text \<open>C32. Up to \<open>2^50\<close> units (a thousand million currency units, ten million coins) the detour through
  \<open>float64\<close> is exact: the \<open>float64\<close> nearest to a price or quantity converts back to exactly that number,
  and \<open>String\<close> prints it to the last digit, as the printer for the exchange does without \<open>float64\<close>.\<close>

theorem float_boundary_exact:
  assumes "\<bar>sint p\<bar> \<le> 2 ^ 50"
  shows "ToPriceMicros outside (fl (of_int (sint p) / 1000000)) = p \<and>
    ToQtySats outside (fl (of_int (sint p) / 100000000)) = p \<and>
    PriceMicros_String p = formatFixedPoint p 6 \<and> QtySats_String p = formatFixedPoint p 8"
  using to_fixed_exact [OF assms, of 1000000 outside] to_fixed_exact [OF assms, of 100000000 outside]
    fixed_string_exact [OF assms, of 6] fixed_string_exact [OF assms, of 8]
  by (simp add: ToPriceMicros_def ToQtySats_def PriceMicros_String_def QtySats_String_def)

theorem float_boundary_exact_witness:
  "ToPriceMicros 0 (fl (of_int (sint (- 1234567 :: i64)) / 1000000)) = - 1234567 \<and>
   PriceMicros_String (- 1234567) = ''-1.234567''"
proof -
  have s: "sint (- 1234567 :: i64) = - 1234567" by simp
  have "formatFixedPoint (- 1234567) 6 = ''-1.234567''"
    using formatFixedPoint_decimal [of "- 1234567" 6] by (simp add: s decimal_def dec.simps digit_char_def char_of_def bit_0 MinInt64_def pad0_def)
  then show ?thesis using float_boundary_exact [of "- 1234567" 0] by (simp add: s)
qed

text \<open>Beyond \<open>2^53\<close> two different prices print alike.\<close>

lemma large_prices_print_alike: "PriceMicros_String 9007199254740993 = PriceMicros_String 9007199254740992"
proof -
  have "log2_floor 9007199254740993 = 53" "log2_floor 9007199254740992 = 53" by (rule log2_floor_eq; simp)+
  moreover have "\<lfloor>9007199254740993 / 2 :: rat\<rfloor> = 4503599627370496" by (rule floor_unique) simp_all
  ultimately have "fl 9007199254740993 = fl 9007199254740992"
    by (simp add: fl_def ulp_exp_def Let_def round_even_def)
  then show ?thesis by (simp add: PriceMicros_String_def)
qed

end
