(* ===== verification/Price_Test.thy ===== *)
theory Price_Test
  imports Quant_Float Feeds Http
begin

text \<open>
  The price test (\<open>cmd/pricetest/main.go\<close>): three requests for the price of one coin, decoded with the
  errors of the decoder thrown away, and the values shown for them. An answer is the first JSON value of its
  body (\<open>json.Decoder\<close> reads no further), \<open>None\<close> a request that failed. The texts around the values
  are left out.
\<close>

section \<open>Decoding without looking at the error\<close>

text \<open>A struct with one field: its key, exactly or up to case.\<close>

definition is_key :: "string \<Rightarrow> string \<Rightarrow> bool" where
  "is_key name key \<longleftrightarrow> key = name \<or> fold_name key = fold_name name"

text \<open>\<open>trade_price\<close> of an element. A value of another type is skipped; a string that is no number ends the
  decoding, which leaves what was decoded before.\<close>

fun trade_price :: "(string \<times> json) list \<Rightarrow> string \<Rightarrow> string" where
  "trade_price [] x = x"
| "trade_price ((key, v) # ms) x =
     (if \<not> is_key ''trade_price'' key then trade_price ms x
      else case v of
        JNum lit \<Rightarrow> trade_price ms lit
      | JStr s \<Rightarrow> if isValidNumber s then trade_price ms s else x
      | _ \<Rightarrow> trade_price ms x)"

text \<open>The first element of the decoded slice, if there is one.\<close>

definition decode_upbit :: "json \<Rightarrow> string option" where
  "decode_upbit v =
     (case v of
        JArr (e # _) \<Rightarrow> Some (case e of JObj ms \<Rightarrow> trade_price ms [] | _ \<Rightarrow> [])
      | _ \<Rightarrow> None)"

fun last_pr :: "(string \<times> json) list \<Rightarrow> string \<Rightarrow> string" where
  "last_pr [] x = x"
| "last_pr ((key, v) # ms) x =
     last_pr ms (if is_key ''lastPr'' key then case v of JStr s \<Rightarrow> s | _ \<Rightarrow> x else x)"

text \<open>A second member \<open>data\<close> is decoded over the first: an element keeps what the new one does not set.\<close>

fun first_data :: "(string \<times> json) list \<Rightarrow> string option \<Rightarrow> string option" where
  "first_data [] d = d"
| "first_data ((key, v) # ms) d =
     first_data ms
       (if \<not> is_key ''data'' key then d
        else case v of
          JNull \<Rightarrow> None
        | JArr [] \<Rightarrow> None
        | JArr (e # _) \<Rightarrow>
            let old = case_option [] id d in Some (case e of JObj es \<Rightarrow> last_pr es old | _ \<Rightarrow> old)
        | _ \<Rightarrow> d)"

definition decode_bitget :: "json \<Rightarrow> string option" where
  "decode_bitget v = (case v of JObj ms \<Rightarrow> first_data ms None | _ \<Rightarrow> None)"

section \<open>The requests\<close>

record price_result =
  pr_Raw :: string
  pr_Micros :: i64

definition TrimRight :: "string \<Rightarrow> char \<Rightarrow> string" where
  "TrimRight s c = rev (dropWhile (\<lambda>d. d = c) (rev s))"

text \<open>\<open>decoded\<close> gives the first price of a body.\<close>

definition from_body :: "(json \<Rightarrow> string option) \<Rightarrow> (string \<Rightarrow> string) \<Rightarrow> http_body option \<Rightarrow> price_result" where
  "from_body decoded display answer =
     (case answer of
        None \<Rightarrow> \<lparr>pr_Raw = ''ERROR'', pr_Micros = 0\<rparr>
      | Some body \<Rightarrow>
          (case (case body of BodyJson v \<Rightarrow> decoded v | _ \<Rightarrow> None) of
             None \<Rightarrow> \<lparr>pr_Raw = ''NO_DATA'', pr_Micros = 0\<rparr>
           | Some raw \<Rightarrow> \<lparr>pr_Raw = display raw, pr_Micros = ToPriceMicrosStr raw\<rparr>))"

definition fetchUpbitPrice :: "(string \<Rightarrow> http_body option) \<Rightarrow> price_result" where
  "fetchUpbitPrice get =
     from_body decode_upbit (\<lambda>raw. TrimRight (TrimRight raw CHR ''0'') CHR ''.'')
       (get ''https://api.upbit.com/v1/ticker?markets=KRW-BTC'')"

definition fetchBitgetSpotPrice :: "(string \<Rightarrow> http_body option) \<Rightarrow> price_result" where
  "fetchBitgetSpotPrice get =
     from_body decode_bitget id (get ''https://api.bitget.com/api/v2/spot/market/tickers?symbol=BTCUSDT'')"

definition fetchBitgetFuturesPrice :: "(string \<Rightarrow> http_body option) \<Rightarrow> price_result" where
  "fetchBitgetFuturesPrice get =
     from_body decode_bitget id
       (get ''https://api.bitget.com/api/v2/mix/market/ticker?symbol=BTCUSDT&productType=USDT-FUTURES'')"

text \<open>The values \<open>main\<close> prints: for each venue the result and its price, then the difference.\<close>

record price_report =
  rp_upbit :: "price_result \<times> string"
  rp_spot :: "price_result \<times> string"
  rp_futures :: "price_result \<times> string"
  rp_diff :: "i64 \<times> string"

definition pricetest_main :: "(string \<Rightarrow> http_body option) \<Rightarrow> price_report" where
  "pricetest_main get =
     (let upbitPrice = fetchUpbitPrice get; spotPrice = fetchBitgetSpotPrice get;
          futuresPrice = fetchBitgetFuturesPrice get;
          diff = pr_Micros spotPrice - pr_Micros futuresPrice
      in \<lparr>rp_upbit = (upbitPrice, formatKRW (pr_Micros upbitPrice)),
          rp_spot = (spotPrice, formatUSD (pr_Micros spotPrice)),
          rp_futures = (futuresPrice, formatUSD (pr_Micros futuresPrice)),
          rp_diff = (diff, formatUSD diff)\<rparr>)"

section \<open>What is shown\<close>

text \<open>The decoder of a message of the spot worker and the lenient one agree on a well-formed answer.\<close>

lemma decode_bitget_answer:
  "decode_bitget (JObj [(''code'', c), (''data'', JArr (JObj [(''symbol'', s), (''lastPr'', JStr lit)] # es))]) = Some lit"
  by (simp add: decode_bitget_def is_key_def fold_byte_def byte_in_def)

text \<open>The prices shown are the exact ones: an answer whose first entry has the price as text gives that
  text and its exact value in millionths.\<close>

lemma bitget_price_reported:
  assumes "get ''https://api.bitget.com/api/v2/spot/market/tickers?symbol=BTCUSDT'' =
    Some (BodyJson (JObj [(''code'', c), (''data'', JArr (JObj [(''symbol'', s), (''lastPr'', JStr lit)] # es))]))"
  shows "fetchBitgetSpotPrice get = \<lparr>pr_Raw = lit, pr_Micros = ToPriceMicrosStr lit\<rparr>"
  by (simp add: fetchBitgetSpotPrice_def from_body_def assms decode_bitget_answer)

text \<open>The zeros removed for display are not only those after the point: a whole price loses its own.\<close>

lemma whole_price_shown_short:
  "fetchUpbitPrice (\<lambda>_. Some (BodyJson (JArr [JObj [(''trade_price'', JNum ''95000000'')]]))) =
    \<lparr>pr_Raw = ''95'', pr_Micros = 95000000000000\<rparr>"
  by (simp add: fetchUpbitPrice_def from_body_def decode_upbit_def is_key_def TrimRight_def ToPriceMicrosStr_def
      quant_parseFixedPoint_def Let_def SplitN2_def ParseInt_def ParseUint_def digit_val_def MaxUint64_def times10_eq)

end
