(* ===== verification/Rate_Limiter.thy ===== *)
theory Rate_Limiter
  imports Float64
begin

text \<open>
  The token bucket of \<open>internal/infra/rate_limiter.go\<close> on binary64 numbers. Times are nanoseconds of
  Go's monotonic clock. The Go compiler may fuse the multiplication and addition of \<open>refill\<close>
  into one rounding (it does on arm64, not on amd64): \<open>fused\<close> says whether it did. \<open>Wait\<close> gives
  up the mutex while it sleeps; what other callers do to the limiter meanwhile is an argument.
  The requests per second are not 0; the program passes 10 and 20.
\<close>

section \<open>The limiter\<close>

record rate_limiter =
  rl_tokens :: rat
  rl_maxTokens :: rat
  rl_refillRate :: rat
  rl_lastRefill :: int
  rl_minInterval :: int
  rl_lastRequest :: int

text \<open>The conversion of a \<open>float64\<close> in range to an integer, \<open>Time.Sub\<close>, which saturates, and
  \<open>Duration.Seconds\<close>.\<close>

definition float_to_int :: "rat \<Rightarrow> int" where
  "float_to_int x = (if 0 \<le> x then \<lfloor>x\<rfloor> else \<lceil>x\<rceil>)"

definition time_sub :: "int \<Rightarrow> int \<Rightarrow> int" where
  "time_sub t u = max (- 9223372036854775808) (min 9223372036854775807 (t - u))"

definition Seconds :: "int \<Rightarrow> rat" where
  "Seconds d = fl (fl (of_int (d sdiv 1000000000)) + fl (fl (of_int (d smod 1000000000)) / 1000000000))"

definition NewRateLimiter :: "int \<Rightarrow> int \<Rightarrow> rat \<Rightarrow> rate_limiter" where
  "NewRateLimiter now maxRequests perSecond =
     \<lparr>rl_tokens = fl (of_int maxRequests), rl_maxTokens = fl (of_int maxRequests), rl_refillRate = perSecond,
      rl_lastRefill = now, rl_minInterval = float_to_int (fl (1000000000 / perSecond)),
      rl_lastRequest = now - 3600000000000\<rparr>"

definition refill :: "bool \<Rightarrow> int \<Rightarrow> rate_limiter \<Rightarrow> rate_limiter" where
  "refill fused now r =
     (let elapsed = Seconds (time_sub now (rl_lastRefill r));
          tokens = (if fused then fl (rl_tokens r + elapsed * rl_refillRate r)
                    else fl (rl_tokens r + fl (elapsed * rl_refillRate r)))
      in r\<lparr>rl_tokens := (if rl_maxTokens r < tokens then rl_maxTokens r else tokens), rl_lastRefill := now\<rparr>)"

definition TryAcquire :: "bool \<Rightarrow> int \<Rightarrow> rate_limiter \<Rightarrow> bool \<times> rate_limiter" where
  "TryAcquire fused now r =
     (let r = refill fused now r
      in if 1 \<le> rl_tokens r then (True, r\<lparr>rl_tokens := fl (rl_tokens r - 1), rl_lastRequest := now\<rparr>)
         else (False, r))"

definition wait_time :: "rate_limiter \<Rightarrow> int" where
  "wait_time r = float_to_int (fl (1000000000 / rl_refillRate r))"

text \<open>The loop of \<open>Wait\<close>: for each sleep, what others do meanwhile and the time after it. It has not
  returned when the list ends and there is still no token.\<close>

fun wait_loop ::
  "bool \<Rightarrow> ((rate_limiter \<Rightarrow> rate_limiter) \<times> int) list \<Rightarrow> int \<Rightarrow> rate_limiter \<Rightarrow> rate_limiter option" where
  "wait_loop fused [] now r =
     (if rl_tokens r < 1 then None else Some (r\<lparr>rl_tokens := fl (rl_tokens r - 1), rl_lastRequest := now\<rparr>))"
| "wait_loop fused ((others, wake) # sleeps) now r =
     (if rl_tokens r < 1 then wait_loop fused sleeps wake (refill fused wake (others r))
      else Some (r\<lparr>rl_tokens := fl (rl_tokens r - 1), rl_lastRequest := now\<rparr>))"

definition Wait ::
  "bool \<Rightarrow> ((rate_limiter \<Rightarrow> rate_limiter) \<times> int) list \<Rightarrow> int \<Rightarrow> rate_limiter \<Rightarrow> rate_limiter option" where
  "Wait fused sleeps now r = wait_loop fused sleeps now (refill fused now r)"

text \<open>The limiters of the Bitget client, made at time \<open>now\<close>: orders, account, market data.\<close>

definition initBitgetLimiters :: "int \<Rightarrow> rate_limiter \<times> rate_limiter \<times> rate_limiter" where
  "initBitgetLimiters now = (NewRateLimiter now 5 10, NewRateLimiter now 5 10, NewRateLimiter now 10 20)"

text \<open>\<open>rateLimiterOnce\<close>: the first of the getters makes all three.\<close>

type_synonym bitget_limiters = "(rate_limiter \<times> rate_limiter \<times> rate_limiter) option"

definition once_limiters :: "int \<Rightarrow> bitget_limiters \<Rightarrow> rate_limiter \<times> rate_limiter \<times> rate_limiter" where
  "once_limiters now g = (case g of None \<Rightarrow> initBitgetLimiters now | Some ls \<Rightarrow> ls)"

definition GetBitgetOrderLimiter :: "int \<Rightarrow> bitget_limiters \<Rightarrow> rate_limiter \<times> bitget_limiters" where
  "GetBitgetOrderLimiter now g = (fst (once_limiters now g), Some (once_limiters now g))"

definition GetBitgetAccountLimiter :: "int \<Rightarrow> bitget_limiters \<Rightarrow> rate_limiter \<times> bitget_limiters" where
  "GetBitgetAccountLimiter now g = (fst (snd (once_limiters now g)), Some (once_limiters now g))"

definition GetBitgetMarketLimiter :: "int \<Rightarrow> bitget_limiters \<Rightarrow> rate_limiter \<times> bitget_limiters" where
  "GetBitgetMarketLimiter now g = (snd (snd (once_limiters now g)), Some (once_limiters now g))"

section \<open>Seconds\<close>

lemma Seconds_nonneg:
  assumes "0 \<le> d"
  shows "Seconds d = fl (fl (of_int (d div 1000000000)) + fl (fl (of_int (d mod 1000000000)) / 1000000000))" "0 \<le> Seconds d"
proof -
  show e: "Seconds d = fl (fl (of_int (d div 1000000000)) + fl (fl (of_int (d mod 1000000000)) / 1000000000))"
    using assms by (simp add: Seconds_def signed_divide_int_def signed_modulo_int_def minus_div_mult_eq_mod sgn_if)
  show "0 \<le> Seconds d" unfolding e by (intro fl_nonneg add_nonneg_nonneg divide_nonneg_nonneg) (use assms in simp_all)
qed

lemma Seconds_split:
  assumes "0 \<le> d" "d < 9223372036854775808"
  shows "Seconds d = fl (of_int (d div 1000000000) + fl (of_int (d mod 1000000000) / 1000000000))"
proof -
  have "d div 1000000000 \<le> 9223372036854775808 div 1000000000" using assms by (intro zdiv_mono1) simp_all
  then have "\<bar>d div 1000000000\<bar> < 2 ^ 53" using assms by (simp add: pos_imp_zdiv_nonneg_iff)
  moreover have "\<bar>d mod 1000000000\<bar> < 2 ^ 53"
    using pos_mod_bound [of 1000000000 d] by (simp add: order_less_trans)
  ultimately show ?thesis unfolding Seconds_nonneg(1) [OF assms(1)] by (simp only: fl_of_int)
qed

section \<open>The bucket stays within its bounds\<close>

definition limiter_ok :: "rate_limiter \<Rightarrow> bool" where
  "limiter_ok r \<longleftrightarrow>
     0 \<le> rl_tokens r \<and> rl_tokens r \<le> rl_maxTokens r \<and> 1 \<le> rl_maxTokens r \<and>
     fl (rl_maxTokens r) = rl_maxTokens r \<and> 1 \<le> rl_refillRate r \<and> rl_refillRate r \<le> 2 ^ 60"

lemma refill_fields [simp]:
  "rl_maxTokens (refill fused now r) = rl_maxTokens r" "rl_refillRate (refill fused now r) = rl_refillRate r"
  "rl_lastRefill (refill fused now r) = now"
  by (simp_all add: refill_def Let_def)

lemma time_sub_nonneg: "u \<le> t \<Longrightarrow> 0 \<le> time_sub t u"
  by (simp add: time_sub_def)

lemma refill_ok:
  assumes "limiter_ok r" "rl_lastRefill r \<le> now"
  shows "limiter_ok (refill fused now r)"
proof -
  have "0 \<le> Seconds (time_sub now (rl_lastRefill r))" using Seconds_nonneg(2) time_sub_nonneg [OF assms(2)] by blast
  then have e: "0 \<le> Seconds (time_sub now (rl_lastRefill r)) * rl_refillRate r"
    using assms(1) by (intro mult_nonneg_nonneg) (simp_all add: limiter_ok_def)
  then have "0 \<le> fl (rl_tokens r + fl (Seconds (time_sub now (rl_lastRefill r)) * rl_refillRate r))"
    "0 \<le> fl (rl_tokens r + Seconds (time_sub now (rl_lastRefill r)) * rl_refillRate r)"
    using assms(1) by (auto intro!: fl_nonneg add_nonneg_nonneg simp: limiter_ok_def)
  then show ?thesis using assms(1) by (auto simp: limiter_ok_def refill_def Let_def)
qed

lemma take_ok:
  assumes "limiter_ok r" "1 \<le> rl_tokens r"
  shows "limiter_ok (r\<lparr>rl_tokens := fl (rl_tokens r - 1), rl_lastRequest := t\<rparr>)"
proof -
  have "rl_tokens r - 1 \<le> rl_maxTokens r" using assms(1) by (simp add: limiter_ok_def)
  from fl_mono [OF this] have "fl (rl_tokens r - 1) \<le> rl_maxTokens r" using assms(1) by (simp add: limiter_ok_def)
  then show ?thesis using assms fl_nonneg [of "rl_tokens r - 1"] by (simp add: limiter_ok_def)
qed

lemma TryAcquire_ok:
  "limiter_ok r \<Longrightarrow> rl_lastRefill r \<le> now \<Longrightarrow> limiter_ok (snd (TryAcquire fused now r))"
  using refill_ok [of r now fused] take_ok [of "refill fused now r" now] by (simp add: TryAcquire_def Let_def)

lemma new_limiter_ok:
  assumes "1 \<le> n" "n < 2 ^ 53" "1 \<le> rate" "rate \<le> 2 ^ 60"
  shows "limiter_ok (NewRateLimiter now n rate)"
proof -
  have "fl (of_int n) = of_int n" using assms by (intro fl_of_int) simp
  then show ?thesis using assms by (simp add: limiter_ok_def NewRateLimiter_def)
qed

section \<open>How much a call adds\<close>

lemma fl_upper:
  assumes "0 \<le> x"
  shows "fl x \<le> x * (1 + 1 / 2 ^ 53) + 1 / 2 ^ 200"
  using fl_error_small [of x] assms by (simp add: distrib_left)

text \<open>Two roundings of a chain: the errors add up.\<close>

lemma fl_upper_le:
  assumes "0 \<le> x" "x \<le> y"
  shows "fl x \<le> y * (1 + 1 / 2 ^ 53) + 1 / 2 ^ 200"
  using fl_mono [OF assms(2)] fl_upper [of y] assms by linarith

lemma Seconds_upper:
  assumes "0 \<le> d" "d < 9223372036854775808"
  shows "Seconds d \<le> of_int d / 1000000000 * (1 + 3 / 2 ^ 53) + 3 / 2 ^ 200"
proof -
  let ?q = "of_int (d div 1000000000) :: rat" and ?m = "of_int (d mod 1000000000) :: rat"
  have d: "(of_int d :: rat) = ?q * 1000000000 + ?m"
    by (metis div_mult_mod_eq of_int_add of_int_mult of_int_numeral)
  have nn: "0 \<le> ?q" "0 \<le> ?m" using assms(1) by (simp_all add: pos_imp_zdiv_nonneg_iff)
  define s where "s = (of_int d :: rat) / 1000000000"
  have s: "s = ?q + ?m / 1000000000" unfolding s_def d by (simp add: add_divide_distrib)
  have "fl (?m / 1000000000) \<le> ?m / 1000000000 * (1 + 1 / 2 ^ 53) + 1 / 2 ^ 200"
    by (rule fl_upper) (use nn in simp)
  moreover have "?q \<le> ?q * (1 + 1 / 2 ^ 53)" using nn by (simp add: field_simps)
  ultimately have le: "?q + fl (?m / 1000000000) \<le> s * (1 + 1 / 2 ^ 53) + 1 / 2 ^ 200"
    unfolding s distrib_right [of ?q] by linarith
  have pos: "0 \<le> ?q + fl (?m / 1000000000)" by (intro add_nonneg_nonneg fl_nonneg) (use nn in simp_all)
  have "Seconds d \<le> (s * (1 + 1 / 2 ^ 53) + 1 / 2 ^ 200) * (1 + 1 / 2 ^ 53) + 1 / 2 ^ 200"
    unfolding Seconds_split [OF assms] by (rule fl_upper_le [OF pos le])
  also have "\<dots> \<le> s * (1 + 3 / 2 ^ 53) + 3 / 2 ^ 200"
  proof -
    have "0 \<le> s" unfolding s using nn by simp
    then show ?thesis by (simp add: field_simps)
  qed
  finally show ?thesis by (simp only: s_def)
qed

lemma refill_gain:
  assumes "limiter_ok r" "rl_lastRefill r \<le> now" "now - rl_lastRefill r < 9223372036854775808"
  shows "rl_tokens (refill fused now r) \<le>
    rl_tokens r + rl_refillRate r * (of_int (now - rl_lastRefill r) / 1000000000) * (1 + 1 / 2 ^ 50) + rl_maxTokens r / 2 ^ 52"
proof -
  define d where "d = now - rl_lastRefill r"
  define s where "s = (of_int d :: rat) / 1000000000"
  define T where "T = rl_tokens r"
  define B where "B = rl_maxTokens r"
  define k where "k = rl_refillRate r"
  have ok: "0 \<le> T" "T \<le> B" "1 \<le> B" "1 \<le> k" "k \<le> 2 ^ 60"
    using assms(1) by (simp_all add: limiter_ok_def T_def B_def k_def)
  have d: "0 \<le> d" "d < 9223372036854775808" "time_sub now (rl_lastRefill r) = d"
    using assms(2,3) by (simp_all add: d_def time_sub_def)
  have s: "0 \<le> s" using d(1) by (simp add: s_def)
  define a where "a = k * s"
  have a: "0 \<le> a" using ok s by (simp add: a_def)
  define e where "e = Seconds d * k"
  have e0: "0 \<le> e" using Seconds_nonneg(2) [OF d(1)] ok by (simp add: e_def)
  have "e \<le> (s * (1 + 3 / 2 ^ 53) + 3 / 2 ^ 200) * k"
    unfolding e_def s_def by (rule mult_right_mono [OF Seconds_upper [OF d(1,2)]]) (use ok in simp)
  also have "\<dots> = a * (1 + 3 / 2 ^ 53) + k * (3 / 2 ^ 200)" by (simp add: a_def field_simps)
  also have "\<dots> \<le> a * (1 + 3 / 2 ^ 53) + 2 ^ 60 * (3 / 2 ^ 200)" by (intro add_left_mono mult_right_mono ok) simp
  also have "\<dots> \<le> a * (1 + 3 / 2 ^ 53) + 1 / 2 ^ 130" by simp
  finally have e1: "e \<le> a * (1 + 3 / 2 ^ 53) + 1 / 2 ^ 130" .
  have "fl e \<le> (a * (1 + 3 / 2 ^ 53) + 1 / 2 ^ 130) * (1 + 1 / 2 ^ 53) + 1 / 2 ^ 200" by (rule fl_upper_le [OF e0 e1])
  also have "\<dots> \<le> a * (1 + 5 / 2 ^ 53) + 1 / 2 ^ 120" using a by (simp add: field_simps)
  finally have e2: "fl e \<le> a * (1 + 5 / 2 ^ 53) + 1 / 2 ^ 120" .
  have "a * (1 + 3 / 2 ^ 53) + 1 / 2 ^ 130 \<le> a * (1 + 5 / 2 ^ 53) + 1 / 2 ^ 120" using a by (simp add: field_simps)
  then have sums: "T + e \<le> T + (a * (1 + 5 / 2 ^ 53) + 1 / 2 ^ 120)" "T + fl e \<le> T + (a * (1 + 5 / 2 ^ 53) + 1 / 2 ^ 120)"
    using e1 e2 by linarith+
  have fin: "(T + (a * (1 + 5 / 2 ^ 53) + 1 / 2 ^ 120)) * (1 + 1 / 2 ^ 53) + 1 / 2 ^ 200 \<le> T + a * (1 + 1 / 2 ^ 50) + B / 2 ^ 52"
    using a ok by (simp add: field_simps)
  have "fl (T + e) \<le> T + a * (1 + 1 / 2 ^ 50) + B / 2 ^ 52"
    using fl_upper_le [OF _ sums(1)] fin ok(1) e0 by linarith
  moreover have "fl (T + fl e) \<le> T + a * (1 + 1 / 2 ^ 50) + B / 2 ^ 52"
    using fl_upper_le [OF _ sums(2)] fin ok(1) fl_nonneg [OF e0] by linarith
  ultimately have "rl_tokens (refill fused now r) \<le> T + a * (1 + 1 / 2 ^ 50) + B / 2 ^ 52"
    by (auto simp: refill_def Let_def d(3) T_def B_def k_def e_def)
  then show ?thesis by (simp only: a_def s_def d_def T_def B_def k_def)
qed

section \<open>Throughput\<close>

text \<open>Calls at the given times, and which of them got a token.\<close>

fun calls :: "bool \<Rightarrow> int list \<Rightarrow> rate_limiter \<Rightarrow> bool list \<times> rate_limiter" where
  "calls fused [] r = ([], r)"
| "calls fused (t # ts) r =
     (case TryAcquire fused t r of (ok, r) \<Rightarrow> case calls fused ts r of (oks, r) \<Rightarrow> (ok # oks, r))"

definition granted :: "bool list \<Rightarrow> nat" where
  "granted oks = length (filter id oks)"

lemma TryAcquire_fields [simp]:
  "rl_maxTokens (snd (TryAcquire fused now r)) = rl_maxTokens r" "rl_refillRate (snd (TryAcquire fused now r)) = rl_refillRate r"
  "rl_lastRefill (snd (TryAcquire fused now r)) = now"
  by (simp_all add: TryAcquire_def Let_def)

lemma TryAcquire_gain:
  assumes "limiter_ok r" "rl_lastRefill r \<le> now" "now - rl_lastRefill r < 9223372036854775808"
  shows "rl_tokens (snd (TryAcquire fused now r)) + (if fst (TryAcquire fused now r) then 1 else 0) \<le>
    rl_tokens r + rl_refillRate r * (of_int (now - rl_lastRefill r) / 1000000000) * (1 + 1 / 2 ^ 50) + rl_maxTokens r / 2 ^ 51"
proof -
  let ?r = "refill fused now r"
  have ok: "limiter_ok ?r" by (rule refill_ok [OF assms(1,2)])
  have B: "1 \<le> rl_maxTokens r" using assms(1) by (simp add: limiter_ok_def)
  have "rl_tokens (snd (TryAcquire fused now r)) + (if fst (TryAcquire fused now r) then 1 else 0) \<le>
      rl_tokens ?r + rl_maxTokens r / 2 ^ 52"
  proof (cases "1 \<le> rl_tokens ?r")
    case True
    have "fl (rl_tokens ?r - 1) \<le> (rl_tokens ?r - 1) * (1 + 1 / 2 ^ 53) + 1 / 2 ^ 200" by (rule fl_upper) (use True in simp)
    moreover have "rl_tokens ?r \<le> rl_maxTokens r" using ok by (simp add: limiter_ok_def)
    ultimately show ?thesis using True B by (simp add: TryAcquire_def Let_def field_simps)
  next
    case False
    then show ?thesis using B by (simp add: TryAcquire_def Let_def)
  qed
  moreover have "rl_maxTokens r / 2 ^ 52 + rl_maxTokens r / 2 ^ 52 = rl_maxTokens r / 2 ^ 51" by simp
  ultimately show ?thesis using refill_gain [OF assms, of fused] by linarith
qed

lemma calls_maxTokens: "rl_maxTokens (snd (calls fused ts r)) = rl_maxTokens r"
proof (induction ts arbitrary: r)
  case (Cons t ts)
  obtain ok s where s: "TryAcquire fused t r = (ok, s)" by (cases "TryAcquire fused t r")
  obtain oks s' where c: "calls fused ts s = (oks, s')" by (cases "calls fused ts s")
  show ?case using Cons [of s] TryAcquire_fields(1) [of fused t r] by (simp add: s c)
qed simp

lemma calls_bound:
  assumes "limiter_ok r" "sorted (rl_lastRefill r # ts)" "last (rl_lastRefill r # ts) - rl_lastRefill r < 9223372036854775808"
    and "calls fused ts r = (oks, r')"
  shows "limiter_ok r' \<and> of_nat (granted oks) + rl_tokens r' \<le>
    rl_tokens r + rl_refillRate r * (of_int (last (rl_lastRefill r # ts) - rl_lastRefill r) / 1000000000) * (1 + 1 / 2 ^ 50)
      + of_nat (length ts) * rl_maxTokens r / 2 ^ 51"
  using assms
proof (induction ts arbitrary: r oks)
  case Nil
  then show ?case by (simp add: granted_def)
next
  case (Cons t ts)
  obtain ok r1 where r1: "TryAcquire fused t r = (ok, r1)" by (cases "TryAcquire fused t r")
  with Cons.prems(4) obtain oks1 where c: "calls fused ts r1 = (oks1, r')" "oks = ok # oks1" by (auto split: prod.splits)
  have f: "rl_maxTokens r1 = rl_maxTokens r" "rl_refillRate r1 = rl_refillRate r" "rl_lastRefill r1 = t"
    using TryAcquire_fields [of fused t r] r1 by simp_all
  have le: "rl_lastRefill r \<le> t" "t \<le> last (t # ts)" using Cons.prems(2) by (auto simp: last_in_set)
  have lst: "last (rl_lastRefill r # t # ts) = last (t # ts)" by simp
  have ok1: "limiter_ok r1" using TryAcquire_ok [OF Cons.prems(1) le(1), of fused] r1 by simp
  define a where "a = rl_refillRate r / 1000000000 * (1 + 1 / 2 ^ 50)"
  have mul: "rl_refillRate r * (x / 1000000000) * (1 + 1 / 2 ^ 50) = a * x" for x by (simp add: a_def)
  have ih: "limiter_ok r' \<and> of_nat (granted oks1) + rl_tokens r' \<le>
      rl_tokens r1 + a * of_int (last (t # ts) - t) + of_nat (length ts) * rl_maxTokens r / 2 ^ 51"
    using Cons.IH [OF ok1 _ _ c(1)] Cons.prems(2,3) le f lst unfolding mul [symmetric] by auto
  have step: "rl_tokens r1 + (if ok then 1 else 0) \<le>
      rl_tokens r + a * of_int (t - rl_lastRefill r) + rl_maxTokens r / 2 ^ 51"
    using TryAcquire_gain [OF Cons.prems(1) le(1), of fused] Cons.prems(3) le r1 unfolding lst mul by simp
  have "a * of_int (last (t # ts) - t) + a * of_int (t - rl_lastRefill r) = a * of_int (last (t # ts) - rl_lastRefill r)"
    by (simp add: algebra_simps)
  moreover have "of_nat (granted oks) = (if ok then 1 else 0) + (of_nat (granted oks1) :: rat)"
    by (simp add: c(2) granted_def)
  moreover have "of_nat (length (t # ts)) * rl_maxTokens r / 2 ^ 51 =
      of_nat (length ts) * rl_maxTokens r / 2 ^ 51 + rl_maxTokens r / 2 ^ 51" by (simp add: field_simps)
  ultimately show ?case using ih step unfolding lst mul by linarith
qed

text \<open>The limiter limits: of any calls at non-decreasing times from its creation on, it lets through
  at most the burst plus the rate times the time passed, up to rounding (a relative error of
  \<open>2^-50\<close> in the time and of \<open>2^-51\<close> of a burst for each call); and the bucket never holds a
  negative number of tokens nor more than the burst. This holds with and without fused
  arithmetic.\<close>

lemma limiter_throughput:
  assumes "1 \<le> n" "n < 2 ^ 53" "1 \<le> rate" "rate \<le> 2 ^ 60"
    and "sorted (t0 # ts)" "last (t0 # ts) - t0 < 9223372036854775808"
    and "calls fused ts (NewRateLimiter t0 n rate) = (oks, r)"
  shows "of_nat (granted oks) \<le>
      of_int n + rate * (of_int (last (t0 # ts) - t0) / 1000000000) * (1 + 1 / 2 ^ 50) + of_nat (length ts) * of_int n / 2 ^ 51 \<and>
    0 \<le> rl_tokens r \<and> rl_tokens r \<le> of_int n"
proof -
  let ?r = "NewRateLimiter t0 n rate"
  have ok: "limiter_ok ?r" by (rule new_limiter_ok [OF assms(1-4)])
  have n: "fl (of_int n) = of_int n" using assms(1,2) by (intro fl_of_int) simp
  have f: "rl_lastRefill ?r = t0" "rl_tokens ?r = of_int n" "rl_maxTokens ?r = of_int n" "rl_refillRate ?r = rate"
    by (simp_all add: NewRateLimiter_def n)
  have m: "rl_maxTokens r = of_int n" using calls_maxTokens [of fused ts ?r] assms(7) f(3) by simp
  have "limiter_ok r" "of_nat (granted oks) + rl_tokens r \<le>
      of_int n + rate * (of_int (last (t0 # ts) - t0) / 1000000000) * (1 + 1 / 2 ^ 50) + of_nat (length ts) * of_int n / 2 ^ 51"
    using calls_bound [OF ok _ _ assms(7)] assms(5,6) unfolding f by simp_all
  then show ?thesis using m by (simp add: limiter_ok_def)
qed

lemma limiter_throughput_witness:
  "granted (fst (calls False (replicate 20 500000000) (NewRateLimiter 0 5 10))) \<le> 10"
proof -
  define ts where "ts = replicate 20 (500000000 :: int)"
  have ts: "sorted (0 # ts)" "last (0 # ts) = 500000000" "length ts = 20" by (simp_all add: ts_def)
  obtain oks r where c: "calls False ts (NewRateLimiter 0 5 10) = (oks, r)"
    by (cases "calls False ts (NewRateLimiter 0 5 10)")
  have "of_nat (granted oks) \<le> (of_int 5 :: rat) + 10 * (of_int 500000000 / 1000000000) * (1 + 1 / 2 ^ 50) + 20 * of_int 5 / 2 ^ 51"
    using limiter_throughput [OF _ _ _ _ ts(1) _ c] ts(2,3) by simp
  also have "\<dots> < of_nat 11" by simp
  finally have "granted oks < 11" by (simp only: of_nat_less_iff)
  then show ?thesis using c unfolding ts_def by simp
qed

section \<open>Waiting\<close>

text \<open>A round of \<open>Wait\<close> is a \<open>TryAcquire\<close>, so the bound covers both.\<close>

lemma Wait_is_TryAcquire:
  "Wait fused [] now r = (case TryAcquire fused now r of (ok, s) \<Rightarrow> if ok then Some s else None)"
  "Wait fused ((others, wake) # sleeps) now r =
     (case TryAcquire fused now r of (ok, s) \<Rightarrow> if ok then Some s else Wait fused sleeps wake (others s))"
  by (simp_all add: Wait_def TryAcquire_def Let_def not_less)

lemma fl_tenth: "1 / 10 \<le> fl (1 / 10)" "1 / 20 \<le> fl (1 / 20)"
proof -
  have "log2_floor (1 / 10) = - 4" "log2_floor (1 / 20) = - 5"
    by (rule log2_floor_eq; simp add: power_int_minus)+
  moreover have "\<lfloor>36028797018963968 / 5 :: rat\<rfloor> = 7205759403792793" by (rule floor_unique) simp_all
  ultimately show "1 / 10 \<le> fl (1 / 10)" "1 / 20 \<le> fl (1 / 20)"
    by (simp_all add: fl_def ulp_exp_def power_int_minus round_even_def Let_def)
qed

lemma Seconds_lower:
  assumes "c \<le> d" "0 \<le> c" "c < 1000000000" "d < 9223372036854775808" "x \<le> of_int c / 1000000000" "x \<le> 1" "x \<le> fl x"
  shows "x \<le> Seconds d"
proof (cases "d < 1000000000")
  case True
  then have s: "Seconds d = fl (fl (of_int d / 1000000000))" using assms Seconds_split [of d] by simp
  have "(of_int c :: rat) / 1000000000 \<le> of_int d / 1000000000" using assms(1) by (simp add: divide_right_mono)
  then have "x \<le> of_int d / 1000000000" using assms(5) by linarith
  then have "x \<le> fl (of_int d / 1000000000)" using fl_mono assms(7) order_trans by blast
  then show ?thesis unfolding s using fl_mono assms(7) order_trans by blast
next
  case False
  then have "1 \<le> d div 1000000000" using zdiv_mono1 [of 1000000000 d 1000000000] by simp
  then have "(1 :: rat) \<le> of_int (d div 1000000000)" by linarith
  moreover have "0 \<le> fl (of_int (d mod 1000000000) / 1000000000)" by (rule fl_nonneg) simp
  ultimately have "1 \<le> of_int (d div 1000000000) + fl (of_int (d mod 1000000000) / 1000000000)" by linarith
  from fl_mono [OF this] have "fl 1 \<le> Seconds d" using Seconds_split [of d] assms(4) False by simp
  then show ?thesis using fl_of_int [of 1] assms(6) by simp
qed

lemma refill_fills:
  assumes "limiter_ok r" "1 \<le> Seconds (time_sub now (rl_lastRefill r)) * rl_refillRate r"
  shows "1 \<le> rl_tokens (refill fused now r)"
proof -
  let ?e = "Seconds (time_sub now (rl_lastRefill r)) * rl_refillRate r"
  have one: "1 \<le> fl y" if "1 \<le> y" for y using fl_mono [OF that] fl_of_int [of 1] by simp
  have T: "0 \<le> rl_tokens r" "1 \<le> rl_maxTokens r" using assms(1) by (simp_all add: limiter_ok_def)
  have "1 \<le> fl (rl_tokens r + ?e)" by (rule one) (use assms(2) T in linarith)
  moreover have "1 \<le> fl (rl_tokens r + fl ?e)" by (rule one) (use one [OF assms(2)] T in linarith)
  ultimately show ?thesis using T by (simp add: refill_def Let_def)
qed

lemma refill_after_wait:
  assumes "limiter_ok r" "rl_refillRate r = 10 \<or> rl_refillRate r = 20"
    and "rl_lastRefill r + wait_time r \<le> wake" "wake - rl_lastRefill r < 9223372036854775808"
  shows "1 \<le> rl_tokens (refill fused wake r)"
proof -
  let ?d = "wake - rl_lastRefill r"
  have "fl 100000000 = 100000000" "fl 50000000 = 50000000"
    using fl_of_int [of 100000000] fl_of_int [of 50000000] by simp_all
  then have w: "wait_time r = (if rl_refillRate r = 10 then 100000000 else 50000000)"
    using assms(2) by (auto simp: wait_time_def float_to_int_def)
  then have t: "time_sub wake (rl_lastRefill r) = ?d" using assms(3,4) by (simp add: time_sub_def split: if_splits)
  have "1 / rl_refillRate r \<le> Seconds ?d"
    using assms(2)
  proof
    assume k: "rl_refillRate r = 10"
    then have "1 / 10 \<le> Seconds ?d" using assms(3,4) w fl_tenth by (intro Seconds_lower [of 100000000]) simp_all
    with k show ?thesis by simp
  next
    assume k: "rl_refillRate r = 20"
    then have "1 / 20 \<le> Seconds ?d" using assms(3,4) w fl_tenth by (intro Seconds_lower [of 50000000]) simp_all
    with k show ?thesis by simp
  qed
  then have "1 \<le> Seconds ?d * rl_refillRate r" using assms(2) by auto
  then show ?thesis by (intro refill_fills [OF assms(1)]) (simp add: t)
qed

lemma calls_fields:
  "calls fused ts r = (oks, r') \<Longrightarrow> rl_refillRate r' = rl_refillRate r \<and> rl_lastRefill r' = last (rl_lastRefill r # ts)"
proof (induction ts arbitrary: r oks)
  case (Cons t ts)
  obtain ok s where s: "TryAcquire fused t r = (ok, s)" by (cases "TryAcquire fused t r")
  obtain oks' where c: "calls fused ts s = (oks', r')" using Cons.prems s by (auto split: prod.splits)
  show ?case using Cons.IH [OF c] TryAcquire_fields [of fused t r] by (simp add: s)
qed simp

text \<open>C33. Waiting for a token of a Bitget limiter ends: whatever calls came before, a caller that finds no
  token and has the limiter to itself gets one after a single sleep of the wait time, which is at
  most a tenth of a second, in spite of the rounding of the elapsed time and of the rate.\<close>

theorem bitget_wait_sleeps_once:
  assumes "l = fst (GetBitgetOrderLimiter t0 None) \<or> l = fst (GetBitgetAccountLimiter t0 None) \<or>
      l = fst (GetBitgetMarketLimiter t0 None)"
    and "sorted (t0 # ts)" "last (t0 # ts) \<le> now" "calls fused ts l = (oks, r)"
    and "now + wait_time r \<le> wake" "wake - t0 < 9223372036854775808"
  shows "(\<exists>r'. Wait fused [(id, wake)] now r = Some r') \<and> wait_time r \<le> 100000000"
proof -
  have l: "limiter_ok l" "rl_refillRate l = 10 \<or> rl_refillRate l = 20" "rl_lastRefill l = t0"
    using assms(1) new_limiter_ok [of 5 10 t0] new_limiter_ok [of 10 20 t0]
    by (auto simp: GetBitgetOrderLimiter_def GetBitgetAccountLimiter_def GetBitgetMarketLimiter_def
        once_limiters_def initBitgetLimiters_def NewRateLimiter_def)
  have r: "rl_refillRate r = 10 \<or> rl_refillRate r = 20" "rl_lastRefill r = last (t0 # ts)"
    using calls_fields [OF assms(4)] l by simp_all
  have "fl 100000000 = 100000000" "fl 50000000 = 50000000"
    using fl_of_int [of 100000000] fl_of_int [of 50000000] by simp_all
  then have w: "0 \<le> wait_time r" "wait_time r \<le> 100000000"
    using r(1) by (auto simp: wait_time_def float_to_int_def)
  have t0: "t0 \<le> last (t0 # ts)" using assms(2) by (auto simp: last_in_set)
  then have "last (rl_lastRefill l # ts) - rl_lastRefill l < 9223372036854775808"
    using assms(3,5,6) w l(3) by simp
  then have ok: "limiter_ok r"
    using calls_bound [OF l(1) _ _ assms(4)] assms(2) l(3) by simp
  let ?r = "refill fused now r"
  have "limiter_ok ?r" by (rule refill_ok [OF ok]) (use assms(3) r(2) in simp)
  then have full: "1 \<le> rl_tokens (refill fused wake ?r)"
    by (rule refill_after_wait) (use assms t0 r w in \<open>simp_all add: wait_time_def\<close>)
  have "Wait fused [(id, wake)] now r \<noteq> None"
    using full by (simp add: Wait_def)
  then show ?thesis using w(2) by auto
qed

theorem bitget_wait_sleeps_once_witness:
  "\<exists>r'. Wait False [(id, 100000000)] 0 (snd (calls False [0, 0, 0, 0, 0] (NewRateLimiter 0 5 10))) = Some r'"
proof -
  let ?l = "fst (GetBitgetOrderLimiter 0 None)"
  have l: "?l = NewRateLimiter 0 5 10" by (simp add: GetBitgetOrderLimiter_def once_limiters_def initBitgetLimiters_def)
  obtain oks r where c: "calls False [0, 0, 0, 0, 0] ?l = (oks, r)" by (cases "calls False [0, 0, 0, 0, 0] ?l")
  have "rl_refillRate r = 10" using calls_fields [OF c] by (simp add: l NewRateLimiter_def)
  moreover have "fl 100000000 = 100000000" using fl_of_int [of 100000000] by simp
  ultimately have "wait_time r = 100000000" by (simp add: wait_time_def float_to_int_def)
  then have "\<exists>r'. Wait False [(id, 100000000)] 0 r = Some r'"
    using bitget_wait_sleeps_once [OF _ _ _ c, of 0 0 100000000] by simp
  then show ?thesis using c by (simp only: l snd_conv)
qed

end
