(* ===== verification/Limited_Client.thy ===== *)
theory Limited_Client
  imports Bitget_Client Rate_Limiter
begin

text \<open>
  The Bitget client behind its rate limiters (\<open>internal/infra/bitget/client.go\<close> with
  \<open>internal/infra/rate_limiter.go\<close>): the three exported calls as a whole, each of which first waits for a
  token of the limiter of its endpoint. A call is given the time it starts at and the times it wakes up
  at, should it have to sleep; it is still asleep when they are used up.
\<close>

section \<open>Calls\<close>

record exchange =
  ex_client :: client
  ex_limiters :: bitget_limiters

definition wait_order :: "bool \<Rightarrow> int \<Rightarrow> int list \<Rightarrow> bitget_limiters \<Rightarrow> bitget_limiters option" where
  "wait_order fused now wakes g =
     (case GetBitgetOrderLimiter now g of (l, g) \<Rightarrow>
        map_option (\<lambda>l. map_option (\<lambda>(_, a, m). (l, a, m)) g) (Wait fused (map (Pair id) wakes) now l))"

definition wait_account :: "bool \<Rightarrow> int \<Rightarrow> int list \<Rightarrow> bitget_limiters \<Rightarrow> bitget_limiters option" where
  "wait_account fused now wakes g =
     (case GetBitgetAccountLimiter now g of (l, g) \<Rightarrow>
        map_option (\<lambda>l. map_option (\<lambda>(ol, _, m). (ol, l, m)) g) (Wait fused (map (Pair id) wakes) now l))"


definition PlaceOrder_limited ::
  "bool \<Rightarrow> int \<Rightarrow> int list \<Rightarrow> env \<Rightarrow> order \<Rightarrow> exchange \<Rightarrow> (client_error option \<times> exchange) option" where
  "PlaceOrder_limited fused now wakes E ord x =
     map_option (\<lambda>g. case PlaceOrder E ord (ex_client x) of (e, c) \<Rightarrow> (e, \<lparr>ex_client = c, ex_limiters = g\<rparr>))
       (wait_order fused now wakes (ex_limiters x))"

definition CancelOrder_limited ::
  "bool \<Rightarrow> int \<Rightarrow> int list \<Rightarrow> env \<Rightarrow> string \<Rightarrow> string \<Rightarrow> exchange \<Rightarrow> (client_error option \<times> exchange) option" where
  "CancelOrder_limited fused now wakes E orderID symbol x =
     map_option (\<lambda>g. case CancelOrder_client E orderID symbol (ex_client x) of (e, c) \<Rightarrow> (e, \<lparr>ex_client = c, ex_limiters = g\<rparr>))
       (wait_order fused now wakes (ex_limiters x))"

definition GetBalance_limited ::
  "bool \<Rightarrow> int \<Rightarrow> int list \<Rightarrow> env \<Rightarrow> string \<Rightarrow> exchange \<Rightarrow> ((client_error + i64) \<times> exchange) option" where
  "GetBalance_limited fused now wakes E coin x =
     map_option (\<lambda>g. case GetBalance_client E coin (ex_client x) of (r, c) \<Rightarrow> (r, \<lparr>ex_client = c, ex_limiters = g\<rparr>))
       (wait_account fused now wakes (ex_limiters x))"

section \<open>Runs\<close>

datatype api_call = Place order | Cancel string string | Balance string

text \<open>A caller makes one call after the other; what the calls answer does not matter here. A call that
  is still asleep ends the run.\<close>

record timed_call =
  tc_now :: int
  tc_wakes :: "int list"
  tc_env :: env
  tc_call :: api_call

definition api_step :: "bool \<Rightarrow> timed_call \<Rightarrow> exchange \<Rightarrow> exchange option" where
  "api_step fused k x =
     (case tc_call k of
        Place ord \<Rightarrow> map_option snd (PlaceOrder_limited fused (tc_now k) (tc_wakes k) (tc_env k) ord x)
      | Cancel i y \<Rightarrow> map_option snd (CancelOrder_limited fused (tc_now k) (tc_wakes k) (tc_env k) i y x)
      | Balance coin \<Rightarrow> map_option snd (GetBalance_limited fused (tc_now k) (tc_wakes k) (tc_env k) coin x))"

fun api_run :: "bool \<Rightarrow> timed_call list \<Rightarrow> exchange \<Rightarrow> exchange" where
  "api_run fused [] x = x"
| "api_run fused (k # ks) x = (case api_step fused k x of None \<Rightarrow> x | Some x \<Rightarrow> api_run fused ks x)"

definition call_times :: "timed_call list \<Rightarrow> int list" where
  "call_times ks = concat (map (\<lambda>k. tc_now k # tc_wakes k) ks)"

definition sent_by :: "string \<Rightarrow> exchange \<Rightarrow> nat" where
  "sent_by method x = length (filter (\<lambda>r. rq_method r = method) (cl_sent (ex_client x)))"

section \<open>Waiting takes one token\<close>

lemma calls_append:
  "calls fused (ts @ us) r = (case calls fused ts r of (oks, r) \<Rightarrow> case calls fused us r of (oks', r) \<Rightarrow> (oks @ oks', r))"
  by (induction ts arbitrary: r) (auto split: prod.splits)

lemma Wait_calls:
  assumes "Wait fused (map (Pair id) wakes) now l = Some l'"
  shows "\<exists>k oks. calls fused (take k (now # wakes)) l = (oks, l') \<and> granted oks = 1"
  using assms
proof (induction wakes arbitrary: now l)
  case Nil
  then obtain s where "TryAcquire fused now l = (True, s)" "l' = s" by (auto simp: Wait_is_TryAcquire split: prod.splits if_splits)
  then show ?case by (intro exI [of _ 1] exI [of _ "[True]"]) (simp add: granted_def)
next
  case (Cons w ws)
  obtain ok s where s: "TryAcquire fused now l = (ok, s)" by (cases "TryAcquire fused now l")
  show ?case
  proof (cases ok)
    case True
    then have "l' = s" using Cons.prems s by (simp add: Wait_is_TryAcquire)
    then show ?thesis using s True by (intro exI [of _ 1] exI [of _ "[True]"]) (simp add: granted_def)
  next
    case False
    then have "Wait fused (map (Pair id) ws) w s = Some l'" using Cons.prems s by (simp add: Wait_is_TryAcquire id_def)
    then obtain k oks where "calls fused (take k (w # ws)) s = (oks, l')" "granted oks = 1" using Cons.IH by blast
    then show ?thesis using s False
      by (intro exI [of _ "Suc k"] exI [of _ "False # oks"]) (simp add: granted_def)
  qed
qed

text \<open>A limiter made at \<open>t0\<close> that has granted at least \<open>n\<close> tokens in at most \<open>k\<close> attempts up to time \<open>t\<close>.\<close>

definition limiter_log :: "bool \<Rightarrow> int \<Rightarrow> int \<Rightarrow> nat \<Rightarrow> nat \<Rightarrow> rate_limiter \<Rightarrow> bool" where
  "limiter_log fused t0 t k n l \<longleftrightarrow>
     (\<exists>ts oks. calls fused ts (NewRateLimiter t0 5 10) = (oks, l) \<and> n \<le> granted oks \<and> sorted (t0 # ts) \<and>
        last (t0 # ts) \<le> t \<and> length ts \<le> k)"

lemma limiter_log_new: "limiter_log fused t0 t0 0 0 (NewRateLimiter t0 5 10)"
  unfolding limiter_log_def by (intro exI [of _ "[]"]) simp

lemma limiter_log_mono: "limiter_log fused t0 t k n l \<Longrightarrow> t \<le> u \<Longrightarrow> k \<le> m \<Longrightarrow> limiter_log fused t0 u m n l"
  unfolding limiter_log_def by (elim exE) (intro exI, fastforce)

lemma sorted_le_last: "sorted xs \<Longrightarrow> x \<in> set xs \<Longrightarrow> x \<le> last xs"
  by (induction xs) auto

lemma sorted_last_append:
  assumes "sorted (a # ts)" "sorted us" "\<forall>u \<in> set us. last (a # ts) \<le> (u :: int)"
  shows "sorted (a # ts @ us)"
proof -
  have "x \<le> u" if "x \<in> set (a # ts)" "u \<in> set us" for x u
    using sorted_le_last [OF assms(1) that(1)] assms(3) that(2) by fastforce
  then have "sorted ((a # ts) @ us)" using assms(1,2) unfolding sorted_append by blast
  then show ?thesis by simp
qed

lemma limiter_log_wait:
  assumes "limiter_log fused t0 t k n l" "Wait fused (map (Pair id) wakes) now l = Some l'"
    and "t \<le> now" "sorted (now # wakes)" "last (now # wakes) \<le> u"
  shows "limiter_log fused t0 u (k + length (now # wakes)) (Suc n) l'"
proof -
  obtain ts oks where ts: "calls fused ts (NewRateLimiter t0 5 10) = (oks, l)" "n \<le> granted oks" "sorted (t0 # ts)"
    "last (t0 # ts) \<le> t" "length ts \<le> k" using assms(1) by (auto simp: limiter_log_def)
  obtain j oks' where j: "calls fused (take j (now # wakes)) l = (oks', l')" "granted oks' = 1"
    using Wait_calls [OF assms(2)] by blast
  let ?us = "take j (now # wakes)"
  have nu: "now \<le> u" using sorted_le_last [OF assms(4), of now] assms(5) by simp
  have us: "sorted ?us" using assms(4) by (rule sorted_wrt_take)
  have le: "\<forall>x \<in> set ?us. now \<le> x \<and> x \<le> u"
  proof
    fix x assume "x \<in> set ?us"
    then have "x \<in> set (now # wakes)" by (rule in_set_takeD)
    then show "now \<le> x \<and> x \<le> u" using sorted_le_last [OF assms(4)] assms(4,5) by fastforce
  qed
  have "sorted (t0 # ts @ ?us)" by (rule sorted_last_append [OF ts(3) us]) (use le ts(4) assms(3) in force)
  moreover have "last (t0 # ts @ ?us) \<le> u"
    using le ts(4) assms(3) nu by (cases "?us = []") auto
  moreover have "calls fused (ts @ ?us) (NewRateLimiter t0 5 10) = (oks @ oks', l')" using ts(1) j(1) by (simp add: calls_append)
  moreover have "Suc n \<le> granted (oks @ oks')" using ts(2) j(2) by (simp add: granted_def)
  moreover have "length (ts @ ?us) \<le> k + length (now # wakes)" using ts(5) by simp
  ultimately show ?thesis unfolding limiter_log_def by blast
qed


lemma bound_arith:
  fixes s T k g :: rat
  assumes "g \<le> 5 + 10 * s * (1 + 1 / 2 ^ 50) + k * 5 / 2 ^ 51" "s \<le> T" "T < 2 ^ 34" "k \<le> 2 ^ 40"
  shows "g < 6 + 10 * T"
proof -
  have "10 * s * (1 + 1 / 2 ^ 50) = 10 * s + s * (10 / 2 ^ 50)" by (simp add: distrib_left)
  moreover have "s * (10 / 2 ^ 50) \<le> 1 / 4" using assms(2,3) by simp
  moreover have "k * 5 / 2 ^ 51 \<le> 1 / 4" using assms(4) by simp
  ultimately show ?thesis using assms(1,2) by linarith
qed

lemma limiter_log_bound:
  assumes "limiter_log fused t0 t k n l" "t - t0 < 9223372036854775808" "k \<le> 2 ^ 40"
  shows "of_nat n < (6 + 10 * (of_int (t - t0) / 1000000000) :: rat)"
proof -
  let ?r = "NewRateLimiter t0 5 10"
  obtain ts oks where ts: "calls fused ts ?r = (oks, l)" "n \<le> granted oks" "sorted (t0 # ts)"
    "last (t0 # ts) \<le> t" "length ts \<le> k" using assms(1) by (auto simp: limiter_log_def)
  have f: "rl_lastRefill ?r = t0" "rl_tokens ?r = 5" "rl_maxTokens ?r = 5" "rl_refillRate ?r = 10"
    using fl_of_int [of 5] by (simp_all add: NewRateLimiter_def)
  let ?s = "of_int (last (t0 # ts) - t0) / 1000000000 :: rat" and ?T = "of_int (t - t0) / 1000000000 :: rat"
  have ok: "limiter_ok ?r" by (rule new_limiter_ok) simp_all
  have "limiter_ok l" and b: "of_nat (granted oks) + rl_tokens l \<le> 5 + 10 * ?s * (1 + 1 / 2 ^ 50) + of_nat (length ts) * 5 / 2 ^ 51"
    using calls_bound [OF ok _ _ ts(1)] ts(3,4) assms(2) unfolding f by simp_all
  then have "0 \<le> rl_tokens l" by (simp add: limiter_ok_def)
  then have g: "of_nat (granted oks) \<le> 5 + 10 * ?s * (1 + 1 / 2 ^ 50) + of_nat (length ts) * 5 / 2 ^ 51" using b by linarith
  have s: "?s \<le> ?T" using ts(4) by (simp add: divide_right_mono)
  have "of_int (t - t0) < (of_int 9223372036854775808 :: rat)" using assms(2) by (simp only: of_int_less_iff)
  then have T: "?T < 2 ^ 34" by simp
  have "length ts \<le> 2 ^ 40" using ts(5) assms(3) by (rule le_trans)
  then have "(of_nat (length ts) :: rat) \<le> of_nat (2 ^ 40)" by (simp only: of_nat_le_iff)
  then have "(of_nat (length ts) :: rat) \<le> 2 ^ 40" by simp
  from bound_arith [OF g s T this] have "of_nat (granted oks) < (6 + 10 * ?T :: rat)" .
  moreover have "(of_nat n :: rat) \<le> of_nat (granted oks)" using ts(2) by simp
  ultimately show ?thesis by linarith
qed

section \<open>Requests\<close>

lemma PlaceOrder_posts: "cl_sent (snd (PlaceOrder E ord c)) = cl_sent c \<or>
   (\<exists>r. rq_method r = ''POST'' \<and> cl_sent (snd (PlaceOrder E ord c)) = cl_sent c @ [r])"
  using call_sent(1) [of E ord c] by fastforce

lemma CancelOrder_posts: "cl_sent (snd (CancelOrder_client E i y c)) = cl_sent c \<or>
   (\<exists>r. rq_method r = ''POST'' \<and> cl_sent (snd (CancelOrder_client E i y c)) = cl_sent c @ [r])"
  using call_sent(2) [of E i y c] by fastforce

lemma GetBalance_gets: "cl_sent (snd (GetBalance_client E coin c)) = cl_sent c \<or>
   (\<exists>r. rq_method r = ''GET'' \<and> cl_sent (snd (GetBalance_client E coin c)) = cl_sent c @ [r])"
  using call_sent(3) [of E coin c] by fastforce


text \<open>The client has sent no more requests to either kind of endpoint than its limiter has granted tokens.\<close>

definition exchange_inv :: "bool \<Rightarrow> int \<Rightarrow> int \<Rightarrow> nat \<Rightarrow> exchange \<Rightarrow> bool" where
  "exchange_inv fused t0 t k x \<longleftrightarrow>
     (\<exists>ol al m. ex_limiters x = Some (ol, al, m) \<and> limiter_log fused t0 t k (sent_by ''POST'' x) ol \<and>
        limiter_log fused t0 t k (sent_by ''GET'' x) al)"

lemma limiter_log_fewer: "limiter_log fused t0 t k n l \<Longrightarrow> m \<le> n \<Longrightarrow> limiter_log fused t0 t k m l"
  unfolding limiter_log_def by (elim exE) (intro exI, fastforce)

lemma sent_by_post:
  assumes "cl_sent c = cl_sent (ex_client x) \<or> (\<exists>r. rq_method r = ''POST'' \<and> cl_sent c = cl_sent (ex_client x) @ [r])"
  shows "sent_by ''POST'' \<lparr>ex_client = c, ex_limiters = g\<rparr> \<le> Suc (sent_by ''POST'' x)"
    "sent_by ''GET'' \<lparr>ex_client = c, ex_limiters = g\<rparr> = sent_by ''GET'' x"
  using assms by (auto simp: sent_by_def)

lemma sent_by_get:
  assumes "cl_sent c = cl_sent (ex_client x) \<or> (\<exists>r. rq_method r = ''GET'' \<and> cl_sent c = cl_sent (ex_client x) @ [r])"
  shows "sent_by ''GET'' \<lparr>ex_client = c, ex_limiters = g\<rparr> \<le> Suc (sent_by ''GET'' x)"
    "sent_by ''POST'' \<lparr>ex_client = c, ex_limiters = g\<rparr> = sent_by ''POST'' x"
  using assms by (auto simp: sent_by_def)

lemma exchange_inv_order:
  assumes "exchange_inv fused t0 t k x" "wait_order fused now wakes (ex_limiters x) = Some g"
    and "t \<le> now" "sorted (now # wakes)" "last (now # wakes) \<le> u"
    and "cl_sent c = cl_sent (ex_client x) \<or> (\<exists>r. rq_method r = ''POST'' \<and> cl_sent c = cl_sent (ex_client x) @ [r])"
  shows "exchange_inv fused t0 u (k + length (now # wakes)) \<lparr>ex_client = c, ex_limiters = g\<rparr>"
proof -
  obtain ol al m where x: "ex_limiters x = Some (ol, al, m)" "limiter_log fused t0 t k (sent_by ''POST'' x) ol"
    "limiter_log fused t0 t k (sent_by ''GET'' x) al" using assms(1) by (auto simp: exchange_inv_def)
  obtain ol' where w: "Wait fused (map (Pair id) wakes) now ol = Some ol'" "g = Some (ol', al, m)"
    using assms(2) x(1) by (auto simp: wait_order_def GetBitgetOrderLimiter_def once_limiters_def)
  have "now \<le> u" using sorted_le_last [OF assms(4), of now] assms(5) by simp
  then have "t \<le> u" using assms(3) by simp
  then show ?thesis
    using limiter_log_fewer [OF limiter_log_wait [OF x(2) w(1) assms(3-5)] sent_by_post(1) [OF assms(6)]]
      limiter_log_mono [OF x(3)] sent_by_post(2) [OF assms(6)] w(2)
    by (auto simp: exchange_inv_def)
qed

lemma exchange_inv_account:
  assumes "exchange_inv fused t0 t k x" "wait_account fused now wakes (ex_limiters x) = Some g"
    and "t \<le> now" "sorted (now # wakes)" "last (now # wakes) \<le> u"
    and "cl_sent c = cl_sent (ex_client x) \<or> (\<exists>r. rq_method r = ''GET'' \<and> cl_sent c = cl_sent (ex_client x) @ [r])"
  shows "exchange_inv fused t0 u (k + length (now # wakes)) \<lparr>ex_client = c, ex_limiters = g\<rparr>"
proof -
  obtain ol al m where x: "ex_limiters x = Some (ol, al, m)" "limiter_log fused t0 t k (sent_by ''POST'' x) ol"
    "limiter_log fused t0 t k (sent_by ''GET'' x) al" using assms(1) by (auto simp: exchange_inv_def)
  obtain al' where w: "Wait fused (map (Pair id) wakes) now al = Some al'" "g = Some (ol, al', m)"
    using assms(2) x(1) by (auto simp: wait_account_def GetBitgetAccountLimiter_def once_limiters_def)
  have "now \<le> u" using sorted_le_last [OF assms(4), of now] assms(5) by simp
  then have "t \<le> u" using assms(3) by simp
  then show ?thesis
    using limiter_log_fewer [OF limiter_log_wait [OF x(3) w(1) assms(3-5)] sent_by_get(1) [OF assms(6)]]
      limiter_log_mono [OF x(2)] sent_by_get(2) [OF assms(6)] w(2)
    by (auto simp: exchange_inv_def)
qed

lemma api_step_inv:
  assumes "exchange_inv fused t0 t n x" "api_step fused k x = Some x'"
    and "t \<le> tc_now k" "sorted (tc_now k # tc_wakes k)"
  shows "exchange_inv fused t0 (last (tc_now k # tc_wakes k)) (n + length (tc_now k # tc_wakes k)) x'"
proof (cases "tc_call k")
  case (Place ord)
  then obtain g where "wait_order fused (tc_now k) (tc_wakes k) (ex_limiters x) = Some g"
    "x' = \<lparr>ex_client = snd (PlaceOrder (tc_env k) ord (ex_client x)), ex_limiters = g\<rparr>"
    using assms(2) by (auto simp: api_step_def PlaceOrder_limited_def split_beta)
  then show ?thesis using exchange_inv_order [OF assms(1) _ assms(3,4) order_refl PlaceOrder_posts] by simp
next
  case (Cancel i y)
  then obtain g where "wait_order fused (tc_now k) (tc_wakes k) (ex_limiters x) = Some g"
    "x' = \<lparr>ex_client = snd (CancelOrder_client (tc_env k) i y (ex_client x)), ex_limiters = g\<rparr>"
    using assms(2) by (auto simp: api_step_def CancelOrder_limited_def split_beta)
  then show ?thesis using exchange_inv_order [OF assms(1) _ assms(3,4) order_refl CancelOrder_posts] by simp
next
  case (Balance coin)
  then obtain g where "wait_account fused (tc_now k) (tc_wakes k) (ex_limiters x) = Some g"
    "x' = \<lparr>ex_client = snd (GetBalance_client (tc_env k) coin (ex_client x)), ex_limiters = g\<rparr>"
    using assms(2) by (auto simp: api_step_def GetBalance_limited_def split_beta)
  then show ?thesis using exchange_inv_account [OF assms(1) _ assms(3,4) order_refl GetBalance_gets] by simp
qed

lemma exchange_inv_mono: "exchange_inv fused t0 t k x \<Longrightarrow> t \<le> u \<Longrightarrow> k \<le> m \<Longrightarrow> exchange_inv fused t0 u m x"
  by (auto simp: exchange_inv_def dest: limiter_log_mono)

lemma api_run_inv:
  assumes "exchange_inv fused t0 t n x" "sorted (t # call_times ks)"
  shows "exchange_inv fused t0 (last (t # call_times ks)) (n + length (call_times ks)) (api_run fused ks x)"
  using assms
proof (induction ks arbitrary: t n x)
  case Nil
  then show ?case by (simp add: call_times_def)
next
  case (Cons k ks)
  let ?a = "tc_now k # tc_wakes k"
  have c: "call_times (k # ks) = ?a @ call_times ks" by (simp add: call_times_def)
  have le: "t \<le> tc_now k" "sorted ?a" and rest: "sorted (last ?a # call_times ks)"
    using Cons.prems(2) unfolding c by (auto simp: sorted_append)
  show ?case
  proof (cases "api_step fused k x")
    case None
    have "t \<le> last (t # call_times (k # ks))" by (rule sorted_le_last [OF Cons.prems(2)]) simp
    then show ?thesis using None exchange_inv_mono [OF Cons.prems(1)] by simp
  next
    case (Some x')
    from Cons.IH [OF api_step_inv [OF Cons.prems(1) Some le] rest] Some show ?thesis
      unfolding c by (cases "call_times ks = []") (simp_all add: add.assoc)
  qed
qed

lemma api_run_fresh:
  "api_run fused (k # ks) \<lparr>ex_client = c, ex_limiters = None\<rparr> =
   (case api_step fused k \<lparr>ex_client = c, ex_limiters = Some (initBitgetLimiters (tc_now k))\<rparr> of
      None \<Rightarrow> \<lparr>ex_client = c, ex_limiters = None\<rparr> | Some x \<Rightarrow> api_run fused ks x)"
  by (simp add: api_step_def PlaceOrder_limited_def CancelOrder_limited_def GetBalance_limited_def wait_order_def
      wait_account_def GetBitgetOrderLimiter_def GetBitgetAccountLimiter_def once_limiters_def split: api_call.splits)

text \<open>C11. The client keeps to the exchange's limits: over any sequence of orders, cancellations and
  balance queries, answered or not, the requests sent to the order endpoints stay below six plus ten for
  each second since the first call, and so do those to the account endpoint; rounding of the token counts is
  included, for up to \<open>2^40\<close> attempts.\<close>

theorem client_respects_rate_limit:
  assumes "cl_sent c = []" "call_times ks = t0 # ts" "sorted (t0 # ts)"
    and "last (t0 # ts) - t0 < 9223372036854775808" "length (t0 # ts) \<le> 2 ^ 40"
    and "method = ''POST'' \<or> method = ''GET''"
  shows "of_nat (sent_by method (api_run fused ks \<lparr>ex_client = c, ex_limiters = None\<rparr>)) <
    (6 + 10 * (of_int (last (t0 # ts) - t0) / 1000000000) :: rat)"
proof -
  obtain k ks' where ks: "ks = k # ks'" "tc_now k = t0" using assms(2) by (cases ks) (auto simp: call_times_def)
  let ?x = "\<lparr>ex_client = c, ex_limiters = Some (initBitgetLimiters t0)\<rparr>"
  have i: "exchange_inv fused t0 t0 0 ?x"
    using assms(1) limiter_log_new by (simp add: exchange_inv_def initBitgetLimiters_def sent_by_def)
  have "exchange_inv fused t0 (last (t0 # ts)) (length (t0 # ts)) (api_run fused ks ?x)"
    using api_run_inv [OF i, of ks] assms(2,3) by simp
  then obtain l where "limiter_log fused t0 (last (t0 # ts)) (length (t0 # ts)) (sent_by method (api_run fused ks ?x)) l"
    using assms(6) by (auto simp: exchange_inv_def)
  note b = limiter_log_bound [OF this assms(4,5)]
  have "sent_by method (api_run fused ks \<lparr>ex_client = c, ex_limiters = None\<rparr>) = sent_by method (api_run fused ks ?x)"
    unfolding ks(1) api_run_fresh ks(2) by (simp add: sent_by_def split: option.splits)
  then show ?thesis using b by simp
qed

theorem client_respects_rate_limit_witness:
  "sent_by ''POST'' (api_run False
     (replicate 20 \<lparr>tc_now = 0, tc_wakes = [], tc_env = example_env, tc_call = Cancel ''1'' ''BTCUSDT''\<rparr>)
     \<lparr>ex_client = NewClient example_config True, ex_limiters = None\<rparr>) < 6"
proof -
  let ?k = "\<lparr>tc_now = 0, tc_wakes = [], tc_env = example_env, tc_call = Cancel ''1'' ''BTCUSDT''\<rparr>"
  have r: "call_times (replicate n ?k) = replicate n 0" for n by (induction n) (simp_all add: call_times_def)
  have c: "call_times (replicate 20 ?k) = 0 # replicate 19 0" unfolding r by (simp add: numeral_eq_Suc)
  have "of_nat (sent_by ''POST'' (api_run False (replicate 20 ?k) \<lparr>ex_client = NewClient example_config True, ex_limiters = None\<rparr>))
      < (6 + 10 * (of_int (last (0 # replicate 19 0) - 0) / 1000000000) :: rat)"
    by (rule client_respects_rate_limit [OF _ c]) (simp_all add: NewClient_def)
  then have "of_nat (sent_by ''POST'' (api_run False (replicate 20 ?k) \<lparr>ex_client = NewClient example_config True, ex_limiters = None\<rparr>))
      < (of_nat 6 :: rat)" by simp
  then show ?thesis by (simp only: of_nat_less_iff)
qed

end
