(* ===== verification/Execution.thy ===== *)
theory Execution
  imports Bitget_Client "HOL-Library.Sublist"
begin

text \<open>
  The interface \<open>Execution\<close> of \<open>internal/domain/execution.go\<close> and what its implementations have in common: the
  paper executor (\<open>paper.go\<close>), the executor for the exchange (\<open>factory.go\<close> on \<open>client.go\<close>) and the mock
  (\<open>mock.go\<close>). Each leaves a trace of the orders it handed on: the fills, the requests sent, the lines
  logged. An order is handed on at most once, and an accepted one exactly once.
\<close>

section \<open>The contract\<close>

text \<open>Orders submitted one after the other, each with what its call takes from its surroundings; a panic
  ends the run.\<close>

fun submit_all ::
  "('i \<Rightarrow> order \<Rightarrow> 's \<Rightarrow> ('s, 'e option) outcome) \<Rightarrow> ('i \<times> order) list \<Rightarrow> 's \<Rightarrow> ('s, 'e option list) outcome" where
  "submit_all execute [] s = Done [] s"
| "submit_all execute ((i, ord) # ios) s =
     and_then (execute i ord s) (\<lambda>e s.
     and_then (submit_all execute ios s) (\<lambda>es s. Done (e # es) s))"

text \<open>The orders whose call returned no error.\<close>

definition accepted :: "('i \<times> order) list \<Rightarrow> 'e option list \<Rightarrow> ('i \<times> order) list" where
  "accepted ios es = map fst (filter (\<lambda>(x, e). e = None) (zip ios es))"

locale execution =
  fixes execute :: "'i \<Rightarrow> order \<Rightarrow> 's \<Rightarrow> ('s, 'e option) outcome"
    and handed :: "'s \<Rightarrow> 'r list"
    and stands_for :: "'i \<Rightarrow> order \<Rightarrow> 'r \<Rightarrow> bool"
  assumes at_most_once: "handed (final (execute i ord s)) = handed s \<or>
      (\<exists>r. stands_for i ord r \<and> handed (final (execute i ord s)) = handed s @ [r])"
    and accepted_once: "execute i ord s = Done None s' \<Longrightarrow> \<exists>r. stands_for i ord r \<and> handed s' = handed s @ [r]"
begin

text \<open>The orders of a list that left a trace, with the trace.\<close>

abbreviation traces :: "('i \<times> order) list \<Rightarrow> 'r list \<Rightarrow> bool" where
  "traces \<equiv> list_all2 (\<lambda>(i, ord) r. stands_for i ord r)"

lemma execute_trace:
  "\<exists>t qs. subseq t [(i, ord)] \<and> traces t qs \<and> handed (final (execute i ord s)) = handed s @ qs \<and>
     (\<forall>s'. execute i ord s = Done None s' \<longrightarrow> t = [(i, ord)])"
proof (cases "handed (final (execute i ord s)) = handed s")
  case True
  then have "\<forall>s'. execute i ord s \<noteq> Done None s'" using accepted_once [of i ord s] by fastforce
  then show ?thesis using True by (intro exI [of _ "[]"]) simp
next
  case False
  then obtain r where "stands_for i ord r" "handed (final (execute i ord s)) = handed s @ [r]"
    using at_most_once [of i ord s] by blast
  then show ?thesis by (intro exI [of _ "[(i, ord)]"] exI [of _ "[r]"]) simp
qed

lemma accepted_Cons: "accepted (x # ios) (e # es) = (if e = None then [x] else []) @ accepted ios es"
  by (simp add: accepted_def)

lemma submit_all_trace:
  "\<exists>taken rs. subseq taken ios \<and> traces taken rs \<and> handed (final (submit_all execute ios s)) = handed s @ rs \<and>
     (\<forall>es s'. submit_all execute ios s = Done es s' \<longrightarrow> subseq (accepted ios es) taken)"
proof (induction ios arbitrary: s)
  case Nil
  show ?case by (intro exI [of _ "[]"]) (simp add: accepted_def)
next
  case (Cons x ios)
  obtain i ord where x: "x = (i, ord)" by (cases x)
  obtain t qs where t: "subseq t [x]" "traces t qs" "handed (final (execute i ord s)) = handed s @ qs"
    "\<forall>s'. execute i ord s = Done None s' \<longrightarrow> t = [x]"
    using execute_trace [of i ord s] x by blast
  show ?case
  proof (cases "execute i ord s")
    case (Panicked p s1)
    have "subseq (t @ []) ([x] @ ios)" by (rule list_emb_append_mono [OF t(1)]) simp
    then show ?thesis using t Panicked x by (intro exI [of _ t] exI [of _ qs]) simp
  next
    case (Done e s1)
    obtain taken rs where i: "subseq taken ios" "traces taken rs" "handed (final (submit_all execute ios s1)) = handed s1 @ rs"
      "\<forall>es s'. submit_all execute ios s1 = Done es s' \<longrightarrow> subseq (accepted ios es) taken"
      using Cons [of s1] by blast
    have "subseq (t @ taken) ([x] @ ios)" using t(1) i(1) by (rule list_emb_append_mono)
    moreover have "traces (t @ taken) (qs @ rs)" using t(2) i(2) by (rule list_all2_appendI)
    moreover have "handed (final (submit_all execute (x # ios) s)) = handed s @ qs @ rs"
      using i(3) t(3) Done x by (cases "submit_all execute ios s1") simp_all
    moreover have "subseq (accepted (x # ios) es) (t @ taken)" if d: "submit_all execute (x # ios) s = Done es s'" for es s'
    proof -
      obtain es1 where es: "submit_all execute ios s1 = Done es1 s'" "es = e # es1"
        using d Done x by (auto simp: outcome_simps)
      moreover have "subseq (if e = None then [x] else []) t" using t(4) Done by (cases e) auto
      ultimately show ?thesis using i(4) by (simp only: es(2) accepted_Cons list_emb_append_mono)
    qed
    ultimately show ?thesis by (intro exI [of _ "t @ taken"] exI [of _ "qs @ rs"]) simp
  qed
qed

end

section \<open>The implementations\<close>

text \<open>The paper executor: a fill stands for the order it fills. The balances may be touched without a fill.\<close>

definition fill_of :: "i64 \<Rightarrow> order \<Rightarrow> fill \<Rightarrow> bool" where
  "fill_of now ord f \<longleftrightarrow>
     fl_OrderID f = ord_ID ord \<and> fl_Symbol f = ord_Symbol ord \<and> fl_Side f = ord_Side ord \<and>
     fl_QtySats f = ord_QtySats ord \<and> fl_TsUnixMicros f = now"

lemma on_balance_fills [simp]: "pe_fills (final (on_balance symbol f p)) = pe_fills p"
  by (simp add: on_balance_def split: prod.splits sum.splits)

lemma fills_and_then:
  "pe_fills (final m) = a \<Longrightarrow> (\<And>x s. m = Done x s \<Longrightarrow> pe_fills (final (k x s)) = pe_fills s) \<Longrightarrow> pe_fills (final (and_then m k)) = a"
  by (cases m) auto

lemma lift_panic_final [simp]: "final (lift_panic r s) = s"
  by (cases r) auto

lemma paper_buy_fills: "pe_fills (final (paper_buy base quote price qty p)) = pe_fills p"
  unfolding paper_buy_def by (auto intro!: fills_and_then simp: split_beta outcome_simps)

lemma paper_sell_fills: "pe_fills (final (paper_sell base quote price qty p)) = pe_fills p"
  unfolding paper_sell_def by (auto intro!: fills_and_then simp: split_beta outcome_simps)


lemma ExecuteOrder_fills:
  "pe_fills (final (ExecuteOrder now ord p)) = pe_fills p \<or>
     (\<exists>f. fill_of now ord f \<and> pe_fills (final (ExecuteOrder now ord p)) = pe_fills p @ [f])"
  "ExecuteOrder now ord p = Done None p' \<Longrightarrow> \<exists>f. fill_of now ord f \<and> pe_fills p' = pe_fills p @ [f]"
proof -
  have "(ExecuteOrder now ord p = Done None p' \<longrightarrow> (\<exists>f. fill_of now ord f \<and> pe_fills p' = pe_fills p @ [f])) \<and>
    (pe_fills (final (ExecuteOrder now ord p)) = pe_fills p \<or>
     (\<exists>f. fill_of now ord f \<and> pe_fills (final (ExecuteOrder now ord p)) = pe_fills p @ [f]))" for p'
  proof (cases "\<exists>price base quote. exec_price ord p = Inr price \<and> SplitN2 CHR ''-'' (ord_Symbol ord) = [base, quote]")
    case False
    then show ?thesis by (auto simp: ExecuteOrder_def split: sum.splits list.splits)
  next
    case True
    then obtain price base quote where e: "exec_price ord p = Inr price" "SplitN2 CHR ''-'' (ord_Symbol ord) = [base, quote]" by blast
    let ?m = "if ord_Side ord = ''BUY'' then paper_buy base quote price (ord_QtySats ord) p
      else paper_sell base quote price (ord_QtySats ord) p"
    have m: "pe_fills (final ?m) = pe_fills p" by (simp add: paper_buy_fills paper_sell_fills)
    have "ExecuteOrder now ord p = and_then ?m (\<lambda>err p. case err of Some e \<Rightarrow> Done (Some e) p | None \<Rightarrow> Done None (record_fill now ord price p))"
      by (simp add: ExecuteOrder_def e)
    then show ?thesis using m by (cases ?m) (auto simp: record_fill_def fill_of_def split: option.splits)
  qed
  then show "pe_fills (final (ExecuteOrder now ord p)) = pe_fills p \<or>
     (\<exists>f. fill_of now ord f \<and> pe_fills (final (ExecuteOrder now ord p)) = pe_fills p @ [f])"
    "ExecuteOrder now ord p = Done None p' \<Longrightarrow> \<exists>f. fill_of now ord f \<and> pe_fills p' = pe_fills p @ [f]" by blast+
qed

interpretation paper_exec: execution ExecuteOrder pe_fills fill_of
  by unfold_locales (rule ExecuteOrder_fills, erule ExecuteOrder_fills)

text \<open>The executor for the exchange: the request for an order.\<close>

definition real_execute :: "env \<Rightarrow> order \<Rightarrow> client \<Rightarrow> (client, client_error option) outcome" where
  "real_execute E ord c = (case RealExecuteOrder E ord c of (e, c) \<Rightarrow> Done e c)"

definition order_request :: "env \<Rightarrow> order \<Rightarrow> request \<Rightarrow> bool" where
  "order_request E ord r \<longleftrightarrow> rq_method r = ''POST'' \<and> rq_body r = Some (env_text E (place_order_body ord))"

lemma PlaceOrder_request:
  "cl_sent (snd (PlaceOrder E ord c)) = cl_sent c \<or> (\<exists>r. order_request E ord r \<and> cl_sent (snd (PlaceOrder E ord c)) = cl_sent c @ [r])"
  "fst (PlaceOrder E ord c) = None \<Longrightarrow> \<exists>r. order_request E ord r \<and> cl_sent (snd (PlaceOrder E ord c)) = cl_sent c @ [r]"
  using call_sent(1) [of E ord c] by (auto simp: order_request_def)

interpretation real_exec: execution real_execute cl_sent order_request
  by unfold_locales (use PlaceOrder_request in \<open>auto simp: real_execute_def RealExecuteOrder_def split_beta\<close>)

text \<open>The mock executor logs the order.\<close>

definition mock_execute :: "unit \<Rightarrow> order \<Rightarrow> order list \<Rightarrow> (order list, exec_error option) outcome" where
  "mock_execute i ord lines = Done (MockExecuteOrder ord) (lines @ [ord])"

interpretation mock_exec: execution mock_execute id "\<lambda>_. (=)"
  by unfold_locales (simp_all add: mock_execute_def)

section \<open>Properties\<close>

text \<open>C12. No order is traded twice: of any orders submitted one after the other, to the paper executor or to
  the exchange, whatever fails on the way, the trace is made by a subsequence of them, each order
  leaving at most one fill or request, in the order of submission; every order that was accepted
  is among them.\<close>

theorem orders_handed_on_at_most_once:
  "(\<exists>taken rs. subseq taken ios \<and> list_all2 (\<lambda>(E, ord) r. order_request E ord r) taken rs \<and>
      cl_sent (final (submit_all real_execute ios c)) = cl_sent c @ rs \<and>
      (\<forall>es c'. submit_all real_execute ios c = Done es c' \<longrightarrow> subseq (accepted ios es) taken)) \<and>
   (\<exists>taken fs. subseq taken nos \<and> list_all2 (\<lambda>(now, ord) f. fill_of now ord f) taken fs \<and>
      pe_fills (final (submit_all ExecuteOrder nos p)) = pe_fills p @ fs \<and>
      (\<forall>es p'. submit_all ExecuteOrder nos p = Done es p' \<longrightarrow> subseq (accepted nos es) taken))"
  by (intro conjI real_exec.submit_all_trace paper_exec.submit_all_trace)

theorem orders_handed_on_at_most_once_witness:
  "\<exists>taken rs. subseq taken [(example_env, zero_order), (example_env, zero_order)] \<and> length taken = length rs \<and>
     cl_sent (final (submit_all real_execute [(example_env, zero_order), (example_env, zero_order)] (NewClient example_config True))) = rs"
proof -
  let ?ios = "[(example_env, zero_order), (example_env, zero_order)]" and ?c = "NewClient example_config True"
  have "cl_sent ?c = []" by (simp add: NewClient_def)
  then show ?thesis
    using orders_handed_on_at_most_once [of ?ios ?c "[]" "example_paper 1"] by (auto dest: list_all2_lengthD)
qed

end
