(* ===== verification/Tools.thy ===== *)
theory Tools
  imports Bitget_Client Workspace
begin

text \<open>
  The integration check \<open>cmd/integration/main.go\<close>: it loads the demo secrets, builds a configuration of
  its own, places a limit order far from the market and cancels it. Its two calls of the exchange
  each have their surroundings (\<open>env\<close>); the pause between them and the log are left out.
\<close>

section \<open>The program\<close>

definition zero_config :: config where
  "zero_config =
     \<lparr>cfg_AppName = [], cfg_AppVersion = [], cfg_TradingMode = [],
      cfg_Upbit = \<lparr>up_WSURL = [], up_RestURL = [], up_AccessKey = [], up_SecretKey = [], up_Symbols = []\<rparr>,
      cfg_Bitget = \<lparr>bg_WSURL = [], bg_RestURL = [], bg_AccessKey = [], bg_SecretKey = [], bg_Passphrase = [],
        bg_Symbols = Map.empty\<rparr>,
      cfg_ExchangeRate = \<lparr>rt_URL = [], rt_PollIntervalSec = 0\<rparr>,
      cfg_UI = \<lparr>ui_UpdateIntervalMS = 0, ui_HistoryDays = 0, ui_GapThreshold = 0, ui_Theme = []\<rparr>, cfg_LogLevel = []\<rparr>"

definition integration_config :: "secrets \<Rightarrow> config" where
  "integration_config s =
     zero_config\<lparr>cfg_TradingMode := ''DEMO'',
       cfg_Bitget := (cfg_Bitget zero_config)
         \<lparr>bg_RestURL := ''https://api.bitget.com'', bg_AccessKey := sc_AccessKey s, bg_SecretKey := sc_SecretKey s,
          bg_Passphrase := sc_Passphrase s\<rparr>\<rparr>"

text \<open>How the program ends. Every failure is \<open>os.Exit(1)\<close>, which skips the deferred \<open>Close\<close>.\<close>

datatype tool_end =
    SecretsFailed config_error
  | FactoryFailed factory_error
  | FactoryPanicked panic
  | WrongExecutor
  | OrderFailed client_error
  | CancelFailed client_error
  | Passed

definition test_order :: "int \<Rightarrow> i64 \<Rightarrow> order" where
  "test_order nowUnix nowUnixMicro =
     \<lparr>ord_ID = ''TEST-'' @ fmt_d nowUnix, ord_Symbol = ''BTCUSDT'', ord_Side = SideBuy, ord_Type = OrderTypeLimit,
      ord_PriceMicros = 10000000000, ord_QtySats = 100000, ord_Status = OrderStatusNew, ord_CreatedUnixM = nowUnixMicro\<rparr>"

text \<open>The second component is the client as the program leaves it. In mode DEMO the factory never gives a
  paper executor.\<close>

definition integration_main ::
  "(string \<Rightarrow> config_error + secrets) \<Rightarrow> (string \<Rightarrow> string) \<Rightarrow> string \<Rightarrow> int \<Rightarrow> i64 \<Rightarrow> env \<Rightarrow> env \<Rightarrow> tool_end \<times> client option" where
  "integration_main load getenv workDir nowUnix nowUnixMicro E1 E2 =
     (case load (Join [workDir, ''secrets'', ''demo.yaml'']) of
        Inl e \<Rightarrow> (SecretsFailed e, None)
      | Inr secretCfg \<Rightarrow>
          (case fst (CreateExecution load getenv (integration_config secretCfg)) of
             Inl p \<Rightarrow> (FactoryPanicked p, None)
           | Inr (Inl e) \<Rightarrow> (FactoryFailed e, None)
           | Inr (Inr (PaperExecutor _)) \<Rightarrow> (WrongExecutor, None)
           | Inr (Inr (RealExecutor c)) \<Rightarrow>
               let ord = test_order nowUnix nowUnixMicro in
               (case RealExecuteOrder E1 ord c of
                  (Some e, c) \<Rightarrow> (OrderFailed e, Some c)
                | (None, c) \<Rightarrow>
                    (case RealCancelOrder E2 (ord_ID ord) (ord_Symbol ord) c of
                       (Some e, c) \<Rightarrow> (CancelFailed e, Some c)
                     | (None, c) \<Rightarrow> (Passed, Some (snd (RealClose c)))))))"

text \<open>\<open>Recover\<close> of \<open>internal/infra/recovery.go\<close>, which the program defers first: a panic, as
  \<open>recover()\<close> reports it, becomes exit status 1 after its stack was logged.\<close>

definition Recover :: "panic option \<Rightarrow> nat option" where
  "Recover r = (case r of None \<Rightarrow> None | Some _ \<Rightarrow> Some 1)"

definition exit_status :: "tool_end \<Rightarrow> nat" where
  "exit_status e =
     (case e of
        FactoryPanicked p \<Rightarrow> (case Recover (Some p) of None \<Rightarrow> 0 | Some k \<Rightarrow> k)
      | Passed \<Rightarrow> (case Recover None of None \<Rightarrow> 0 | Some k \<Rightarrow> k)
      | _ \<Rightarrow> 1)"

section \<open>Properties\<close>

definition demo_request :: "request \<Rightarrow> bool" where
  "demo_request q \<longleftrightarrow> rq_headers q ''paptrading'' = Some ''1'' \<and> rq_method q = ''POST''"

lemma build_demo_request: "cl_isTestnet c \<Longrightarrow> demo_request (build_request E ''POST'' path payload c)"
  by (simp add: demo_request_def build_request_def Let_def)

lemma integration_main_run:
  assumes "load (Join [workDir, ''secrets'', ''demo.yaml'']) = Inr sc" "load ''_workspace/secrets/demo.yaml'' = Inr s"
    and "PlaceOrder E1 (test_order t m) (NewClient (with_secrets s (integration_config sc)) True) = (e1, c1)"
    and "CancelOrder_client E2 (ord_ID (test_order t m)) (ord_Symbol (test_order t m)) c1 = (e2, c2)"
  shows "integration_main load getenv workDir t m E1 E2 =
    (case e1 of Some e \<Rightarrow> (OrderFailed e, Some c1) | None \<Rightarrow>
      (case e2 of Some e \<Rightarrow> (CancelFailed e, Some c2) | None \<Rightarrow> (Passed, Some (snd (RealClose c2)))))"
  using assms
  by (simp add: integration_main_def CreateExecution_def integration_config_def Let_def RealExecuteOrder_def RealCancelOrder_def
      split: option.splits)

text \<open>The integration check trades with play money only and cleans up after itself: every request it
  sends, however it ends, is marked as paper trading; at most two are sent; when it passes they
  are exactly the limit order for 0.001 BTC at 10000 USDT and the cancellation of that order,
  and the credentials are wiped.\<close>

lemma integration_check_is_demo:
  assumes "integration_main load getenv workDir nowUnix nowUnixMicro E1 E2 = (r, Some c)"
  shows "list_all demo_request (cl_sent c) \<and> length (cl_sent c) \<le> 2 \<and>
    (r = Passed \<longrightarrow>
       map rq_url (cl_sent c) = [''https://api.bitget.com/api/v2/mix/order/place-order'', ''https://api.bitget.com/api/v2/mix/order/cancel-order''] \<and>
       map rq_body (cl_sent c) =
         [Some (env_text E1 (place_order_body (test_order nowUnix nowUnixMicro))),
          Some (env_text E2 (cancel_order_body (''TEST-'' @ fmt_d nowUnix) ''BTCUSDT''))] \<and>
       set (sg_secretKey (cl_signer c)) \<subseteq> {char_of (0 :: nat)})"
proof -
  let ?ord = "test_order nowUnix nowUnixMicro"
  obtain sc s where s: "load (Join [workDir, ''secrets'', ''demo.yaml'']) = Inr sc"
    "load ''_workspace/secrets/demo.yaml'' = Inr s"
    using assms by (auto simp: integration_main_def CreateExecution_def integration_config_def Let_def split: sum.splits)
  define c0 where "c0 = NewClient (with_secrets s (integration_config sc)) True"
  have c0: "cl_isTestnet c0" "cl_baseURL c0 = ''https://api.bitget.com''" "cl_sent c0 = []"
    by (simp_all add: c0_def NewClient_def with_secrets_def integration_config_def)
  obtain e1 c1 where p: "PlaceOrder E1 ?ord c0 = (e1, c1)" by (cases "PlaceOrder E1 ?ord c0")
  obtain e2 c2 where q: "CancelOrder_client E2 (ord_ID ?ord) (ord_Symbol ?ord) c1 = (e2, c2)"
    by (cases "CancelOrder_client E2 (ord_ID ?ord) (ord_Symbol ?ord) c1")
  have main: "(r, Some c) =
      (case e1 of Some e \<Rightarrow> (OrderFailed e, Some c1) | None \<Rightarrow>
        (case e2 of Some e \<Rightarrow> (CancelFailed e, Some c2) | None \<Rightarrow> (Passed, Some (snd (RealClose c2)))))"
    unfolding assms [symmetric] by (rule integration_main_run [OF s p [unfolded c0_def] q])
  note P = PlaceOrder_sent [OF p] and Q = CancelOrder_sent [OF q]
  have d1: "list_all demo_request (cl_sent c1) \<and> length (cl_sent c1) \<le> 1"
    using P c0 build_demo_request by auto
  moreover have d2: "list_all demo_request (cl_sent c2) \<and> length (cl_sent c2) \<le> 2"
    using Q P d1 c0 build_demo_request by auto
  moreover have "cl_sent (snd (RealClose c2)) = cl_sent c2" by (simp add: RealClose_def Close_client_def)
  moreover have "set (sg_secretKey (cl_signer (snd (RealClose c2)))) \<subseteq> {char_of (0 :: nat)}"
    by (auto simp: RealClose_def Close_client_def Wipe_def wipeSlice_def)
  ultimately show ?thesis
    using main P Q c0 by (auto simp: build_request_def Let_def test_order_def split: option.splits)
qed

definition accepting_env :: env where
  "accepting_env =
     example_env\<lparr>env_http := (\<lambda>_. Some \<lparr>hr_StatusCode = 200, hr_Body = BodyJson (JObj [(''code'', JStr ''00000'')])\<rparr>)\<rparr>"

lemma accepted_call:
  assumes "cb_state (cl_circuitBreaker c) = StateClosed"
  shows "fst (PlaceOrder accepting_env ord c) = None" "fst (CancelOrder_client accepting_env i y c) = None"
    "cb_state (cl_circuitBreaker (snd (PlaceOrder accepting_env ord c))) = StateClosed"
proof -
  have "parseResponse \<lparr>hr_StatusCode = 200, hr_Body = BodyJson (JObj [(''code'', JStr ''00000'')])\<rparr> = Inr None"
    by (simp add: parseResponse_def Unmarshal_def api_response_fields_def find_field_def set_string_def)
  then show "fst (PlaceOrder accepting_env ord c) = None" "fst (CancelOrder_client accepting_env i y c) = None"
    "cb_state (cl_circuitBreaker (snd (PlaceOrder accepting_env ord c))) = StateClosed"
    using assms
    by (simp_all add: PlaceOrder_def CancelOrder_client_def doRequest_def Allow_def RecordSuccess_def accepting_env_def example_env_def Let_def)
qed

lemma integration_check_is_demo_witness:
  "\<exists>c. integration_main (\<lambda>_. Inr \<lparr>sc_AccessKey = ''a'', sc_SecretKey = ''s'', sc_Passphrase = ''p''\<rparr>) (\<lambda>_. []) ''_workspace'' 7 7
      accepting_env accepting_env = (Passed, Some c) \<and> length (cl_sent c) = 2"
proof -
  let ?s = "\<lparr>sc_AccessKey = ''a'', sc_SecretKey = ''s'', sc_Passphrase = ''p''\<rparr>"
  let ?c0 = "NewClient (with_secrets ?s (integration_config ?s)) True"
  have cb: "cb_state (cl_circuitBreaker ?c0) = StateClosed" by (simp add: NewClient_def NewCircuitBreaker_def)
  obtain c1 where p: "PlaceOrder accepting_env (test_order 7 7) ?c0 = (None, c1)"
    using accepted_call(1) [OF cb] by (metis prod.collapse)
  have "cb_state (cl_circuitBreaker c1) = StateClosed" using accepted_call(3) [OF cb, of "test_order 7 7"] p by simp
  then obtain c2 where q: "CancelOrder_client accepting_env (ord_ID (test_order 7 7)) (ord_Symbol (test_order 7 7)) c1 = (None, c2)"
    using accepted_call(2) by (metis prod.collapse)
  obtain c where c: "integration_main (\<lambda>_. Inr ?s) (\<lambda>_. []) ''_workspace'' 7 7 accepting_env accepting_env = (Passed, Some c)"
    using integration_main_run [OF refl refl p q] by simp
  then have "length (map rq_url (cl_sent c)) = 2" using integration_check_is_demo [OF c] by simp
  then show ?thesis using c by auto
qed

text \<open>Whatever happens, a panic included, the status tells a script whether the check passed.\<close>

lemma exit_status_tells: "exit_status e = 0 \<longleftrightarrow> e = Passed"
  by (cases e) (simp_all add: exit_status_def Recover_def)

text \<open>The deferred \<open>Close\<close> does not run when the check fails: the credentials stay in memory.\<close>

lemma failed_check_keeps_credentials:
  "\<exists>c. integration_main (\<lambda>_. Inr \<lparr>sc_AccessKey = ''a'', sc_SecretKey = ''s'', sc_Passphrase = ''p''\<rparr>) (\<lambda>_. []) ''_workspace'' 7 7
      example_env example_env = (OrderFailed TransportFailed, Some c) \<and> sg_secretKey (cl_signer c) = ''s''"
  by (simp add: integration_main_def CreateExecution_def integration_config_def Let_def RealExecuteOrder_def
      PlaceOrder_def doRequest_def Allow_def NewClient_def NewSigner_def NewCircuitBreaker_def example_env_def with_secrets_def)

end
