(* ===== verification/Spec2Isabelle.thy ===== *)
theory Spec2Isabelle
  imports Shutdown Price_Test Limited_Client Execution Tools
begin

text \<open>
  \<^bold>\<open>CryptoGo: the trading engine and what surrounds it.\<close>

  The program is an event-driven trading system. Gateways (WebSocket workers for Upbit and
  Bitget, a poller for the exchange rate) turn messages into market events and offer them to the
  inbox of one sequencer. The sequencer numbers each event, writes it to an SQLite log before
  anything else, updates the market state, runs the strategy and hands its orders on. After a
  crash it replays the log. Money is \<open>int64\<close> fixed-point throughout: prices in millionths,
  quantities in hundred-millionths.

  \<^bold>\<open>How the source is modelled.\<close> A struct is a record with the fields of the source, a \<open>uint64\<close> or
  \<open>int64\<close> is a 64-bit word (\<open>u64\<close>, \<open>i64\<close>), a panic is the value \<open>Panic\<close> of the result type
  \<open>outcome\<close> with the state at the panic, a returned error is \<open>Inl\<close> or an option. Go's maps are
  functions to options, or association lists where the iteration order shows; where the order is the
  runtime's choice it is an argument. What the program asks of the world (the clock, the network, the
  database engine's faults, the file system, YAML, the HMAC, the bytes of JSON) is an argument of the
  definition that asks. JSON decoding, \<open>strconv\<close>, \<open>path/filepath\<close> and \<open>fmt.Sscanf\<close> are modelled as far
  as the source uses them.

  \<^bold>\<open>The theories.\<close>
  \<^item> \<open>Prelude\<close>: result type, words as integers, lists and maps.
  \<^item> \<open>Safe_Math\<close> (\<open>pkg/safe\<close>): the checked operations are exact or panic.
  \<^item> \<open>Balance\<close> and \<open>Domain\<close> (\<open>internal/domain\<close>): balances keep \<open>0 \<le> reserved \<le> amount\<close> under
    every operation; the equity is the sum of the assets' values; orders, positions, tickers, alerts, errors.
  \<^item> \<open>Strconv\<close> and \<open>Decimal\<close> (\<open>pkg/quant\<close>, \<open>fixed_point_parser.go\<close>, \<open>formatFixedPoint\<close>): numbers
    are parsed exactly and survive printing and parsing.
  \<^item> \<open>Float64\<close>, \<open>Quant_Float\<close> (\<open>pkg/quant\<close>): \<open>float64\<close> as rationals rounded to the nearest representable
    number, ties to even; the conversions from and to \<open>float64\<close> are exact up to \<open>2^50\<close> units.
  \<^item> \<open>Json\<close>, \<open>Event\<close>, \<open>Event_Store\<close> (\<open>internal/event\<close>, \<open>internal/storage/store.go\<close>): events survive
    JSON; a pooled event is zeroed and unshared; a saved event is loaded back; the log only grows.
  \<^item> \<open>Strategy\<close>, \<open>Sma_Cross\<close> (\<open>internal/strategy\<close>): the ring buffer with running sums emits exactly the
    signals of the crossover specification on the plain price history.
  \<^item> \<open>Sequencer\<close> (\<open>internal/engine\<close>, \<open>backtest\<close>): the log is gap-free, recovery reproduces the live
    state, the replay loops agree.
  \<^item> \<open>Paper_Execution\<close> (\<open>internal/execution/paper.go\<close>, \<open>mock.go\<close>): when an order fills, what it does
    to balances, fills and orders, and that balances stay valid.
  \<^item> \<open>Resilience\<close> (\<open>circuit_breaker.go\<close>, \<open>backoff.go\<close>, \<open>metrics.go\<close>): when the breaker opens and closes
    again, delays are a capped exponential.
  \<^item> \<open>Feeds\<close> (\<open>websocket_worker.go\<close> and the workers) and \<open>Exchange_Rate\<close>: every gateway only draws
    numbers and offers events, never beyond the inbox's capacity; a ticker becomes one exact event.
  \<^item> \<open>Ws_Worker\<close> (\<open>websocket_worker.go\<close>): the connection loop, the ping goroutines and \<open>Stop\<close> as a step
    relation whose labels tell what was dialled, read and pinged; every interleaving is a run of the sequential
    loop of \<open>Feeds\<close> on exactly that, only pings under way outlive \<open>Stop\<close>, and \<open>Stop\<close> need not return.
  \<^item> \<open>Gateways\<close> (\<open>upbit_worker.go\<close>, \<open>spot_worker.go\<close>, \<open>futures_worker.go\<close>, \<open>bitget_types.go\<close>): the workers
    around their handlers; every quote of a message becomes one exact event.
  \<^item> \<open>Rate_Limiter\<close> (\<open>rate_limiter.go\<close>): the token bucket on \<open>float64\<close> tokens; what it lets through, and
    that waiting ends after one sleep.
  \<^item> \<open>Http\<close>, \<open>Config\<close>, \<open>Bitget_Client\<close> (\<open>config.go\<close>, \<open>config_secret.go\<close>, \<open>signer.go\<close>, \<open>client.go\<close>,
    \<open>factory.go\<close>): which configurations load; requests are signed as sent; numbers are exact on the
    wire; an outage costs five requests and one more for each further thirty seconds; real money needs the confirmation.
  \<^item> \<open>Limited_Client\<close> (\<open>client.go\<close> with \<open>rate_limiter.go\<close>): the calls of the client as a whole, each behind
    its limiter; what a client sends in a span of time is bounded.
  \<^item> \<open>Execution\<close>: what the executors have in common; an order is handed on at most once, and an accepted one
    is among those handed on.
  \<^item> \<open>Snapshot\<close> (\<open>snapshot.go\<close>): a snapshot survives saving and loading; clean-up keeps the newest.
  \<^item> \<open>Workspace\<close> (\<open>paths.go\<close>, paths of \<open>bootstrap.go\<close>): modes have separate databases; the lock files
    with their paths, inodes and descriptors, and that a lock is exclusive while its file is neither closed nor removed.
  \<^item> \<open>Startup\<close> (\<open>bootstrap.go\<close>, \<open>logger.go\<close>): \<open>Initialize\<close> with all it calls; the database is opened only
    while the lock is held and a second instance of the workspace is refused.
  \<^item> \<open>Assets\<close> (\<open>icon_downloader.go\<close>, \<open>coin_info.go\<close>, \<open>app_config.go\<close>, \<open>SyncAssets\<close>): goroutines as threads of a step
    relation; favourites are kept under every interleaving, icons stay in their directory.
  \<^item> \<open>Sma_Engine\<close>, \<open>Application\<close> (\<open>cmd/app/main.go\<close>): the composition. A run is any interleaving of the
    gateways' draws and sends, the sequencer's receives and restarts of the process; what a halt means for
    the next start.
  \<^item> \<open>Main_App\<close> (\<open>cmd/app/main.go\<close>, \<open>banner.go\<close>): \<open>main\<close> as a whole; a new start resumes in the state the
    last run ended in, and real money is announced by the banner.
  \<^item> \<open>System\<close>: the process with the goroutines of all workers, the poller, the sequencer and restarts, each draw of a
    number and each send a step of its own; every run of it is the run of \<open>Application\<close> that its labels tell, so that what is
    shown there holds of the whole, and what it sends is exactly what it read, each quote once and in order.
  \<^item> \<open>Shutdown\<close> (\<open>cmd/app/main.go\<close>): the process from its start over the signal to the return of \<open>main\<close>; when
    \<open>main\<close> has returned all workers have ended and all connections are closed, and no deadlock is reachable.
  \<^item> \<open>Tools\<close> (\<open>cmd/integration\<close>) and \<open>Price_Test\<close> (\<open>cmd/pricetest\<close>): the integration check sends demo
    requests only and its exit status tells whether it passed, a panic (\<open>recovery.go\<close>) included; the price test shows the exact prices.

  \<^bold>\<open>Interfaces.\<close> Locales state what a component promises to the ones that use it: a checked operation
  (\<open>checked_op\<close>), an account (\<open>account\<close>), an object pool (\<open>object_pool\<close>), an event log (\<open>event_log\<close>),
  a strategy (\<open>strategy\<close>), a message handler of the WebSocket loop (\<open>message_handler\<close>: it does nothing but offer the
  events its message quotes; the three workers are its instances), an executor of orders (\<open>execution\<close>,
  interpreted on the paper, the real and the mock executor). Each is
  interpreted on the model's definitions, and the properties use the interpreted facts.

  \<^bold>\<open>Bounds and termination.\<close> All functions are total: loops recurse over the data or over a measure
  (the attempts left, the elements left), so no fuel is used; the one loop that may run on, \<open>Wait\<close> of
  the rate limiter, recurses over the sleeps it is given and is proved to need one. The inbox holds 1024 events, the
  client makes three attempts to fetch a rate, the breaker opens at five failures, five icons are
  fetched at a time: these are the constants of the source. Words are never treated as unbounded
  numbers except under an explicit range assumption of the theorem.

  \<^bold>\<open>Not modelled.\<close> Log output and the profiling server, which share no state with the rest; an interface
  file no code is written against (\<open>interfaces.go\<close>), which has no bodies.
  A fault inside SQLite other than a failing statement is outside the model, as is what \<open>float64\<close>
  does beyond its range (infinities and not-a-number): the numbers of this program stay within. Upper and lower case
  are those of ASCII. Memory is unlimited: a slice of any length that fits an \<open>int\<close> can be made.
\<close>

section \<open>Properties that span components\<close>

text \<open>C4. The engine with the crossover strategy never panics on a sound feed: with periods
  \<open>0 < S < L\<close>, prices of the traded symbol between 0 and the largest \<open>int64\<close> over \<open>L\<close>, fewer
  than \<open>2^63\<close> events and no database fault, a new sequencer on an empty log processes every
  event, and recovery from the log it wrote restores the state it ended in.\<close>

theorem engine_with_sma_runs_and_recovers:
  assumes "0 < S" "S < L" "in_i64 (int L)" "NewSMACrossStrategy symbol (int S) (int L) = Inr strat"
    and "\<forall>p \<in> set (event_prices symbol evs). price_ok L p" "\<forall>(f, ev) \<in> set evs. \<not> f \<and> event_well_encoded ev"
    and "int (length evs) < 9223372036854775808" "es_events st = []"
  shows "\<exists>s. process_all OnMarketUpdate evs (NewSequencer (Some st) (Some strat) cb) = Done () s \<and>
    RecoverFromWAL OnMarketUpdate order False NoFault (NewSequencer (sq_store s) (Some strat) cb) = Done None s"
proof -
  have inv: "sma_engine_inv S L symbol (NewSequencer (Some st) (Some strat) cb) []"
    by (rule sma_boot_engine_inv [OF assms(1-4,8)])
  have no_fault: "\<forall>(f, ev) \<in> set evs. \<not> f" and enc: "\<forall>(f, ev) \<in> set evs. event_well_encoded ev"
    using assms(6) by auto
  obtain s where s: "process_all OnMarketUpdate evs (NewSequencer (Some st) (Some strat) cb) = Done () s"
    using sma_engine_runs [OF inv _ _ no_fault] assms(5,7) by auto
  show ?thesis using s recovery_of_run [OF s assms(8) enc] by blast
qed

theorem engine_with_sma_runs_and_recovers_witness:
  "\<exists>strat s. NewSMACrossStrategy ''BTC'' 1 2 = Inr strat \<and>
    process_all OnMarketUpdate example_events (NewSequencer (Some empty_store) (Some strat) False) = Done () s \<and>
    RecoverFromWAL OnMarketUpdate [] False NoFault (NewSequencer (sq_store s) (Some strat) False) = Done None s"
proof -
  obtain strat where strat: "NewSMACrossStrategy ''BTC'' (int 1) (int 2) = Inr strat"
    by (simp add: NewSMACrossStrategy_def)
  have "\<exists>s. process_all OnMarketUpdate example_events (NewSequencer (Some empty_store) (Some strat) False) = Done () s \<and>
    RecoverFromWAL OnMarketUpdate [] False NoFault (NewSequencer (sq_store s) (Some strat) False) = Done None s"
    by (rule engine_with_sma_runs_and_recovers [OF _ _ _ strat])
      (simp_all add: in_i64_def example_events_def example_event_def zero_market_update_def price_ok_def
        empty_store_def ascii_well_encoded byte_in_def)
  with strat show ?thesis by auto
qed

end
